(* ===== verification/Py_Prelude.thy ===== *)
theory Py_Prelude
  imports Complex_Main "HOL-Library.AList" "HOL-Library.Monad_Syntax" "HOL-Library.Multiset"
begin

section \<open>Prelude: the Python values and effects the components share\<close>

text \<open>
  This theory fixes how Python is read in the other theories.

  \<^item> A Python \<open>str\<close> is a HOL \<open>string\<close>, the list of the bytes of its UTF-8 encoding (equality,
    prefixes, cutting at an ASCII character and the order of code points agree with Python;
    character classification is the ASCII one).
  \<^item> A \<open>dict\<close> is an association list in insertion order: \<open>AList.update\<close> overwrites in place or
    appends, as \<open>d[k] = v\<close> does, \<open>AList.delete\<close> is \<open>pop\<close>, \<open>map_of\<close> is \<open>get\<close>.
  \<^item> What \<open>json.loads\<close> can return is the datatype \<open>json\<close>. A Python float is an exact dyadic
    number, an infinity or NaN.
  \<^item> A pure routine that can raise only one kind of exception returns an \<open>option\<close> (None is the
    raise) or a sum with \<open>Inl\<close> for the exception.
  \<^item> A coroutine that talks to the outside is a function over an arbitrary world type \<open>'w\<close>
    which returns the result or the exception together with the new world.
\<close>

named_theorems py_simps "evaluation rules of the Python primitives"
named_theorems io_simps "evaluation rules of the effect combinators"

subsection \<open>JSON values\<close>

datatype pyfloat = FFin int int | FInf bool | FNaN
  \<comment> \<open>\<open>FFin m e\<close> is the number \<open>m * 2 ^ e\<close>; \<open>FInf True\<close> is minus infinity\<close>

datatype json =
    JNull
  | JBool bool
  | JInt int
  | JFloat pyfloat
  | JStr string
  | JList "json list"
  | JDict "(string \<times> json) list"

lemma size_json_member:
  "(k, v) \<in> set d \<Longrightarrow> size v < size (JDict d)" "x \<in> set xs \<Longrightarrow> size x < size (JList xs)"
proof -
  show "(k, v) \<in> set d \<Longrightarrow> size v < size (JDict d)" by (induction d) auto
  show "x \<in> set xs \<Longrightarrow> size x < size (JList xs)" by (induction xs) auto
qed

type_synonym message = "(string \<times> json) list" \<comment> \<open>a \<open>dict\<close> parsed from JSON\<close>

text \<open>\<open>d.get(k)\<close> and \<open>d.get(k, default)\<close>.\<close>

definition jget :: "message \<Rightarrow> string \<Rightarrow> json" where
  "jget d k = (case map_of d k of None \<Rightarrow> JNull | Some v \<Rightarrow> v)"

definition jget_default :: "message \<Rightarrow> string \<Rightarrow> json \<Rightarrow> json" where
  "jget_default d k v0 = (case map_of d k of None \<Rightarrow> v0 | Some v \<Rightarrow> v)"

text \<open>Truth value testing: \<open>if x\<close>, \<open>x or y\<close>.\<close>

fun truthy :: "json \<Rightarrow> bool" where
  "truthy JNull = False"
| "truthy (JBool b) = b"
| "truthy (JInt i) = (i \<noteq> 0)"
| "truthy (JFloat (FFin m e)) = (m \<noteq> 0)"
| "truthy (JFloat f) = True"
| "truthy (JStr s) = (s \<noteq> [])"
| "truthy (JList xs) = (xs \<noteq> [])"
| "truthy (JDict d) = (d \<noteq> [])"

definition py_or :: "json \<Rightarrow> json \<Rightarrow> json" where
  "py_or a b = (if truthy a then a else b)"

text \<open>\<open>isinstance(x, int)\<close> also holds for a \<open>bool\<close>, which then counts as 0 or 1.\<close>

fun int_instance :: "json \<Rightarrow> int option" where
  "int_instance (JInt i) = Some i"
| "int_instance (JBool b) = Some (if b then 1 else 0)"
| "int_instance _ = None"

fun str_instance :: "json \<Rightarrow> string option" where
  "str_instance (JStr s) = Some s"
| "str_instance _ = None"

fun dict_instance :: "json \<Rightarrow> message option" where
  "dict_instance (JDict d) = Some d"
| "dict_instance _ = None"

fun list_instance :: "json \<Rightarrow> json list option" where
  "list_instance (JList xs) = Some xs"
| "list_instance _ = None"

text \<open>Comparison of a JSON value with an \<open>int\<close> literal by \<open>==\<close>.\<close>

fun float_eq_int :: "pyfloat \<Rightarrow> int \<Rightarrow> bool" where
  "float_eq_int (FFin m e) n =
     (if 0 \<le> e then m * 2 ^ nat e = n else m = n * 2 ^ nat (- e))"
| "float_eq_int _ n = False"

fun py_eq_int :: "json \<Rightarrow> int \<Rightarrow> bool" where
  "py_eq_int (JInt i) n = (i = n)"
| "py_eq_int (JBool b) n = ((if b then 1 else 0) = n)"
| "py_eq_int (JFloat f) n = float_eq_int f n"
| "py_eq_int _ n = False"

subsection \<open>Built-in exceptions\<close>

datatype py_exn =
    ValueError
  | TypeError
  | IndexError
  | AttributeError
  | OverflowError
  | RuntimeError string
  | RecursionError
  | AssertionError
  | StructError
  | OSError
  | TimeoutError
  | OtherError string

text \<open>
  What parsing a text as JSON does: it returns a value, raises one of the two exceptions
  \<open>json.JSONDecodeError\<close> and \<open>UnicodeDecodeError\<close>, or another one (\<open>RecursionError\<close> on deep nesting,
  \<open>ValueError\<close> on a number of more than 4300 digits).
\<close>

datatype loads_result = Loaded json | DecodeError | LoadsRaises py_exn

text \<open>\<open>x.get(k)\<close> and \<open>x.get(k, default)\<close> of a value that need not be a \<open>dict\<close>.\<close>

definition attr_get_default :: "json \<Rightarrow> string \<Rightarrow> json \<Rightarrow> py_exn + json" where
  "attr_get_default v k v0 =
     (case v of JDict d \<Rightarrow> Inr (jget_default d k v0) | _ \<Rightarrow> Inl AttributeError)"

definition attr_get :: "json \<Rightarrow> string \<Rightarrow> py_exn + json" where
  "attr_get v k = attr_get_default v k JNull"

lemma attr_get_dict [simp]:
  "attr_get_default (JDict d) k v0 = Inr (jget_default d k v0)" "attr_get (JDict d) k = Inr (jget d k)"
  by (simp_all add: attr_get_def attr_get_default_def jget_def jget_default_def)

subsection \<open>Strings and numbers\<close>

definition is_digit :: "char \<Rightarrow> bool" where
  "is_digit c \<longleftrightarrow> 48 \<le> (of_char c :: nat) \<and> (of_char c :: nat) \<le> 57"

definition is_space :: "char \<Rightarrow> bool" where
  "is_space c \<longleftrightarrow> (let n = (of_char c :: nat) in (9 \<le> n \<and> n \<le> 13) \<or> (28 \<le> n \<and> n \<le> 32))"

definition lstrip_by :: "(char \<Rightarrow> bool) \<Rightarrow> string \<Rightarrow> string" where
  "lstrip_by p s = dropWhile p s"

definition py_strip :: "string \<Rightarrow> string" where
  "py_strip s = rev (dropWhile is_space (rev (dropWhile is_space s)))"

lemma py_strip_idem [simp]: "py_strip (py_strip s) = py_strip s"
proof -
  have "dropWhile is_space (rev (dropWhile is_space (rev (dropWhile is_space s))))
      = rev (dropWhile is_space (rev (dropWhile is_space s)))"
  proof (cases "dropWhile is_space s")
    case (Cons a t)
    then have "\<not> is_space a" by (simp add: dropWhile_eq_Cons_conv)
    then have "dropWhile is_space (rev t @ [a]) = dropWhile is_space (rev t) @ [a]"
      by (induction "rev t" arbitrary: t) (auto simp: dropWhile_append)
    with \<open>\<not> is_space a\<close> Cons show ?thesis by simp
  next
    case Nil
    show ?thesis unfolding Nil by simp
  qed
  then show ?thesis by (simp add: py_strip_def dropWhile_idem)
qed

text \<open>\<open>s.lower()\<close> on ASCII letters.\<close>

definition lower_char :: "char \<Rightarrow> char" where
  "lower_char c = (let n = (of_char c :: nat) in if 65 \<le> n \<and> n \<le> 90 then char_of (n + 32) else c)"

definition lower :: "string \<Rightarrow> string" where
  "lower s = map lower_char s"

text \<open>\<open>s.startswith(p)\<close>.\<close>

definition starts_with :: "string \<Rightarrow> string \<Rightarrow> bool" where
  "starts_with p s \<longleftrightarrow> take (length p) s = p"

text \<open>\<open>s.partition(c)[0]\<close>: everything before the first \<open>c\<close>.\<close>

definition before_char :: "char \<Rightarrow> string \<Rightarrow> string" where
  "before_char c s = takeWhile (\<lambda>x. x \<noteq> c) s"

text \<open>\<open>s.isdigit()\<close> is false on the empty string.\<close>

definition all_digits :: "string \<Rightarrow> bool" where
  "all_digits s \<longleftrightarrow> s \<noteq> [] \<and> list_all is_digit s"

definition digits_value :: "string \<Rightarrow> nat" where
  "digits_value s = foldl (\<lambda>n c. 10 * n + (of_char c - 48)) 0 s"

text \<open>
  \<open>int(s)\<close> for a string of signs and digits, the only strings its callers pass. The
  interpreter refuses more than 4300 digits (\<open>sys.get_int_max_str_digits\<close>). \<open>None\<close> is
  \<open>ValueError\<close>.
\<close>

definition py_int :: "string \<Rightarrow> int option" where
  "py_int s =
     (let neg = (s \<noteq> [] \<and> hd s = CHR ''-''); ds = (if neg then tl s else s)
      in if all_digits ds \<and> length ds \<le> 4300
         then Some (if neg then - int (digits_value ds) else int (digits_value ds))
         else None)"

text \<open>Iterating over a string: its characters, each with the continuation bytes of its UTF-8 form.\<close>

definition continues :: "char \<Rightarrow> bool" where
  "continues c \<longleftrightarrow> 128 \<le> (of_char c :: nat) \<and> (of_char c :: nat) < 192"

function characters :: "string \<Rightarrow> string list" where
  "characters [] = []"
| "characters (c # s) = (c # takeWhile continues s) # characters (dropWhile continues s)"
  by pat_completeness auto
termination
  by (relation "measure length") (auto simp: less_Suc_eq_le length_dropWhile_le)

fun str_nat :: "nat \<Rightarrow> string" where
  "str_nat n = (if n < 10 then [char_of (48 + n)] else str_nat (n div 10) @ [char_of (48 + n mod 10)])"

declare str_nat.simps [simp del]

text \<open>\<open>str(i)\<close> of an \<open>int\<close>.\<close>

definition str_int :: "int \<Rightarrow> string" where
  "str_int i = (if i < 0 then CHR ''-'' # str_nat (nat (- i)) else str_nat (nat i))"

lemma is_digit_char_of: "(n::nat) < 10 \<Longrightarrow> is_digit (char_of (48 + n))"
  by (simp add: is_digit_def)

lemma str_nat_not_Nil [simp]: "str_nat n \<noteq> []"
  by (subst str_nat.simps) simp

lemma str_nat_digits: "list_all is_digit (str_nat n)"
proof (induction n rule: str_nat.induct)
  case (1 n)
  show ?case
  proof (cases "n < 10")
    case True
    then show ?thesis by (subst str_nat.simps) (simp add: is_digit_char_of)
  next
    case False
    with "1.IH" have "list_all is_digit (str_nat (n div 10))" by simp
    with False show ?thesis by (subst str_nat.simps) (simp add: is_digit_char_of)
  qed
qed

lemma digits_value_snoc:
  "digits_value (s @ [c]) = 10 * digits_value s + (of_char c - 48)"
  by (simp add: digits_value_def)

lemma digits_value_str_nat [simp]: "digits_value (str_nat n) = n"
proof (induction n rule: str_nat.induct)
  case (1 n)
  show ?case
  proof (cases "n < 10")
    case True
    then show ?thesis by (subst str_nat.simps) (simp add: digits_value_def)
  next
    case False
    with "1.IH" have "digits_value (str_nat (n div 10)) = n div 10" by simp
    with False show ?thesis by (subst str_nat.simps) (simp add: digits_value_snoc)
  qed
qed

lemma hd_str_nat_not_minus: "hd (str_nat n) \<noteq> CHR ''-''"
proof -
  have "is_digit (hd (str_nat n))"
    using str_nat_digits [of n] by (cases "str_nat n") auto
  then show ?thesis by (auto simp: is_digit_def)
qed

lemma py_int_str_int:
  assumes "length (str_int i) \<le> 4300"
  shows "py_int (str_int i) = Some i"
  using assms str_nat_digits hd_str_nat_not_minus
  by (auto simp: py_int_def str_int_def all_digits_def Let_def)

lemma str_nat_inject [simp]: "str_nat m = str_nat n \<longleftrightarrow> m = n"
  by (metis digits_value_str_nat)

lemma str_int_inject [simp]: "str_int i = str_int j \<longleftrightarrow> i = j"
proof
  assume eq: "str_int i = str_int j"
  show "i = j"
    using eq hd_str_nat_not_minus [of "nat i"] hd_str_nat_not_minus [of "nat j"]
    by (auto simp: str_int_def split: if_splits) (metis list.sel(1))+
qed simp

text \<open>Truncation \<open>int(f)\<close> of a float: \<open>ValueError\<close> on NaN, \<open>OverflowError\<close> on infinities.\<close>

definition trunc_scaled :: "int \<Rightarrow> int \<Rightarrow> int" where
  "trunc_scaled m e =
     (if 0 \<le> e then m * 2 ^ nat e else sgn m * (\<bar>m\<bar> div 2 ^ nat (- e)))"

fun int_of_float :: "pyfloat \<Rightarrow> py_exn + int" where
  "int_of_float (FFin m e) = Inr (trunc_scaled m e)"
| "int_of_float (FInf _) = Inl OverflowError"
| "int_of_float FNaN = Inl ValueError"

fun float_is_integer :: "pyfloat \<Rightarrow> bool" where
  "float_is_integer (FFin m e) = (0 \<le> e \<or> 2 ^ nat (- e) dvd m)"
| "float_is_integer _ = False"

subsection \<open>Dictionaries\<close>

text \<open>\<open>d.update(e)\<close> upserts every entry of \<open>e\<close> in order.\<close>

definition dict_update :: "('k \<times> 'v) list \<Rightarrow> ('k \<times> 'v) list \<Rightarrow> ('k \<times> 'v) list" where
  "dict_update d e = fold (\<lambda>(k, v). AList.update k v) e d"

definition dict_keys :: "('k \<times> 'v) list \<Rightarrow> 'k list" where
  "dict_keys d = map fst d"

definition dict_values :: "('k \<times> 'v) list \<Rightarrow> 'v list" where
  "dict_values d = map snd d"

definition wf_dict :: "('k \<times> 'v) list \<Rightarrow> bool" where
  "wf_dict d \<longleftrightarrow> distinct (map fst d)"

lemma wf_dict_Nil [simp]: "wf_dict []"
  by (simp add: wf_dict_def)

lemma wf_dict_update [simp]: "wf_dict d \<Longrightarrow> wf_dict (AList.update k v d)"
  by (simp add: wf_dict_def distinct_update)

lemma wf_dict_delete [simp]: "wf_dict d \<Longrightarrow> wf_dict (AList.delete k d)"
  by (simp add: wf_dict_def distinct_delete)

lemma wf_dict_filter [simp]: "wf_dict d \<Longrightarrow> wf_dict (filter P d)"
  unfolding wf_dict_def by (rule distinct_map_filter)

lemma map_of_update [simp]: "map_of (AList.update k v d) = (map_of d)(k \<mapsto> v)"
  by (rule update_conv')

lemma map_of_delete [simp]: "map_of (AList.delete k d) = (map_of d)(k := None)"
  by (rule delete_conv')

lemma wf_dict_update_fold: "wf_dict d \<Longrightarrow> wf_dict (dict_update d e)"
  unfolding dict_update_def by (induction e arbitrary: d) auto

lemma in_set_map_of: "wf_dict d \<Longrightarrow> (k, v) \<in> set d \<longleftrightarrow> map_of d k = Some v"
  unfolding wf_dict_def by (metis map_of_SomeD map_of_eq_Some_iff)

lemma wf_dict_mset: "mset d = mset e \<Longrightarrow> wf_dict d = wf_dict e"
  unfolding wf_dict_def by (metis mset_eq_imp_distinct_iff mset_map)

lemma map_of_set_eq:
  assumes "wf_dict d" and "wf_dict e" and "set d = set e"
  shows "map_of d = map_of e"
proof
  fix k
  have "map_of d k = Some v \<longleftrightarrow> map_of e k = Some v" for v
    using in_set_map_of [OF assms(1)] in_set_map_of [OF assms(2)] assms(3) by blast
  then show "map_of d k = map_of e k" by (metis not_None_eq)
qed

lemma set_of_map: "wf_dict d \<Longrightarrow> set d = {(k, v). map_of d k = Some v}"
  by (auto simp: in_set_map_of)

lemma wf_dict_rev [simp]: "wf_dict (rev d) = wf_dict d"
  by (rule wf_dict_mset) simp

lemma map_of_rev: "wf_dict d \<Longrightarrow> map_of (rev d) = map_of d"
  by (rule map_of_set_eq) simp_all

lemma map_of_dict_update: "map_of (dict_update d e) = map_of d ++ map_of (rev e)"
  unfolding dict_update_def by (induction e arbitrary: d) (auto simp: map_add_upd)

lemma map_of_fold_delete: "map_of (fold AList.delete ks d) k = (if k \<in> set ks then None else map_of d k)"
  by (induction ks arbitrary: d) auto

lemma wf_fold_delete: "wf_dict d \<Longrightarrow> wf_dict (fold AList.delete ks d)"
  by (induction ks arbitrary: d) simp_all

lemma AList_update_fresh: "k \<notin> set (map fst d) \<Longrightarrow> AList.update k v d = d @ [(k, v)]"
  by (induction d) auto

subsection \<open>Results that may be an exception\<close>

definition bind_res :: "'e + 'a \<Rightarrow> ('a \<Rightarrow> 'e + 'b) \<Rightarrow> 'e + 'b" where
  "bind_res r f = (case r of Inl e \<Rightarrow> Inl e | Inr x \<Rightarrow> f x)"

lemma bind_res_simps [simp]: "bind_res (Inl e) f = Inl e" "bind_res (Inr x) f = f x"
  by (simp_all add: bind_res_def)

lemma bind_res_Inr_iff: "bind_res r f = Inr y \<longleftrightarrow> (\<exists>x. r = Inr x \<and> f x = Inr y)"
  by (cases r) simp_all

lemma bind_res_Inl_iff: "bind_res r f = Inl e \<longleftrightarrow> r = Inl e \<or> (\<exists>x. r = Inr x \<and> f x = Inl e)"
  by (cases r) simp_all

subsection \<open>Coroutines: a world, a result or an exception\<close>

type_synonym ('w, 'e, 'a) io = "'w \<Rightarrow> ('e + 'a) \<times> 'w"

definition return_io :: "'a \<Rightarrow> ('w, 'e, 'a) io" where
  "return_io x = (\<lambda>w. (Inr x, w))"

definition raise_io :: "'e \<Rightarrow> ('w, 'e, 'a) io" where
  "raise_io e = (\<lambda>w. (Inl e, w))"

definition bind_io :: "('w, 'e, 'a) io \<Rightarrow> ('a \<Rightarrow> ('w, 'e, 'b) io) \<Rightarrow> ('w, 'e, 'b) io" where
  "bind_io m f =
     (\<lambda>w. case m w of (Inl e, w') \<Rightarrow> (Inl e, w') | (Inr x, w') \<Rightarrow> f x w')"

text \<open>\<open>try: m except: h\<close>.\<close>

definition catch_io :: "('w, 'e, 'a) io \<Rightarrow> ('e \<Rightarrow> ('w, 'e, 'a) io) \<Rightarrow> ('w, 'e, 'a) io" where
  "catch_io m h =
     (\<lambda>w. case m w of (Inl e, w') \<Rightarrow> h e w' | (Inr x, w') \<Rightarrow> (Inr x, w'))"

definition lift_res :: "'e + 'a \<Rightarrow> ('w, 'e, 'a) io" where
  "lift_res r = (\<lambda>w. (r, w))"

lemma return_io_apply [simp, io_simps]: "return_io x w = (Inr x, w)"
  by (simp add: return_io_def)

lemma raise_io_apply [simp, io_simps]: "raise_io e w = (Inl e, w)"
  by (simp add: raise_io_def)

lemma lift_res_apply [simp, io_simps]: "lift_res r w = (r, w)"
  by (simp add: lift_res_def)

lemma bind_io_Inl [io_simps]: "m w = (Inl e, w') \<Longrightarrow> bind_io m f w = (Inl e, w')"
  by (simp add: bind_io_def)

lemma bind_io_Inr [io_simps]: "m w = (Inr x, w') \<Longrightarrow> bind_io m f w = f x w'"
  by (simp add: bind_io_def)

lemma catch_io_Inl [io_simps]: "m w = (Inl e, w') \<Longrightarrow> catch_io m h w = h e w'"
  by (simp add: catch_io_def)

lemma catch_io_Inr [io_simps]: "m w = (Inr x, w') \<Longrightarrow> catch_io m h w = (Inr x, w')"
  by (simp add: catch_io_def)

lemma bind_return_io [simp]: "bind_io (return_io x) f = f x"
  by (simp add: bind_io_def fun_eq_iff)

lemma bind_raise_io [simp]: "bind_io (raise_io e) f = raise_io e"
  by (simp add: bind_io_def fun_eq_iff)

lemma bind_io_assoc: "bind_io (bind_io m f) g = bind_io m (\<lambda>x. bind_io (f x) g)"
  by (auto simp: bind_io_def fun_eq_iff split: prod.splits sum.splits)

subsection \<open>Error-isolating fan-out\<close>

text \<open>
  Three components call every registered listener in turn and log the exceptions the listeners
  raise (\<open>RoomSession._broadcast\<close>, \<open>BanListManager._broadcast\<close>,
  \<open>AuthSession.handle_auth_expired\<close>). \<open>invoke cb m w\<close> is one awaited call: whether it raised, and
  the world after it. The locale states the contract their loops share.
\<close>

locale isolating_fanout =
  fixes dispatch :: "('cb \<Rightarrow> 'm \<Rightarrow> 'w \<Rightarrow> (py_exn + unit) \<times> 'w) \<Rightarrow> 'cb list \<Rightarrow> 'm \<Rightarrow> 'w \<Rightarrow> 'w"
  assumes dispatch_Nil: "dispatch invoke [] m w = w"
    and dispatch_Cons: "dispatch invoke (cb # cbs) m w = dispatch invoke cbs m (snd (invoke cb m w))"
begin

lemma dispatch_fold: "dispatch invoke cbs m w = fold (\<lambda>cb w. snd (invoke cb m w)) cbs w"
  by (induction cbs arbitrary: w) (simp_all add: dispatch_Nil dispatch_Cons)

lemma dispatch_append:
  "dispatch invoke (xs @ ys) m w = dispatch invoke ys m (dispatch invoke xs m w)"
  by (simp add: dispatch_fold)

text \<open>Whether a listener raises has no influence on what the others see.\<close>

lemma dispatch_ignores_errors:
  assumes "\<And>cb w. snd (invoke cb m w) = snd (invoke' cb m w)"
  shows "dispatch invoke cbs m w = dispatch invoke' cbs m w"
  using assms by (simp add: dispatch_fold)

text \<open>
  Where a call can be seen in the world (\<open>calls\<close> lists those made so far), every listener is
  called exactly once, in registration order, and nobody else is.
\<close>

lemma dispatch_log:
  assumes "\<And>cb w. calls (snd (invoke cb m w)) = calls w @ [(cb, m)]"
  shows "calls (dispatch invoke cbs m w) = calls w @ map (\<lambda>cb. (cb, m)) cbs"
proof (induction cbs arbitrary: w)
  case Nil
  show ?case by (simp add: dispatch_Nil)
next
  case (Cons cb cbs)
  then show ?case by (simp add: dispatch_Cons assms)
qed

end

text \<open>A listener that writes what it was called with to a log, and then raises or returns.\<close>

definition logging_invoke ::
    "('cb \<Rightarrow> bool) \<Rightarrow> 'cb \<Rightarrow> 'm \<Rightarrow> ('cb \<times> 'm) list \<Rightarrow> (py_exn + unit) \<times> ('cb \<times> 'm) list" where
  "logging_invoke raises cb m l =
     (if raises cb then Inl (RuntimeError ''listener'') else Inr (), l @ [(cb, m)])"

lemma snd_logging_invoke [simp]: "snd (logging_invoke raises cb m l) = l @ [(cb, m)]"
  by (simp add: logging_invoke_def)

end
