(* ===== verification/Bounded_Buffer.thy ===== *)
theory Bounded_Buffer
  imports Py_Prelude
begin

section \<open>The contract of a bounded buffer that sheds load\<close>

text \<open>
  The receive loop of \<open>DanmakuClient\<close> and the fan-out of \<open>RoomBridge\<close> both rely on a bounded
  buffer that never blocks the producer: an item is stored, or something is dropped (the item
  itself, or a stored one it displaces), and a consumer takes items out one at a time. The locale
  states what they rely on; its lemmas account for every item over any sequence of operations.
\<close>

datatype 'x buffer_op = OpPut 'x | OpTake

locale bounded_buffer =
  fixes inv :: "'b \<Rightarrow> bool"
    and cap :: "'b \<Rightarrow> int"
    and items :: "'b \<Rightarrow> 'x multiset"
    and put :: "'x \<Rightarrow> 'b \<Rightarrow> 'x option \<times> 'b" \<comment> \<open>what was dropped, and the buffer after\<close>
    and take1 :: "'b \<Rightarrow> ('x \<times> 'b) option"
  assumes size_le_cap: "inv b \<Longrightarrow> int (size (items b)) \<le> cap b"
    and put_inv: "inv b \<Longrightarrow> put x b = (d, b') \<Longrightarrow> inv b'"
    and put_cap: "inv b \<Longrightarrow> put x b = (d, b') \<Longrightarrow> cap b' = cap b"
    and put_items: "inv b \<Longrightarrow> put x b = (d, b') \<Longrightarrow>
      items b' + mset_set (set_option d) = add_mset x (items b)"
    and take_inv: "inv b \<Longrightarrow> take1 b = Some (x, b') \<Longrightarrow> inv b'"
    and take_cap: "inv b \<Longrightarrow> take1 b = Some (x, b') \<Longrightarrow> cap b' = cap b"
    and take_items: "inv b \<Longrightarrow> take1 b = Some (x, b') \<Longrightarrow> items b = add_mset x (items b')"
    and take_None: "inv b \<Longrightarrow> take1 b = None \<longleftrightarrow> items b = {#}"

text \<open>A run: the buffer, what was handed in, what was taken out and what was dropped.\<close>

fun buffer_run ::
    "('x \<Rightarrow> 'b \<Rightarrow> 'x option \<times> 'b) \<Rightarrow> ('b \<Rightarrow> ('x \<times> 'b) option) \<Rightarrow> 'x buffer_op list \<Rightarrow> 'b
      \<Rightarrow> 'b \<times> 'x list \<times> 'x list \<times> 'x list" where
  "buffer_run put take1 [] b = (b, [], [], [])"
| "buffer_run put take1 (OpPut x # ops) b =
     (case put x b of (d, b') \<Rightarrow>
      case buffer_run put take1 ops b' of (b'', ins, outs, drops) \<Rightarrow>
        (b'', x # ins, outs, (case d of None \<Rightarrow> drops | Some y \<Rightarrow> y # drops)))"
| "buffer_run put take1 (OpTake # ops) b =
     (case take1 b of
        None \<Rightarrow> buffer_run put take1 ops b
      | Some (x, b') \<Rightarrow>
          (case buffer_run put take1 ops b' of (b'', ins, outs, drops) \<Rightarrow>
             (b'', ins, x # outs, drops)))"

context bounded_buffer
begin

lemma run_inv:
  "inv b \<Longrightarrow> buffer_run put take1 ops b = (b', ins, outs, drops) \<Longrightarrow> inv b' \<and> cap b' = cap b"
proof (induction ops arbitrary: b b' ins outs drops)
  case Nil
  then show ?case by simp
next
  case (Cons op ops)
  show ?case
  proof (cases op)
    case (OpPut x)
    obtain d b1 where put: "put x b = (d, b1)" by force
    obtain b2 ins2 outs2 drops2 where rest: "buffer_run put take1 ops b1 = (b2, ins2, outs2, drops2)"
      by (metis prod_cases4)
    have "inv b2 \<and> cap b2 = cap b1"
      using put_inv [OF Cons.prems(1) put] rest by (rule Cons.IH)
    with Cons.prems OpPut put rest put_cap show ?thesis by simp
  next
    case OpTake
    show ?thesis
    proof (cases "take1 b")
      case None
      with Cons OpTake show ?thesis by simp
    next
      case (Some xb)
      then obtain x b1 where tk: "take1 b = Some (x, b1)" by (cases xb) auto
      obtain b2 ins2 outs2 drops2 where rest: "buffer_run put take1 ops b1 = (b2, ins2, outs2, drops2)"
        by (metis prod_cases4)
      have "inv b2 \<and> cap b2 = cap b1"
        using take_inv [OF Cons.prems(1) tk] rest by (rule Cons.IH)
      with Cons.prems OpTake tk rest take_cap show ?thesis by simp
    qed
  qed
qed

text \<open>Nothing is lost and nothing is invented: what went in is stored, was taken, or was dropped.\<close>

lemma run_accounting:
  "inv b \<Longrightarrow> buffer_run put take1 ops b = (b', ins, outs, drops) \<Longrightarrow>
   items b + mset ins = items b' + mset outs + mset drops"
proof (induction ops arbitrary: b b' ins outs drops)
  case Nil
  then show ?case by simp
next
  case (Cons op ops)
  show ?case
  proof (cases op)
    case (OpPut x)
    obtain d b1 where put: "put x b = (d, b1)" by force
    obtain b2 ins2 outs2 drops2 where rest: "buffer_run put take1 ops b1 = (b2, ins2, outs2, drops2)"
      by (metis prod_cases4)
    have eq: "items b1 + mset ins2 = items b2 + mset outs2 + mset drops2"
      using put_inv [OF Cons.prems(1) put] rest by (rule Cons.IH)
    have "add_mset x (items b) + mset ins2 = (items b1 + mset_set (set_option d)) + mset ins2"
      using put_items [OF Cons.prems(1) put] by simp
    also have "\<dots> = (items b1 + mset ins2) + mset_set (set_option d)"
      by (simp add: ac_simps)
    also have "\<dots> = items b2 + mset outs2 + mset drops2 + mset_set (set_option d)"
      by (simp only: eq)
    finally have "add_mset x (items b) + mset ins2
        = items b2 + mset outs2 + mset drops2 + mset_set (set_option d)" .
    with Cons.prems(2) OpPut put rest show ?thesis
      by (cases d) auto
  next
    case OpTake
    show ?thesis
    proof (cases "take1 b")
      case None
      with Cons OpTake show ?thesis by simp
    next
      case (Some xb)
      then obtain x b1 where tk: "take1 b = Some (x, b1)" by (cases xb) auto
      obtain b2 ins2 outs2 drops2 where rest: "buffer_run put take1 ops b1 = (b2, ins2, outs2, drops2)"
        by (metis prod_cases4)
      have "items b1 + mset ins2 = items b2 + mset outs2 + mset drops2"
        using take_inv [OF Cons.prems(1) tk] rest by (rule Cons.IH)
      with take_items [OF Cons.prems(1) tk] Cons.prems(2) OpTake tk rest show ?thesis
        by auto
    qed
  qed
qed

lemma run_bounded:
  assumes "inv b" and "buffer_run put take1 ops b = (b', ins, outs, drops)"
  shows "int (size (items b')) \<le> cap b"
  using run_inv [OF assms] size_le_cap [of b'] by simp

end

end
