(* ===== verification/Message_Buffer.thy ===== *)
theory Message_Buffer
  imports Bounded_Buffer
begin

section \<open>The priority message buffer (\<open>bilibili/message_buffer.py\<close>)\<close>

text \<open>
  Three FIFO lanes, one per priority, with one shared bound. When the buffer is full a message
  displaces the oldest message of the least important lane that is strictly less important than
  itself; if there is none, the incoming message is rejected.
\<close>

subsection \<open>Classification\<close>

datatype message_priority = CRITICAL | NORMAL | LOW

fun priority_value :: "message_priority \<Rightarrow> nat" where
  "priority_value CRITICAL = 0"
| "priority_value NORMAL = 1"
| "priority_value LOW = 2"

definition priority_of :: "nat \<Rightarrow> message_priority" where
  "priority_of n = (if n = 0 then CRITICAL else if n = 1 then NORMAL else LOW)"

lemma priority_of_value [simp]: "priority_of (priority_value p) = p"
  by (cases p) (simp_all add: priority_of_def)

lemma priority_value_inject [simp]: "priority_value p = priority_value q \<longleftrightarrow> p = q"
  by (cases p; cases q) simp_all

text \<open>\<open>MessagePriority\<close> is an \<open>IntEnum\<close>: priorities compare as their values.\<close>

instantiation message_priority :: linorder
begin

definition less_eq_message_priority :: "message_priority \<Rightarrow> message_priority \<Rightarrow> bool" where
  "p \<le> q \<longleftrightarrow> priority_value p \<le> priority_value q"

definition less_message_priority :: "message_priority \<Rightarrow> message_priority \<Rightarrow> bool" where
  "p < q \<longleftrightarrow> priority_value p < priority_value q"

instance
  by standard (auto simp: less_eq_message_priority_def less_message_priority_def)

end

definition CRITICAL_COMMANDS :: "string list" where
  "CRITICAL_COMMANDS =
     [''DANMU_MSG'', ''SUPER_CHAT_MESSAGE'', ''SUPER_CHAT_MESSAGE_JPN'',
      ''SUPER_CHAT_MESSAGE_DELETE'', ''ROOM_BLOCK_MSG'', ''WARNING'', ''CUT_OFF'']"

definition NORMAL_COMMANDS :: "string list" where
  "NORMAL_COMMANDS =
     [''GUARD_BUY'', ''SEND_GIFT'', ''ROOM_ADMIN_ENTRANCE'', ''ROOM_ADMINS'', ''LIVE'', ''PREPARING'']"

definition command_name :: "message \<Rightarrow> string" where
  "command_name m =
     (case str_instance (jget m ''cmd'') of
        Some v \<Rightarrow> before_char (CHR '':'') v
      | None \<Rightarrow> ''<unknown>'')"

definition classify_message :: "message \<Rightarrow> message_priority" where
  "classify_message m =
     (let command = command_name m in
      if command \<in> set CRITICAL_COMMANDS then CRITICAL
      else if command \<in> set NORMAL_COMMANDS then NORMAL
      else LOW)"

subsection \<open>State\<close>

record buffered_message =
  bm_payload :: message
  bm_priority :: message_priority
  bm_enqueued_at :: rat

record buffer_put_result =
  accepted :: bool
  dropped :: "buffered_message option"

record message_buffer =
  b_maxsize :: int
  b_queues :: "message_priority \<Rightarrow> buffered_message list"
  b_size :: int
  b_not_empty :: bool \<comment> \<open>the \<open>asyncio.Event\<close>\<close>

definition new_buffer :: "int \<Rightarrow> py_exn + message_buffer" where
  "new_buffer maxsize =
     (if maxsize \<le> 0 then Inl ValueError
      else Inr \<lparr>b_maxsize = maxsize, b_queues = (\<lambda>_. []), b_size = 0, b_not_empty = False\<rparr>)"

definition qsize :: "message_buffer \<Rightarrow> int" where
  "qsize b = b_size b"

definition buffer_empty :: "message_buffer \<Rightarrow> bool" where
  "buffer_empty b \<longleftrightarrow> b_size b = 0"

subsection \<open>Operations\<close>

text \<open>\<open>range(int(LOW), int(priority), -1)\<close>: from the lowest lane up, the incoming one excluded.\<close>

definition victim_lanes :: "message_priority \<Rightarrow> message_priority list" where
  "victim_lanes p = map priority_of (rev [Suc (priority_value p) ..< Suc (priority_value LOW)])"

fun evict :: "message_priority list \<Rightarrow> (message_priority \<Rightarrow> buffered_message list)
    \<Rightarrow> (buffered_message \<times> (message_priority \<Rightarrow> buffered_message list)) option" where
  "evict [] qs = None"
| "evict (p # ps) qs =
     (case qs p of [] \<Rightarrow> evict ps qs | v # rest \<Rightarrow> Some (v, qs(p := rest)))"

definition append_incoming :: "buffered_message \<Rightarrow> message_buffer \<Rightarrow> message_buffer" where
  "append_incoming m b =
     b\<lparr>b_queues := (b_queues b)(bm_priority m := b_queues b (bm_priority m) @ [m]),
       b_size := b_size b + 1, b_not_empty := True\<rparr>"

definition put_nowait :: "message_buffer \<Rightarrow> message \<Rightarrow> rat \<Rightarrow> buffer_put_result \<times> message_buffer" where
  "put_nowait b m now =
     (let priority = classify_message m;
          incoming = \<lparr>bm_payload = m, bm_priority = priority, bm_enqueued_at = now\<rparr>
      in if b_size b \<ge> b_maxsize b then
           (case evict (victim_lanes priority) (b_queues b) of
              None \<Rightarrow> (\<lparr>accepted = False, dropped = Some incoming\<rparr>, b)
            | Some (v, qs) \<Rightarrow>
                (\<lparr>accepted = True, dropped = Some v\<rparr>,
                 append_incoming incoming (b\<lparr>b_queues := qs, b_size := b_size b - 1\<rparr>)))
         else (\<lparr>accepted = True, dropped = None\<rparr>, append_incoming incoming b))"

text \<open>
  \<open>get\<close> either parks the consumer on the event (and leaves the event cleared), or delivers the
  head of the first non-empty lane. \<open>GetRaises\<close> is the \<open>RuntimeError\<close> at the end of the method.
\<close>

datatype get_outcome = Waits message_buffer | Delivers buffered_message message_buffer | GetRaises py_exn

definition lanes :: "message_priority list" where
  "lanes = map priority_of [0 ..< 3]"

definition buffer_get :: "message_buffer \<Rightarrow> get_outcome" where
  "buffer_get b =
     (if b_size b = 0 then Waits (b\<lparr>b_not_empty := False\<rparr>)
      else (case evict lanes (b_queues b) of
              None \<Rightarrow> GetRaises (RuntimeError ''buffer size invariant violated'')
            | Some (m, qs) \<Rightarrow>
                Delivers m (b\<lparr>b_queues := qs, b_size := b_size b - 1,
                  b_not_empty := (if b_size b - 1 = 0 then False else b_not_empty b)\<rparr>)))"

definition buffer_clear :: "message_buffer \<Rightarrow> message_buffer" where
  "buffer_clear b = b\<lparr>b_queues := (\<lambda>_. []), b_size := 0, b_not_empty := False\<rparr>"

subsection \<open>Invariant and contents\<close>

definition buffer_contents :: "message_buffer \<Rightarrow> buffered_message list" where
  "buffer_contents b = concat (map (b_queues b) lanes)"

definition buffer_inv :: "message_buffer \<Rightarrow> bool" where
  "buffer_inv b \<longleftrightarrow>
     0 < b_maxsize b \<and> b_size b = int (length (buffer_contents b)) \<and> b_size b \<le> b_maxsize b \<and>
     (b_not_empty b \<longleftrightarrow> 0 < b_size b) \<and>
     (\<forall>p. \<forall>m \<in> set (b_queues b p). bm_priority m = p \<and> p = classify_message (bm_payload m))"

lemma lanes_eq: "lanes = [CRITICAL, NORMAL, LOW]"
  by (simp add: lanes_def priority_of_def numeral_3_eq_3 upt_rec)

lemma victim_lanes_eq:
  "victim_lanes CRITICAL = [LOW, NORMAL]" "victim_lanes NORMAL = [LOW]" "victim_lanes LOW = []"
  by (simp_all add: victim_lanes_def priority_of_def upt_rec)

lemma set_victim_lanes: "set (victim_lanes p) = {q. p < q}"
proof -
  have "q \<in> set (victim_lanes p) \<longleftrightarrow> p < q" for q
    by (cases p; cases q) (simp_all add: victim_lanes_eq less_message_priority_def)
  then show ?thesis by blast
qed

lemma contents_eq: "buffer_contents b = b_queues b CRITICAL @ b_queues b NORMAL @ b_queues b LOW"
  by (simp add: buffer_contents_def lanes_eq)

lemma set_contents: "set (buffer_contents b) = (\<Union>p. set (b_queues b p))"
proof
  show "(\<Union>p. set (b_queues b p)) \<subseteq> set (buffer_contents b)"
  proof
    fix m
    assume "m \<in> (\<Union>p. set (b_queues b p))"
    then obtain p where "m \<in> set (b_queues b p)" by blast
    then show "m \<in> set (buffer_contents b)" by (cases p) (simp_all add: contents_eq)
  qed
qed (auto simp: contents_eq)

lemma evict_None: "evict ps qs = None \<longleftrightarrow> (\<forall>p \<in> set ps. qs p = [])"
  by (induction ps) (auto split: list.splits)

lemma evict_SomeD:
  assumes "evict ps qs = Some (v, qs')"
  obtains p rest where "p \<in> set ps" "qs p = v # rest" "qs' = qs(p := rest)"
  using assms by (induction ps) (auto split: list.splits)

lemma mset_contents_update:
  "mset (buffer_contents (b\<lparr>b_queues := (b_queues b)(p := xs)\<rparr>)) + mset (b_queues b p)
   = mset (buffer_contents b) + mset xs"
  by (cases p) (simp_all add: contents_eq)

lemma evict_contents:
  assumes "evict ps (b_queues b) = Some (v, qs)"
  shows "mset (buffer_contents b) = add_mset v (mset (buffer_contents (b\<lparr>b_queues := qs\<rparr>)))"
proof -
  from assms obtain p rest where "b_queues b p = v # rest" "qs = (b_queues b)(p := rest)"
    by (rule evict_SomeD)
  then show ?thesis using mset_contents_update [of b p rest] by simp
qed

lemma append_incoming_contents:
  "mset (buffer_contents (append_incoming m b)) = add_mset m (mset (buffer_contents b))"
  by (cases "bm_priority m") (simp_all add: append_incoming_def contents_eq)

lemma append_incoming_simps [simp]:
  "b_size (append_incoming m b) = b_size b + 1"
  "b_maxsize (append_incoming m b) = b_maxsize b"
  "b_not_empty (append_incoming m b)"
  "b_queues (append_incoming m b) p =
     (if p = bm_priority m then b_queues b p @ [m] else b_queues b p)"
  by (simp_all add: append_incoming_def)

subsection \<open>Every operation keeps the invariant\<close>

lemma length_append_incoming:
  "length (buffer_contents (append_incoming m b)) = Suc (length (buffer_contents b))"
  using append_incoming_contents [of m b] by (metis size_add_mset size_mset)

lemma length_evict:
  assumes "evict ps (b_queues b) = Some (v, qs)"
  shows "length (buffer_contents b) = Suc (length (buffer_contents (b\<lparr>b_queues := qs\<rparr>)))"
  using evict_contents [OF assms] by (metis size_add_mset size_mset)

lemma evict_subset:
  "evict ps qs = Some (v, qs') \<Longrightarrow> set (qs' p) \<subseteq> set (qs p)"
  by (erule evict_SomeD) auto

lemma contents_cong: "b_queues b = b_queues b' \<Longrightarrow> buffer_contents b = buffer_contents b'"
  by (simp add: buffer_contents_def)

lemma new_buffer_inv: "new_buffer n = Inr b \<Longrightarrow> buffer_inv b \<and> buffer_contents b = [] \<and> b_maxsize b = n"
  by (auto simp: new_buffer_def buffer_inv_def buffer_contents_def split: if_splits)

lemma buffer_inv_append:
  assumes "buffer_inv b" and "b_size b < b_maxsize b"
    and "bm_priority m = classify_message (bm_payload m)"
  shows "buffer_inv (append_incoming m b)"
  using assms unfolding buffer_inv_def by (auto simp: length_append_incoming)

text \<open>After an eviction the buffer satisfies everything but the flag, which the append restores.\<close>

lemma buffer_inv_displace:
  assumes "buffer_inv b" and "evict ps (b_queues b) = Some (v, qs)"
    and "bm_priority m = classify_message (bm_payload m)"
  shows "buffer_inv (append_incoming m (b\<lparr>b_queues := qs, b_size := b_size b - 1\<rparr>))"
proof -
  let ?b = "b\<lparr>b_queues := qs, b_size := b_size b - 1\<rparr>"
  have "buffer_contents ?b = buffer_contents (b\<lparr>b_queues := qs\<rparr>)" by (rule contents_cong) simp
  then have "length (buffer_contents b) = Suc (length (buffer_contents ?b))"
    using length_evict [OF assms(2)] by simp
  moreover have "\<forall>p. \<forall>x \<in> set (qs p). bm_priority x = p \<and> p = classify_message (bm_payload x)"
    using assms(1) evict_subset [OF assms(2)] unfolding buffer_inv_def by blast
  ultimately show ?thesis
    using assms(1,3) unfolding buffer_inv_def by (auto simp: length_append_incoming)
qed

lemma put_nowait_inv:
  assumes "buffer_inv b" and "put_nowait b m now = (r, b')"
  shows "buffer_inv b'"
proof (cases "b_size b \<ge> b_maxsize b")
  case False
  then show ?thesis using assms by (auto simp: put_nowait_def Let_def intro: buffer_inv_append)
next
  case True
  then show ?thesis using assms
    by (auto simp: put_nowait_def Let_def split: option.splits intro: buffer_inv_displace)
qed

lemma put_nowait_maxsize: "put_nowait b m now = (r, b') \<Longrightarrow> b_maxsize b' = b_maxsize b"
  by (auto simp: put_nowait_def Let_def split: if_splits option.splits)

lemma get_pops:
  assumes "buffer_inv b" and "b_size b \<noteq> 0"
  shows "\<exists>m qs. evict lanes (b_queues b) = Some (m, qs) \<and> buffer_contents b = m # buffer_contents (b\<lparr>b_queues := qs\<rparr>)"
proof -
  from assms have "buffer_contents b \<noteq> []" by (auto simp: buffer_inv_def)
  then show ?thesis by (auto simp: lanes_eq contents_eq split: list.splits)
qed

lemma get_Delivers_inv:
  assumes "buffer_inv b" and "buffer_get b = Delivers m b'"
  shows "buffer_inv b' \<and> buffer_contents b = m # buffer_contents b' \<and> b_maxsize b' = b_maxsize b"
proof -
  from assms(2) have "b_size b \<noteq> 0" by (auto simp: buffer_get_def split: if_splits)
  with assms(1) obtain qs where ev: "evict lanes (b_queues b) = Some (m, qs)"
    and hd: "buffer_contents b = m # buffer_contents (b\<lparr>b_queues := qs\<rparr>)"
    using get_pops assms(2) by (fastforce simp: buffer_get_def)
  from assms(2) ev \<open>b_size b \<noteq> 0\<close> have b': "b' = b\<lparr>b_queues := qs, b_size := b_size b - 1,
      b_not_empty := (if b_size b - 1 = 0 then False else b_not_empty b)\<rparr>"
    by (auto simp: buffer_get_def)
  then have "buffer_contents b' = buffer_contents (b\<lparr>b_queues := qs\<rparr>)" by (auto intro: contents_cong)
  with hd have hd': "buffer_contents b = m # buffer_contents b'" by simp
  moreover have "\<forall>p. \<forall>x \<in> set (qs p). bm_priority x = p \<and> p = classify_message (bm_payload x)"
    using assms(1) evict_subset [OF ev] unfolding buffer_inv_def by blast
  ultimately show ?thesis
    using assms(1) b' by (auto simp: buffer_inv_def)
qed

lemma get_Waits_iff:
  assumes "buffer_inv b"
  shows "(\<exists>b'. buffer_get b = Waits b') \<longleftrightarrow> buffer_contents b = []"
  using assms by (auto simp: buffer_get_def buffer_inv_def split: option.splits)

lemma get_Waits_state: "buffer_get b = Waits b' \<Longrightarrow> b' = b\<lparr>b_not_empty := False\<rparr> \<and> b_size b = 0"
  by (auto simp: buffer_get_def split: if_splits option.splits)

lemma get_never_raises: "buffer_inv b \<Longrightarrow> buffer_get b \<noteq> GetRaises e"
  using get_pops [of b] by (auto simp: buffer_get_def split: option.splits)

lemma clear_inv: "buffer_inv b \<Longrightarrow> buffer_inv (buffer_clear b) \<and> buffer_contents (buffer_clear b) = []"
  by (auto simp: buffer_inv_def buffer_clear_def buffer_contents_def)

subsection \<open>The buffer meets the load-shedding contract\<close>

text \<open>An item is a message with the time it was enqueued; its priority is recomputed from it.\<close>

definition item_of :: "buffered_message \<Rightarrow> message \<times> rat" where
  "item_of m = (bm_payload m, bm_enqueued_at m)"

definition buffer_items :: "message_buffer \<Rightarrow> (message \<times> rat) multiset" where
  "buffer_items b = mset (map item_of (buffer_contents b))"

definition put_item :: "message \<times> rat \<Rightarrow> message_buffer \<Rightarrow> (message \<times> rat) option \<times> message_buffer" where
  "put_item x b = (case put_nowait b (fst x) (snd x) of (r, b') \<Rightarrow> (map_option item_of (dropped r), b'))"

definition take_item :: "message_buffer \<Rightarrow> ((message \<times> rat) \<times> message_buffer) option" where
  "take_item b = (case buffer_get b of Delivers m b' \<Rightarrow> Some (item_of m, b') | _ \<Rightarrow> None)"

lemma item_incoming [simp]:
  "item_of \<lparr>bm_payload = m, bm_priority = p, bm_enqueued_at = t\<rparr> = (m, t)"
  by (simp add: item_of_def)

lemma buffer_items_append: "buffer_items (append_incoming m b) = add_mset (item_of m) (buffer_items b)"
  using arg_cong [OF append_incoming_contents [of m b], of "image_mset item_of"]
  by (simp add: buffer_items_def)

lemma buffer_items_evict:
  assumes "evict ps (b_queues b) = Some (v, qs)"
  shows "buffer_items b = add_mset (item_of v) (buffer_items (b\<lparr>b_queues := qs, b_size := n\<rparr>))"
proof -
  have "buffer_contents (b\<lparr>b_queues := qs, b_size := n\<rparr>) = buffer_contents (b\<lparr>b_queues := qs\<rparr>)"
    by (rule contents_cong) simp
  then show ?thesis
    using arg_cong [OF evict_contents [OF assms], of "image_mset item_of"]
    by (simp add: buffer_items_def)
qed

lemma put_item_items:
  assumes "put_item x b = (d, b')"
  shows "buffer_items b' + mset_set (set_option d) = add_mset x (buffer_items b)"
proof (cases "b_size b \<ge> b_maxsize b")
  case False
  with assms show ?thesis
    by (auto simp: put_item_def put_nowait_def Let_def buffer_items_append)
next
  case True
  show ?thesis
  proof (cases "evict (victim_lanes (classify_message (fst x))) (b_queues b)")
    case None
    with True assms show ?thesis
      by (auto simp: put_item_def put_nowait_def Let_def)
  next
    case (Some vq)
    then obtain v qs where ev: "evict (victim_lanes (classify_message (fst x))) (b_queues b) = Some (v, qs)"
      by (cases vq) auto
    let ?b = "b\<lparr>b_queues := qs, b_size := b_size b - 1\<rparr>"
    let ?m = "\<lparr>bm_payload = fst x, bm_priority = classify_message (fst x), bm_enqueued_at = snd x\<rparr>"
    have "put_item x b = (Some (item_of v), append_incoming ?m ?b)"
      using True ev by (simp add: put_item_def put_nowait_def Let_def)
    with assms have d: "d = Some (item_of v)" and b': "b' = append_incoming ?m ?b" by simp_all
    have "buffer_items b = add_mset (item_of v) (buffer_items ?b)"
      using ev by (rule buffer_items_evict)
    then show ?thesis by (simp add: d b' buffer_items_append)
  qed
qed

interpretation priority_buffer:
  bounded_buffer buffer_inv b_maxsize buffer_items put_item take_item
proof unfold_locales
  fix b :: message_buffer
  show "buffer_inv b \<Longrightarrow> int (size (buffer_items b)) \<le> b_maxsize b"
    by (simp add: buffer_inv_def buffer_items_def)
next
  fix b b' :: message_buffer and x d
  assume "buffer_inv b" and "put_item x b = (d, b')"
  then show "buffer_inv b'" and "b_maxsize b' = b_maxsize b"
    and "buffer_items b' + mset_set (set_option d) = add_mset x (buffer_items b)"
    by (auto simp: put_item_def put_item_items split: prod.splits
        intro: put_nowait_inv put_nowait_maxsize)
next
  fix b b' :: message_buffer and x
  assume "buffer_inv b" and "take_item b = Some (x, b')"
  then show "buffer_inv b'" and "b_maxsize b' = b_maxsize b"
    and "buffer_items b = add_mset x (buffer_items b')"
    using get_Delivers_inv [of b]
    by (auto simp: take_item_def buffer_items_def split: get_outcome.splits)
next
  fix b :: message_buffer
  assume "buffer_inv b"
  show "take_item b = None \<longleftrightarrow> buffer_items b = {#}"
  proof (cases "buffer_get b")
    case (Waits b')
    then show ?thesis
      using get_Waits_iff [OF \<open>buffer_inv b\<close>] by (simp add: take_item_def buffer_items_def)
  next
    case (Delivers m b')
    then show ?thesis
      using get_Delivers_inv [OF \<open>buffer_inv b\<close>] by (simp add: take_item_def buffer_items_def)
  next
    case (GetRaises e)
    then show ?thesis using get_never_raises [OF \<open>buffer_inv b\<close>] by simp
  qed
qed

subsection \<open>The abstract buffer: one list, most important messages first\<close>

text \<open>
  The promise of the class, with no lanes: the buffer is one list in order of priority and, within
  a priority, of arrival. A put inserts behind everything at least as important; when the list is
  full, the oldest of the least important messages makes room if it is strictly less important.
\<close>

definition spec_insert :: "buffered_message \<Rightarrow> buffered_message list \<Rightarrow> buffered_message list" where
  "spec_insert m xs =
     filter (\<lambda>x. bm_priority x \<le> bm_priority m) xs @ m # filter (\<lambda>x. bm_priority m < bm_priority x) xs"

definition spec_put :: "int \<Rightarrow> buffered_message \<Rightarrow> buffered_message list
    \<Rightarrow> buffer_put_result \<times> buffered_message list" where
  "spec_put cap m xs =
     (if int (length xs) < cap then (\<lparr>accepted = True, dropped = None\<rparr>, spec_insert m xs)
      else let worst = bm_priority (last xs) in
        if bm_priority m < worst then
          (case filter (\<lambda>x. bm_priority x = worst) xs of
             v # vs \<Rightarrow> (\<lparr>accepted = True, dropped = Some v\<rparr>,
                        spec_insert m (filter (\<lambda>x. bm_priority x < worst) xs @ vs))
           | [] \<Rightarrow> (\<lparr>accepted = False, dropped = Some m\<rparr>, xs))
        else (\<lparr>accepted = False, dropped = Some m\<rparr>, xs))"

definition incoming_message :: "message \<Rightarrow> rat \<Rightarrow> buffered_message" where
  "incoming_message m now = \<lparr>bm_payload = m, bm_priority = classify_message m, bm_enqueued_at = now\<rparr>"

lemma priority_order [simp]:
  "CRITICAL < NORMAL" "CRITICAL < LOW" "NORMAL < LOW"
  "\<not> NORMAL < CRITICAL" "\<not> LOW < CRITICAL" "\<not> LOW < NORMAL"
  "CRITICAL \<le> p" "p \<le> LOW" "\<not> NORMAL \<le> CRITICAL" "\<not> LOW \<le> CRITICAL" "\<not> LOW \<le> NORMAL"
  by (cases p; simp add: less_message_priority_def less_eq_message_priority_def)+

lemma not_less_CRITICAL [simp]: "\<not> p < CRITICAL"
  by (cases p) simp_all

lemma CRITICAL_less_iff: "CRITICAL < p \<longleftrightarrow> p \<noteq> CRITICAL"
  by (cases p) simp_all

lemma lane_filters:
  assumes "\<forall>m \<in> set xs. bm_priority m = p"
  shows "filter (\<lambda>x. bm_priority x \<le> q) xs = (if p \<le> q then xs else [])"
    and "filter (\<lambda>x. q < bm_priority x) xs = (if q < p then xs else [])"
    and "filter (\<lambda>x. bm_priority x < q) xs = (if p < q then xs else [])"
    and "filter (\<lambda>x. bm_priority x = q) xs = (if p = q then xs else [])"
  using assms by (auto simp: filter_empty_conv intro: filter_True)

lemma buffer_inv_lanes:
  assumes "buffer_inv b"
  shows "\<forall>m \<in> set (b_queues b p). bm_priority m = p"
  using assms by (auto simp: buffer_inv_def)

lemma buffer_inv_last:
  assumes "buffer_inv b" and "buffer_contents b \<noteq> []"
  shows "bm_priority (last (buffer_contents b)) =
    (if b_queues b LOW \<noteq> [] then LOW else if b_queues b NORMAL \<noteq> [] then NORMAL else CRITICAL)"
  using assms buffer_inv_lanes [OF assms(1)]
  by (auto simp: contents_eq last_in_set)

lemma put_nowait_incoming:
  "put_nowait b m now =
     (if b_size b \<ge> b_maxsize b then
        (case evict (victim_lanes (classify_message m)) (b_queues b) of
           None \<Rightarrow> (\<lparr>accepted = False, dropped = Some (incoming_message m now)\<rparr>, b)
         | Some (v, qs) \<Rightarrow>
             (\<lparr>accepted = True, dropped = Some v\<rparr>,
              append_incoming (incoming_message m now) (b\<lparr>b_queues := qs, b_size := b_size b - 1\<rparr>)))
      else (\<lparr>accepted = True, dropped = None\<rparr>, append_incoming (incoming_message m now) b))"
  by (simp add: put_nowait_def incoming_message_def Let_def split: option.split)

lemma bm_priority_incoming [simp]: "bm_priority (incoming_message m now) = classify_message m"
  by (simp add: incoming_message_def)

lemma append_incoming_insert:
  assumes "\<And>p. \<forall>x \<in> set (b_queues b p). bm_priority x = p"
  shows "buffer_contents (append_incoming m b) = spec_insert m (buffer_contents b)"
  by (cases "bm_priority m") (simp_all add: contents_eq spec_insert_def lane_filters [OF assms])

lemma evict_spec_put:
  assumes inv: "buffer_inv b" and full: "b_size b \<ge> b_maxsize b"
  shows "(case evict (victim_lanes (bm_priority m)) (b_queues b) of
            None \<Rightarrow> spec_put (b_maxsize b) m (buffer_contents b)
              = (\<lparr>accepted = False, dropped = Some m\<rparr>, buffer_contents b)
          | Some (v, qs) \<Rightarrow> spec_put (b_maxsize b) m (buffer_contents b)
              = (\<lparr>accepted = True, dropped = Some v\<rparr>,
                 spec_insert m (buffer_contents (b\<lparr>b_queues := qs, b_size := b_size b - 1\<rparr>))))"
proof -
  let ?xs = "buffer_contents b"
  have len: "\<not> int (length ?xs) < b_maxsize b" and ne: "?xs \<noteq> []"
    using inv full by (auto simp: buffer_inv_def)
  define w where "w = bm_priority (last ?xs)"
  have w: "w = (if b_queues b LOW \<noteq> [] then LOW else if b_queues b NORMAL \<noteq> [] then NORMAL else CRITICAL)"
    unfolding w_def using inv ne by (rule buffer_inv_last)
  have put: "spec_put (b_maxsize b) m ?xs =
      (if bm_priority m < w then
         (case filter (\<lambda>x. bm_priority x = w) ?xs of
            v # vs \<Rightarrow> (\<lparr>accepted = True, dropped = Some v\<rparr>,
                       spec_insert m (filter (\<lambda>x. bm_priority x < w) ?xs @ vs))
          | [] \<Rightarrow> (\<lparr>accepted = False, dropped = Some m\<rparr>, ?xs))
       else (\<lparr>accepted = False, dropped = Some m\<rparr>, ?xs))"
    unfolding spec_put_def Let_def w_def [symmetric] using len by simp
  have lane: "filter (\<lambda>x. bm_priority x = w) ?xs = b_queues b w"
      "filter (\<lambda>x. bm_priority x < w) ?xs =
        (if w = CRITICAL then [] else if w = NORMAL then b_queues b CRITICAL
         else b_queues b CRITICAL @ b_queues b NORMAL)"
    by (cases w; simp add: contents_eq lane_filters [OF buffer_inv_lanes [OF inv]])+
  show ?thesis
    unfolding put lane unfolding w
    by (cases "bm_priority m"; cases "b_queues b LOW"; cases "b_queues b NORMAL")
       (simp_all add: victim_lanes_eq contents_eq)
qed

lemma put_nowait_refines_spec:
  assumes inv: "buffer_inv b"
  shows "(case put_nowait b m now of (r, b') \<Rightarrow> (r, buffer_contents b'))
    = spec_put (b_maxsize b) (incoming_message m now) (buffer_contents b)"
proof (cases "b_size b \<ge> b_maxsize b")
  case False
  then have "int (length (buffer_contents b)) < b_maxsize b" using inv by (simp add: buffer_inv_def)
  with False show ?thesis
    using append_incoming_insert [of b "incoming_message m now"] buffer_inv_lanes [OF inv]
    by (simp add: put_nowait_incoming spec_put_def)
next
  case True
  show ?thesis
  proof (cases "evict (victim_lanes (classify_message m)) (b_queues b)")
    case None
    with True evict_spec_put [OF inv True, of "incoming_message m now"] show ?thesis
      by (simp add: put_nowait_incoming)
  next
    case (Some vq)
    obtain v qs where vq: "vq = (v, qs)" by force
    have "\<forall>p. \<forall>x \<in> set (qs p). bm_priority x = p"
      using Some vq buffer_inv_lanes [OF inv] evict_subset by blast
    with True Some vq evict_spec_put [OF inv True, of "incoming_message m now"] show ?thesis
      by (simp add: put_nowait_incoming append_incoming_insert)
  qed
qed

lemma contents_priority_sorted:
  assumes "buffer_inv b"
  shows "sorted (map bm_priority (buffer_contents b))"
proof -
  have one: "sorted (map bm_priority xs)" if "\<forall>m \<in> set xs. bm_priority m = p" for xs p
    using that by (induction xs) auto
  show ?thesis
    using one [OF buffer_inv_lanes [OF assms]] buffer_inv_lanes [OF assms]
    by (simp add: contents_eq sorted_append)
qed

lemma spec_put_loses_critical:
  assumes put: "spec_put cap m xs = (r, ys)" and "dropped r = Some d" and "bm_priority d = CRITICAL"
    and "xs \<noteq> []"
  shows "d = m \<and> ys = xs \<and> \<not> accepted r \<and> cap \<le> int (length xs) \<and> bm_priority (last xs) = CRITICAL"
proof -
  let ?w = "bm_priority (last xs)"
  have full: "\<not> int (length xs) < cap"
    using assms by (auto simp: spec_put_def)
  have "\<not> bm_priority m < ?w"
  proof
    assume less: "bm_priority m < ?w"
    obtain v vs where vs: "filter (\<lambda>x. bm_priority x = ?w) xs = v # vs"
      using \<open>xs \<noteq> []\<close> by (cases "filter (\<lambda>x. bm_priority x = ?w) xs") (auto simp: filter_empty_conv)
    then have "v \<in> set (filter (\<lambda>x. bm_priority x = ?w) xs)" by simp
    then have "bm_priority v = ?w" by simp
    moreover have "d = v" using put full less vs assms(2) by (auto simp: spec_put_def Let_def)
    ultimately show False using less assms(3) by simp
  qed
  with put full assms(2,3) show ?thesis
    by (auto simp: spec_put_def Let_def CRITICAL_less_iff)
qed

subsection \<open>What the buffer promises\<close>

definition danmu_witness :: message where
  "danmu_witness = [(''cmd'', JStr ''DANMU_MSG:4:0:2:2:2:0'')]"

definition telemetry_witness :: message where
  "telemetry_witness = [(''cmd'', JStr ''ONLINE_RANK_COUNT'')]"

definition gift_witness :: message where
  "gift_witness = [(''cmd'', JStr ''SEND_GIFT'')]"

lemma classify_witness [simp]:
  "classify_message danmu_witness = CRITICAL"
  "classify_message telemetry_witness = LOW"
  "classify_message gift_witness = NORMAL"
  by (simp_all add: classify_message_def command_name_def jget_def danmu_witness_def
      telemetry_witness_def gift_witness_def before_char_def CRITICAL_COMMANDS_def NORMAL_COMMANDS_def)

text \<open>A full buffer of size two with a piece of telemetry and a gift in it.\<close>

definition buffer_witness :: message_buffer where
  "buffer_witness =
     \<lparr>b_maxsize = 2,
      b_queues = (\<lambda>_. [])(LOW := [incoming_message telemetry_witness 0],
                         NORMAL := [incoming_message gift_witness 1]),
      b_size = 2, b_not_empty = True\<rparr>"

lemma buffer_witness_contents:
  "buffer_contents buffer_witness = [incoming_message gift_witness 1, incoming_message telemetry_witness 0]"
  by (simp add: buffer_witness_def contents_eq)

lemma b_maxsize_witness [simp]: "b_maxsize buffer_witness = 2"
  by (simp add: buffer_witness_def)

lemma buffer_witness_inv: "buffer_inv buffer_witness"
proof -
  have "bm_priority m = p \<and> p = classify_message (bm_payload m)"
    if "m \<in> set (b_queues buffer_witness p)" for p m
    using that by (cases p) (simp_all add: buffer_witness_def incoming_message_def)
  then show ?thesis
    by (simp add: buffer_inv_def buffer_witness_contents) (simp add: buffer_witness_def)
qed

text \<open>
  C4. A put on a well-formed buffer returns the result of the abstract one-list buffer and leaves a
  well-formed buffer whose contents are those of the abstract one: it inserts behind everything at
  least as important, and when full it displaces the oldest message of the least important lane
  if that is strictly less important than the incoming message, which it rejects otherwise.
\<close>

theorem put_nowait_refines:
  assumes "buffer_inv b"
  shows "(case put_nowait b m now of (r, b') \<Rightarrow>
      buffer_inv b' \<and> b_maxsize b' = b_maxsize b \<and>
      (r, buffer_contents b') = spec_put (b_maxsize b) (incoming_message m now) (buffer_contents b))"
proof -
  obtain r b' where put: "put_nowait b m now = (r, b')" by force
  with put_nowait_refines_spec [OF assms, of m now] put_nowait_inv [OF assms put]
    put_nowait_maxsize [OF put]
  show ?thesis by simp
qed

lemma put_nowait_refines_witness:
  "(case put_nowait buffer_witness danmu_witness 2 of (r, b') \<Rightarrow>
      dropped r = Some (incoming_message telemetry_witness 0) \<and>
      buffer_contents b' = [incoming_message danmu_witness 2, incoming_message gift_witness 1])"
proof -
  have "spec_put 2 (incoming_message danmu_witness 2)
        [incoming_message gift_witness 1, incoming_message telemetry_witness 0]
      = (\<lparr>accepted = True, dropped = Some (incoming_message telemetry_witness 0)\<rparr>,
         [incoming_message danmu_witness 2, incoming_message gift_witness 1])"
    by (simp add: spec_put_def spec_insert_def)
  then show ?thesis
    using put_nowait_refines [OF buffer_witness_inv, of danmu_witness 2]
    by (auto simp: buffer_witness_contents)
qed

text \<open>
  \<open>get\<close> on a well-formed buffer delivers the first message of the priority order, which no other
  message precedes in importance, and removes exactly it; it waits exactly when the buffer is
  empty, with the event cleared; the \<open>RuntimeError\<close> at its end is unreachable.
\<close>

theorem buffer_get_correct:
  assumes "buffer_inv b"
  shows "(case buffer_get b of
      Delivers m b' \<Rightarrow> buffer_inv b' \<and> buffer_contents b = m # buffer_contents b' \<and>
        (\<forall>x \<in> set (buffer_contents b'). bm_priority m \<le> bm_priority x)
    | Waits b' \<Rightarrow> buffer_contents b = [] \<and> b' = b\<lparr>b_not_empty := False\<rparr>
    | GetRaises e \<Rightarrow> False)"
proof (cases "buffer_get b")
  case (Waits b')
  then show ?thesis
    using assms get_Waits_iff [OF assms] by (auto simp: buffer_get_def split: if_splits option.splits)
next
  case (Delivers m b')
  then show ?thesis
    using get_Delivers_inv [OF assms] contents_priority_sorted [OF assms] by simp
next
  case (GetRaises e)
  then show ?thesis using get_never_raises [OF assms] by simp
qed

lemma buffer_get_correct_witness:
  "(case buffer_get buffer_witness of
      Delivers m b' \<Rightarrow> m = incoming_message gift_witness 1 | _ \<Rightarrow> False)"
  using buffer_get_correct [OF buffer_witness_inv]
  by (simp add: buffer_witness_contents split: get_outcome.splits)

text \<open>
  C18. Over any sequence of puts and gets from a new buffer, every message that was put is stored,
  was delivered, or was reported as dropped, each exactly once, and the bound is never exceeded.
\<close>

theorem buffer_accounts_for_every_message:
  assumes "new_buffer n = Inr b"
    and "buffer_run put_item take_item ops b = (b', ins, outs, drops)"
  shows "mset ins = buffer_items b' + mset outs + mset drops \<and> qsize b' \<le> n \<and>
    qsize b' = int (size (buffer_items b'))"
proof -
  have inv: "buffer_inv b" and "buffer_items b = {#}" and "b_maxsize b = n"
    using new_buffer_inv [OF assms(1)] by (simp_all add: buffer_items_def)
  moreover from inv assms(2) have "buffer_inv b'" and "b_maxsize b' = b_maxsize b"
    using priority_buffer.run_inv by blast+
  ultimately show ?thesis
    using priority_buffer.run_accounting [OF inv assms(2)]
    by (simp add: buffer_inv_def qsize_def buffer_items_def)
qed

lemma buffer_accounts_for_every_message_witness:
  "\<exists>b' ins outs drops.
     buffer_run put_item take_item [OpPut (telemetry_witness, 0), OpPut (danmu_witness, 1), OpTake]
       \<lparr>b_maxsize = 1, b_queues = (\<lambda>_. []), b_size = 0, b_not_empty = False\<rparr> = (b', ins, outs, drops) \<and>
     mset ins = buffer_items b' + mset outs + mset drops \<and> ins = [(telemetry_witness, 0), (danmu_witness, 1)]"
proof -
  let ?b = "\<lparr>b_maxsize = 1, b_queues = (\<lambda>_. []), b_size = 0, b_not_empty = False\<rparr> :: message_buffer"
  let ?ops = "[OpPut (telemetry_witness, 0), OpPut (danmu_witness, 1), OpTake]"
  obtain b' ins outs drops where run: "buffer_run put_item take_item ?ops ?b = (b', ins, outs, drops)"
    by (metis prod_cases4)
  have new: "new_buffer 1 = Inr ?b" by (simp add: new_buffer_def)
  have "ins = [(telemetry_witness, 0), (danmu_witness, 1)]"
    using run by (auto split: prod.splits option.splits)
  with run buffer_accounts_for_every_message [OF new run] show ?thesis by blast
qed

text \<open>
  A critical message (chat, paid message, moderation) is only ever lost as the incoming message
  of a buffer that is full of critical messages: nothing displaces one that is stored.
\<close>

theorem critical_message_lost_only_when_full_of_critical:
  assumes "buffer_inv b" and "put_nowait b m now = (r, b')"
    and "dropped r = Some d" and "bm_priority d = CRITICAL"
  shows "d = incoming_message m now \<and> \<not> accepted r \<and> qsize b = b_maxsize b \<and>
    buffer_contents b' = buffer_contents b \<and>
    (\<forall>x \<in> set (buffer_contents b). bm_priority x = CRITICAL)"
proof -
  let ?xs = "buffer_contents b"
  have nonempty: "?xs \<noteq> []"
    using assms by (auto simp: buffer_inv_def put_nowait_incoming split: if_splits)
  have *: "d = incoming_message m now \<and> buffer_contents b' = ?xs \<and> \<not> accepted r \<and>
      b_maxsize b \<le> int (length ?xs) \<and> bm_priority (last ?xs) = CRITICAL"
    using put_nowait_refines_spec [OF assms(1), of m now] assms(2-4)
    by (intro spec_put_loses_critical) (simp_all add: nonempty)
  then have "qsize b = b_maxsize b"
    using assms(1) by (auto simp: buffer_inv_def qsize_def)
  moreover have "b_queues b LOW = [] \<and> b_queues b NORMAL = []"
    using * buffer_inv_last [OF assms(1) nonempty] by (auto split: if_splits)
  then have "\<forall>x \<in> set ?xs. bm_priority x = CRITICAL"
    using buffer_inv_lanes [OF assms(1)] by (simp add: contents_eq)
  ultimately show ?thesis using * by simp
qed

lemma critical_message_lost_only_when_full_of_critical_witness:
  "\<exists>b r b'. put_nowait b danmu_witness 5 = (r, b') \<and> \<not> accepted r \<and> qsize b = b_maxsize b"
proof -
  let ?b = "\<lparr>b_maxsize = 1, b_queues = (\<lambda>_. [])(CRITICAL := [incoming_message danmu_witness 1]),
             b_size = 1, b_not_empty = True\<rparr> :: message_buffer"
  have inv: "buffer_inv ?b"
    by (simp add: buffer_inv_def contents_eq) (simp add: incoming_message_def)
  have put: "put_nowait ?b danmu_witness 5
      = (\<lparr>accepted = False, dropped = Some (incoming_message danmu_witness 5)\<rparr>, ?b)"
    by (simp add: put_nowait_incoming victim_lanes_eq)
  show ?thesis
    using critical_message_lost_only_when_full_of_critical [OF inv put] put
    by (intro exI conjI) (rule put, simp_all)
qed

end
