(* ===== verification/Protocol.thy ===== *)
theory Protocol
  imports Py_Prelude "HOL-Library.Word"
begin

section \<open>The live-socket frame codec (\<open>bilibili/protocol.py\<close>)\<close>

text \<open>
  A frame is a 16-byte big-endian header followed by its payload. \<open>unpack_data\<close> reads the frames of
  one socket message, inflates their payloads, and recurses into a NORMAL payload which is not one
  JSON document. JSON decoding, zlib and brotli are the fields of a \<open>codec\<close>, a parameter of the
  model. The recursion has no bound of its own in the source: a payload may inflate to anything,
  itself included, so the interpreter's stack is the bound. \<open>unpack_data C n\<close> has \<open>n\<close> activations
  of itself left; with none left the call raises \<open>RecursionError\<close>.
\<close>

type_synonym bytes = "8 word list"

subsection \<open>Big-endian numbers\<close>

primrec be_bytes :: "nat \<Rightarrow> nat \<Rightarrow> bytes" where
  "be_bytes 0 n = []"
| "be_bytes (Suc k) n = be_bytes k (n div 256) @ [word_of_nat n]"

definition be_value :: "bytes \<Rightarrow> nat" where
  "be_value bs = foldl (\<lambda>n b. 256 * n + unat b) 0 bs"

lemma length_be_bytes [simp]: "length (be_bytes k n) = k"
  by (induction k arbitrary: n) simp_all

lemma be_value_snoc [simp]: "be_value (bs @ [b]) = 256 * be_value bs + unat b"
  by (simp add: be_value_def)

lemma be_value_Nil [simp]: "be_value [] = 0"
  by (simp add: be_value_def)

lemma be_value_be_bytes: "be_value (be_bytes k n) = n mod 256 ^ k"
proof (induction k arbitrary: n)
  case (Suc k)
  have "unat (word_of_nat n :: 8 word) = n mod 256"
    by (simp add: unat_of_nat)
  with Suc show ?case by (simp add: mod_mult2_eq)
qed simp

lemma be_value_less: "be_value bs < 256 ^ length bs"
proof (induction bs rule: rev_induct)
  case (snoc b bs)
  have "unat b < 256" using unsigned_less [of b] by simp
  with snoc show ?case by simp
qed simp

subsection \<open>Constants and packing\<close>

definition HEADER_LENGTH :: nat where "HEADER_LENGTH = 16"
definition SEQUENCE :: nat where "SEQUENCE = 1"

definition op_HEARTBEAT :: nat where "op_HEARTBEAT = 2"
definition op_HEARTBEAT_RSP :: nat where "op_HEARTBEAT_RSP = 3"
definition op_NORMAL :: nat where "op_NORMAL = 5"
definition op_AUTH :: nat where "op_AUTH = 7"
definition op_AUTH_RSP :: nat where "op_AUTH_RSP = 8"

definition ver_PLAIN :: nat where "ver_PLAIN = 0"
definition ver_RAW :: nat where "ver_RAW = 1"
definition ver_ZLIB :: nat where "ver_ZLIB = 2"
definition ver_BROTLI :: nat where "ver_BROTLI = 3"

lemmas protocol_constants =
  HEADER_LENGTH_def SEQUENCE_def op_HEARTBEAT_def op_HEARTBEAT_RSP_def op_NORMAL_def op_AUTH_def
  op_AUTH_RSP_def ver_PLAIN_def ver_RAW_def ver_ZLIB_def ver_BROTLI_def

text \<open>One field of \<open>struct.pack\<close>: \<open>struct.error\<close> when the number does not fit its bytes.\<close>

definition pack_field :: "nat \<Rightarrow> int \<Rightarrow> py_exn + bytes" where
  "pack_field k n = (if 0 \<le> n \<and> n < 256 ^ k then Inr (be_bytes k (nat n)) else Inl StructError)"

fun pack_fields :: "(nat \<times> int) list \<Rightarrow> py_exn + bytes" where
  "pack_fields [] = Inr []"
| "pack_fields ((k, n) # fs) =
     (case pack_field k n of
        Inl e \<Rightarrow> Inl e
      | Inr b \<Rightarrow> (case pack_fields fs of Inl e \<Rightarrow> Inl e | Inr bs \<Rightarrow> Inr (b @ bs)))"

definition pack_data :: "bytes \<Rightarrow> int \<Rightarrow> int \<Rightarrow> py_exn + bytes" where
  "pack_data data packet_type proto_ver =
     (case pack_fields [(4, int (length data) + int HEADER_LENGTH), (2, int HEADER_LENGTH),
                        (2, proto_ver), (4, packet_type), (4, int SEQUENCE)] of
        Inl e \<Rightarrow> Inl e
      | Inr header \<Rightarrow> Inr (header @ data))"

subsection \<open>Unpacking\<close>

text \<open>
  \<open>loads\<close> is \<open>json.loads(payload.decode("utf-8"))\<close>. The decompressors return None where they raise
  their own error class.
\<close>

record codec =
  loads :: "bytes \<Rightarrow> loads_result"
  zlib_decompress :: "bytes \<Rightarrow> bytes option"
  brotli_decompress :: "bytes \<Rightarrow> bytes option"

definition parse_json :: "codec \<Rightarrow> bytes \<Rightarrow> py_exn + message option" where
  "parse_json C payload =
     (case loads C payload of
        DecodeError \<Rightarrow> Inr None
      | LoadsRaises e \<Rightarrow> Inl e
      | Loaded v \<Rightarrow> Inr (dict_instance v))"

text \<open>\<open>nested\<close> is the recursive call of \<open>unpack_data\<close>.\<close>

definition parse_normal_payload ::
    "codec \<Rightarrow> (bytes \<Rightarrow> py_exn + message list) \<Rightarrow> bytes \<Rightarrow> py_exn + message list" where
  "parse_normal_payload C nested payload =
     (case parse_json C payload of
        Inl e \<Rightarrow> Inl e
      | Inr (Some m) \<Rightarrow> Inr [m]
      | Inr None \<Rightarrow> nested payload)"

text \<open>The payload after decompression; None means that the packet is skipped.\<close>

definition decompress :: "codec \<Rightarrow> nat \<Rightarrow> bytes \<Rightarrow> bytes option" where
  "decompress C proto_ver payload =
     (if proto_ver = ver_ZLIB then zlib_decompress C payload
      else if proto_ver = ver_BROTLI then brotli_decompress C payload
      else if proto_ver \<noteq> ver_PLAIN \<and> proto_ver \<noteq> ver_RAW then None
      else Some payload)"

definition dispatch_packet ::
    "codec \<Rightarrow> (bytes \<Rightarrow> py_exn + message list) \<Rightarrow> nat \<Rightarrow> bytes \<Rightarrow> py_exn + message list" where
  "dispatch_packet C nested packet_type payload =
     (if packet_type = op_NORMAL then parse_normal_payload C nested payload
      else if packet_type = op_AUTH_RSP then
        (case parse_json C payload of
           Inl e \<Rightarrow> Inl e
         | Inr None \<Rightarrow> Inr []
         | Inr (Some m) \<Rightarrow> Inr [m])
      else if packet_type = op_HEARTBEAT_RSP \<and> 4 \<le> length payload then
        Inr [[(''online_count'', JInt (int (be_value (take 4 payload))))]]
      else Inr [])"

definition field :: "bytes \<Rightarrow> nat \<Rightarrow> nat \<Rightarrow> nat" where
  "field data offset k = be_value (take k (drop offset data))"

text \<open>The \<open>while\<close> loop of \<open>unpack_data\<close>, from an offset and the messages found so far.\<close>

function unpack_loop ::
    "codec \<Rightarrow> (bytes \<Rightarrow> py_exn + message list) \<Rightarrow> bytes \<Rightarrow> nat \<Rightarrow> message list \<Rightarrow> py_exn + message list" where
  "unpack_loop C nested data offset messages =
     (if offset + HEADER_LENGTH \<le> length data then
        let total_len = field data offset 4; header_len = field data (offset + 4) 2;
            proto_ver = field data (offset + 6) 2; packet_type = field data (offset + 8) 4
        in if header_len \<noteq> HEADER_LENGTH \<or> total_len < HEADER_LENGTH then Inr messages
           else if length data < offset + total_len then Inr messages
           else let payload = take (total_len - header_len) (drop (offset + header_len) data);
                    next_offset = offset + total_len
                in (case decompress C proto_ver payload of
                      None \<Rightarrow> unpack_loop C nested data next_offset messages
                    | Some inflated \<Rightarrow>
                        (case dispatch_packet C nested packet_type inflated of
                           Inl e \<Rightarrow> Inl e
                         | Inr new \<Rightarrow> unpack_loop C nested data next_offset (messages @ new)))
      else Inr messages)"
  by pat_completeness auto

termination
  by (relation "measure (\<lambda>(C, nested, data, offset, messages). length data - offset)")
     (auto simp: HEADER_LENGTH_def)

declare unpack_loop.simps [simp del]

primrec unpack_data :: "codec \<Rightarrow> nat \<Rightarrow> bytes \<Rightarrow> py_exn + message list" where
  "unpack_data C 0 data = Inl RecursionError"
| "unpack_data C (Suc n) data = unpack_loop C (unpack_data C n) data 0 []"

subsection \<open>Streams of frames\<close>

record frame =
  f_ver :: nat
  f_type :: nat
  f_seq :: nat
  f_body :: bytes

definition frame_fits :: "frame \<Rightarrow> bool" where
  "frame_fits f \<longleftrightarrow> f_ver f < 256 ^ 2 \<and> f_type f < 256 ^ 4 \<and> f_seq f < 256 ^ 4 \<and>
     length (f_body f) + HEADER_LENGTH < 256 ^ 4"

definition frame_bytes :: "frame \<Rightarrow> bytes" where
  "frame_bytes f =
     be_bytes 4 (length (f_body f) + HEADER_LENGTH) @ be_bytes 2 HEADER_LENGTH @ be_bytes 2 (f_ver f)
       @ be_bytes 4 (f_type f) @ be_bytes 4 (f_seq f) @ f_body f"

definition frame_messages ::
    "codec \<Rightarrow> (bytes \<Rightarrow> py_exn + message list) \<Rightarrow> frame \<Rightarrow> py_exn + message list" where
  "frame_messages C nested f =
     (case decompress C (f_ver f) (f_body f) of
        None \<Rightarrow> Inr []
      | Some inflated \<Rightarrow> dispatch_packet C nested (f_type f) inflated)"

text \<open>The results of the frames one after another: the first exception, or all the messages.\<close>

fun collect_messages :: "('e + 'a list) list \<Rightarrow> 'e + 'a list" where
  "collect_messages [] = Inr []"
| "collect_messages (Inl e # rs) = Inl e"
| "collect_messages (Inr xs # rs) =
     (case collect_messages rs of Inl e \<Rightarrow> Inl e | Inr ys \<Rightarrow> Inr (xs @ ys))"

lemma pack_data_eq:
  "pack_data data (int packet_type) (int proto_ver) =
     (let f = \<lparr>f_ver = proto_ver, f_type = packet_type, f_seq = SEQUENCE, f_body = data\<rparr>
      in if frame_fits f then Inr (frame_bytes f) else Inl StructError)"
  by (auto simp: pack_data_def pack_field_def frame_bytes_def frame_fits_def Let_def
      HEADER_LENGTH_def SEQUENCE_def nat_add_distrib)

lemma length_frame_bytes [simp]: "length (frame_bytes f) = length (f_body f) + 16"
  by (simp add: frame_bytes_def)

text \<open>The header fields of a frame that starts at \<open>length pre\<close>.\<close>

lemma frame_fields:
  assumes "frame_fits f"
  shows "field (pre @ frame_bytes f @ rest) (length pre) 4 = length (f_body f) + 16"
    and "field (pre @ frame_bytes f @ rest) (length pre + 4) 2 = 16"
    and "field (pre @ frame_bytes f @ rest) (length pre + 6) 2 = f_ver f"
    and "field (pre @ frame_bytes f @ rest) (length pre + 8) 4 = f_type f"
    and "take (length (f_body f)) (drop (length pre + 16) (pre @ frame_bytes f @ rest)) = f_body f"
  using assms
  by (simp_all add: field_def frame_bytes_def be_value_be_bytes frame_fits_def HEADER_LENGTH_def)

lemma unpack_loop_frame:
  assumes "frame_fits f"
  shows "unpack_loop C nested (pre @ frame_bytes f @ rest) (length pre) ms =
    (case frame_messages C nested f of
       Inl e \<Rightarrow> Inl e
     | Inr new \<Rightarrow> unpack_loop C nested ((pre @ frame_bytes f) @ rest) (length (pre @ frame_bytes f)) (ms @ new))"
  using frame_fields [OF assms, of pre rest]
  by (subst unpack_loop.simps)
     (simp add: HEADER_LENGTH_def Let_def frame_messages_def add.assoc split: option.split sum.split)

lemma unpack_loop_frames:
  assumes "\<forall>f \<in> set fs. frame_fits f"
  shows "unpack_loop C nested (pre @ concat (map frame_bytes fs) @ rest) (length pre) ms =
    (case collect_messages (map (frame_messages C nested) fs) of
       Inl e \<Rightarrow> Inl e
     | Inr new \<Rightarrow> unpack_loop C nested ((pre @ concat (map frame_bytes fs)) @ rest)
         (length (pre @ concat (map frame_bytes fs))) (ms @ new))"
  using assms
proof (induction fs arbitrary: pre ms)
  case Nil
  then show ?case by simp
next
  case (Cons f fs)
  then have f: "frame_fits f" by simp
  show ?case
  proof (cases "frame_messages C nested f")
    case (Inl e)
    then show ?thesis using unpack_loop_frame [OF f] by simp
  next
    case (Inr new)
    have "unpack_loop C nested (pre @ concat (map frame_bytes (f # fs)) @ rest) (length pre) ms
        = unpack_loop C nested ((pre @ frame_bytes f) @ concat (map frame_bytes fs) @ rest)
            (length (pre @ frame_bytes f)) (ms @ new)"
      using unpack_loop_frame [OF f, of C nested pre "concat (map frame_bytes fs) @ rest" ms] Inr
      by simp
    also have "\<dots> = (case collect_messages (map (frame_messages C nested) fs) of
        Inl e \<Rightarrow> Inl e
      | Inr new' \<Rightarrow> unpack_loop C nested (((pre @ frame_bytes f) @ concat (map frame_bytes fs)) @ rest)
         (length ((pre @ frame_bytes f) @ concat (map frame_bytes fs))) ((ms @ new) @ new'))"
      using Cons.prems by (intro Cons.IH) simp
    finally show ?thesis
      using Inr by (simp split: sum.split)
  qed
qed

text \<open>
  Where the loop stops: fewer bytes than a header, a malformed header, or a frame that has not
  arrived in full.
\<close>

definition unreadable :: "bytes \<Rightarrow> bool" where
  "unreadable data \<longleftrightarrow>
     length data < 16 \<or> field data 4 2 \<noteq> 16 \<or> field data 0 4 < 16 \<or> length data < field data 0 4"

lemma field_append [simp]: "field (pre @ data) (length pre + i) k = field data i k"
  by (simp add: field_def)

lemma field_append0 [simp]: "field (pre @ data) (length pre) k = field data 0 k"
  by (simp add: field_def)

lemma unpack_loop_unreadable:
  assumes "unreadable data"
  shows "unpack_loop C nested (pre @ data) (length pre) ms = Inr ms"
  using assms by (subst unpack_loop.simps) (auto simp: HEADER_LENGTH_def Let_def unreadable_def)

lemma field_take: "i + k \<le> n \<Longrightarrow> field (take n data) i k = field data i k"
  by (simp add: field_def drop_take min_def)

lemma cut_frame_unreadable:
  assumes "frame_fits f" and "k < length (frame_bytes f)"
  shows "unreadable (take k (frame_bytes f))"
  using frame_fields(1) [OF assms(1), of "[]" "[]"] assms(2) field_take [of 0 4 k]
  by (cases "k < 16") (simp_all add: unreadable_def)

text \<open>The abstract reading of any byte string: its frames, and the unreadable rest.\<close>

definition first_frame :: "bytes \<Rightarrow> frame" where
  "first_frame data =
     \<lparr>f_ver = field data 6 2, f_type = field data 8 4, f_seq = field data 12 4,
      f_body = take (field data 0 4 - 16) (drop 16 data)\<rparr>"

function split_frames :: "bytes \<Rightarrow> frame list \<times> bytes" where
  "split_frames data =
     (if unreadable data then ([], data)
      else case split_frames (drop (field data 0 4) data) of
             (fs, rest) \<Rightarrow> (first_frame data # fs, rest))"
  by pat_completeness auto

termination
  by (relation "measure length") (auto simp: unreadable_def)

declare split_frames.simps [simp del]

lemma be_bytes_be_value: "be_bytes (length bs) (be_value bs) = bs"
proof (induction bs rule: rev_induct)
  case (snoc b bs)
  have "unat b < 256" using unsigned_less [of b] by simp
  moreover have "(256 :: 8 word) = 0" by transfer simp
  then have "(256 :: 8 word) * w = 0" for w by (metis mult_zero_left)
  then have "word_of_nat (256 * be_value bs + unat b) = b" by simp
  ultimately show ?case using snoc by simp
qed simp

lemma be_bytes_field: "i + k \<le> length data \<Longrightarrow> be_bytes k (field data i k) = take k (drop i data)"
proof -
  assume "i + k \<le> length data"
  then have "length (take k (drop i data)) = k" by simp
  with be_bytes_be_value [of "take k (drop i data)"] show ?thesis by (simp only: field_def)
qed

lemma field_bound: "field data i k < 256 ^ k"
  using be_value_less [of "take k (drop i data)"]
  by (simp add: field_def) (meson less_le_trans min.cobounded2 one_le_numeral power_increasing)

lemma take_take_drop: "take (m + n) xs = take m xs @ take n (drop m xs)"
  by (simp add: take_add)

lemma first_frame_bytes:
  assumes "\<not> unreadable data"
  shows "frame_bytes (first_frame data) = take (field data 0 4) data"
    and "frame_fits (first_frame data)"
proof -
  let ?t = "field data 0 4"
  have len: "16 \<le> length data" "field data 4 2 = 16" "16 \<le> ?t" "?t \<le> length data"
    using assms by (auto simp: unreadable_def)
  have body: "length (f_body (first_frame data)) = ?t - 16"
    using len by (simp add: first_frame_def)
  have header: "take 4 (drop i data) = be_bytes 4 (field data i 4)" if "i + 4 \<le> 16" for i
    using len that by (simp add: be_bytes_field)
  have header2: "take 2 (drop i data) = be_bytes 2 (field data i 2)" if "i + 2 \<le> 16" for i
    using len that by (simp add: be_bytes_field)
  have "take ?t data = take (4 + (2 + (2 + (4 + (4 + (?t - 16)))))) data"
    using len by (intro arg_cong [where f = "\<lambda>n. take n data"]) simp
  also have "\<dots> = take 4 (drop 0 data) @ take 2 (drop 4 data) @ take 2 (drop 6 data)
      @ take 4 (drop 8 data) @ take 4 (drop 12 data) @ take (?t - 16) (drop 16 data)"
    unfolding take_add by (simp add: add.commute)
  also have "\<dots> = frame_bytes (first_frame data)"
    using len body unfolding header header2 frame_bytes_def
    using header [of 0] by (simp add: header header2 HEADER_LENGTH_def first_frame_def)
  finally show "frame_bytes (first_frame data) = take ?t data" by simp
  show "frame_fits (first_frame data)"
    using field_bound [of data 6 2] field_bound [of data 8 4] field_bound [of data 12 4]
      field_bound [of data 0 4] len body
    by (simp add: frame_fits_def first_frame_def HEADER_LENGTH_def)
qed

lemma split_frames_sound:
  assumes "split_frames data = (fs, rest)"
  shows "data = concat (map frame_bytes fs) @ rest \<and> unreadable rest \<and> (\<forall>f \<in> set fs. frame_fits f)"
  using assms
proof (induction data arbitrary: fs rest rule: split_frames.induct)
  case (1 data)
  show ?case
  proof (cases "unreadable data")
    case True
    with "1.prems" show ?thesis by (subst (asm) split_frames.simps) simp
  next
    case False
    obtain gs rest' where gs: "split_frames (drop (field data 0 4) data) = (gs, rest')" by force
    with "1.prems" False have "fs = first_frame data # gs" "rest = rest'"
      by (simp_all add: split_frames.simps [of data])
    moreover have "drop (field data 0 4) data = concat (map frame_bytes gs) @ rest' \<and> unreadable rest' \<and>
        (\<forall>f \<in> set gs. frame_fits f)"
      using False gs by (rule "1.IH")
    ultimately show ?thesis
      using first_frame_bytes [OF False] append_take_drop_id [of "field data 0 4" data] by auto
  qed
qed

lemma unpack_data_frames:
  assumes "\<forall>f \<in> set fs. frame_fits f" and "unreadable rest"
  shows "unpack_data C (Suc n) (concat (map frame_bytes fs) @ rest)
    = collect_messages (map (frame_messages C (unpack_data C n)) fs)"
  using unpack_loop_frames [OF assms(1), of C "unpack_data C n" "[]"] unpack_loop_unreadable [OF assms(2)]
  by (simp split: sum.split)

lemma unpack_data_split:
  "unpack_data C (Suc n) data
    = collect_messages (map (frame_messages C (unpack_data C n)) (fst (split_frames data)))"
proof -
  obtain fs rest where split: "split_frames data = (fs, rest)" by force
  with split_frames_sound [OF split] show ?thesis using unpack_data_frames by fastforce
qed

lemma split_frames_body:
  assumes "f \<in> set (fst (split_frames data))"
  shows "length (f_body f) + 16 \<le> length data"
proof -
  obtain fs rest where split: "split_frames data = (fs, rest)" by force
  with assms have "f \<in> set fs" by simp
  then have "length (frame_bytes f) \<le> length (concat (map frame_bytes fs))"
    by (induction fs) auto
  then show ?thesis using split_frames_sound [OF split] by simp
qed

lemma collect_messages_InlD: "collect_messages rs = Inl e \<Longrightarrow> Inl e \<in> set rs"
  by (induction rs rule: collect_messages.induct) (auto split: sum.splits)

lemma collect_messages_Inr: "collect_messages (map Inr xss) = Inr (concat xss)"
  by (induction xss) simp_all

lemma unpack_data_InlD:
  "unpack_data C n data = Inl e \<Longrightarrow> e = RecursionError \<or> (\<exists>p. loads C p = LoadsRaises e)"
proof (induction n arbitrary: data e)
  case (Suc n)
  then obtain f where "frame_messages C (unpack_data C n) f = Inl e"
    unfolding unpack_data_split by (auto dest!: collect_messages_InlD)
  then show ?case
    using Suc.IH
    by (auto simp: frame_messages_def dispatch_packet_def parse_normal_payload_def parse_json_def
        split: option.splits if_splits sum.splits loads_result.splits)
qed simp

text \<open>Where no payload grows by decompression, a stack of one frame per header suffices.\<close>

lemma unpack_data_no_growth:
  assumes grow: "\<And>v p q. decompress C v p = Some q \<Longrightarrow> length q \<le> length p"
    and loads: "\<And>p e. loads C p \<noteq> LoadsRaises e"
  shows "length data div 16 < n \<Longrightarrow> \<exists>ms. unpack_data C n data = Inr ms"
proof (induction n arbitrary: data)
  case (Suc n)
  have "frame_messages C (unpack_data C n) f \<noteq> Inl e" if "f \<in> set (fst (split_frames data))" for f e
  proof
    assume *: "frame_messages C (unpack_data C n) f = Inl e"
    then obtain q where q: "decompress C (f_ver f) (f_body f) = Some q"
      and d: "dispatch_packet C (unpack_data C n) (f_type f) q = Inl e"
      by (auto simp: frame_messages_def split: option.splits)
    have "unpack_data C n q = Inl e"
      using d loads
      by (auto simp: dispatch_packet_def parse_normal_payload_def parse_json_def
          split: if_splits option.splits loads_result.splits)
    moreover have "length q + 16 \<le> length data"
      using grow [OF q] split_frames_body [OF that] by linarith
    then have "length q div 16 < n" using Suc.prems by linarith
    ultimately show False using Suc.IH by fastforce
  qed
  then have "collect_messages (map (frame_messages C (unpack_data C n)) (fst (split_frames data))) \<noteq> Inl e" for e
    by (metis (no_types, lifting) collect_messages_InlD imageE list.set_map)
  then show ?case
    unfolding unpack_data_split by (metis obj_sumE)
qed simp

definition packed_frame :: "bytes \<Rightarrow> nat \<Rightarrow> nat \<Rightarrow> frame" where
  "packed_frame d ty ver = \<lparr>f_ver = ver, f_type = ty, f_seq = SEQUENCE, f_body = d\<rparr>"

lemma pack_data_InrD:
  "pack_data d (int ty) (int ver) = Inr b \<Longrightarrow>
   frame_fits (packed_frame d ty ver) \<and> b = frame_bytes (packed_frame d ty ver)"
  by (auto simp: pack_data_eq packed_frame_def Let_def split: if_splits)

lemma frame_messages_packed:
  "frame_messages C nested (packed_frame d ty ver) =
     (case decompress C ver d of None \<Rightarrow> Inr [] | Some p \<Rightarrow> dispatch_packet C nested ty p)"
  by (simp add: frame_messages_def packed_frame_def split: option.split)

lemma packed_frames:
  assumes "list_all2 (\<lambda>p b. pack_data (g p) (int (ty p)) (int (ver p)) = Inr b) ps bs"
  shows "(\<forall>f \<in> set (map (\<lambda>p. packed_frame (g p) (ty p) (ver p)) ps). frame_fits f) \<and>
    bs = map frame_bytes (map (\<lambda>p. packed_frame (g p) (ty p) (ver p)) ps)"
  using assms by (induction rule: list_all2_induct) (auto dest: pack_data_InrD)

subsection \<open>What the codec promises\<close>

text \<open>
  A codec for the witnesses: it knows one JSON document, \<open>{}\<close>, and inflates the byte 9 to two
  uncompressed NORMAL frames that each hold it.
\<close>

definition empty_object_frame :: frame where
  "empty_object_frame = \<lparr>f_ver = ver_PLAIN, f_type = op_NORMAL, f_seq = SEQUENCE, f_body = [123, 125]\<rparr>"

definition codec_witness :: codec where
  "codec_witness =
     \<lparr>loads = (\<lambda>p. if p = [123, 125] then Loaded (JDict []) else DecodeError),
      zlib_decompress = (\<lambda>p. if p = [9] then Some (concat (map frame_bytes [empty_object_frame, empty_object_frame])) else None),
      brotli_decompress = (\<lambda>p. None)\<rparr>"

lemma loads_witness: "loads codec_witness p = (if p = [123, 125] then Loaded (JDict []) else DecodeError)"
  by (simp add: codec_witness_def)

lemma empty_object_frame_fits: "frame_fits empty_object_frame"
  by (simp add: frame_fits_def empty_object_frame_def protocol_constants)

text \<open>
  C6. On every byte string \<open>unpack_data\<close> returns the messages of its frames in order, where the
  frames are the cut of the input into complete, well-formed frames up to the first byte
  at which no such frame starts; what follows is ignored, and no byte in between is skipped.
\<close>

theorem unpack_data_reads_every_frame:
  "unpack_data C (Suc n) data
     = collect_messages (map (frame_messages C (unpack_data C n)) (fst (split_frames data))) \<and>
   data = concat (map frame_bytes (fst (split_frames data))) @ snd (split_frames data) \<and>
   unreadable (snd (split_frames data))"
  using unpack_data_split split_frames_sound [of data] by (cases "split_frames data") simp

text \<open>
  Unpacking a concatenation of packed frames, cut off anywhere inside the last one, yields
  exactly the messages of the complete frames, in order: \<open>pack_data\<close> and \<open>unpack_data\<close> agree on the
  header, on the byte order and on the lengths.
\<close>

theorem packed_stream_round_trip:
  assumes "list_all2 (\<lambda>(d, ty, ver) b. pack_data d (int ty) (int ver) = Inr b) ps bs"
    and "pack_data d (int ty) (int ver) = Inr b" and "k < length b"
  shows "unpack_data C (Suc n) (concat bs @ take k b) =
    collect_messages (map (\<lambda>(d, ty, ver).
      case decompress C ver d of None \<Rightarrow> Inr [] | Some p \<Rightarrow> dispatch_packet C (unpack_data C n) ty p) ps)"
proof -
  let ?fs = "map (\<lambda>p. packed_frame (fst p) (fst (snd p)) (snd (snd p))) ps"
  have "(\<forall>f \<in> set ?fs. frame_fits f) \<and> bs = map frame_bytes ?fs"
    using assms(1) by (intro packed_frames) (simp add: case_prod_beta')
  moreover have "unreadable (take k b)"
    using pack_data_InrD [OF assms(2)] cut_frame_unreadable assms(3) by simp
  ultimately have "unpack_data C (Suc n) (concat bs @ take k b)
      = collect_messages (map (frame_messages C (unpack_data C n)) ?fs)"
    using unpack_data_frames by blast
  then show ?thesis
    by (simp add: frame_messages_packed case_prod_beta' comp_def)
qed

lemma packed_stream_round_trip_witness:
  "\<exists>b. pack_data [123, 125] (int op_NORMAL) (int ver_PLAIN) = Inr b \<and>
     unpack_data codec_witness 1 (b @ take 7 b) = Inr [[]]"
proof -
  let ?p = "([123, 125], op_NORMAL, ver_PLAIN) :: bytes \<times> nat \<times> nat"
  let ?b = "frame_bytes empty_object_frame"
  have b: "pack_data [123, 125] (int op_NORMAL) (int ver_PLAIN) = Inr ?b"
    using empty_object_frame_fits by (simp add: pack_data_eq empty_object_frame_def)
  have "unpack_data codec_witness (Suc 0) (concat [?b] @ take 7 ?b) =
    collect_messages (map (\<lambda>(d, ty, ver).
      case decompress codec_witness ver d of None \<Rightarrow> Inr []
      | Some p \<Rightarrow> dispatch_packet codec_witness (unpack_data codec_witness 0) ty p) [?p])"
    using b by (intro packed_stream_round_trip [OF _ b]) (simp_all add: empty_object_frame_def)
  also have "\<dots> = Inr [[]]"
    by (simp add: decompress_def dispatch_packet_def parse_normal_payload_def parse_json_def
        codec_witness_def protocol_constants)
  finally show ?thesis using b by simp
qed

text \<open>
  A compressed batch, a NORMAL packet whose payload inflates to a stream of NORMAL JSON frames
  rather than to one JSON document, is unpacked to the messages of the inner frames in order.
\<close>

theorem compressed_batch_unpacked:
  assumes "pack_data z (int op_NORMAL) (int ver) = Inr b" and "ver = ver_ZLIB \<or> ver = ver_BROTLI"
    and "decompress C ver z = Some (concat bs)" and "loads C (concat bs) = DecodeError"
    and "list_all2 (\<lambda>(d, m) b. pack_data d (int op_NORMAL) (int ver_PLAIN) = Inr b \<and>
      loads C d = Loaded (JDict m)) dms bs"
  shows "unpack_data C (Suc (Suc n)) b = Inr (map snd dms)"
proof -
  let ?fs = "map (\<lambda>p. packed_frame (fst p) op_NORMAL ver_PLAIN) dms"
  have pack: "list_all2 (\<lambda>p b. pack_data (fst p) (int op_NORMAL) (int ver_PLAIN) = Inr b) dms bs"
    and load: "\<forall>p \<in> set dms. loads C (fst p) = Loaded (JDict (snd p))"
    using assms(5) by (induction rule: list_all2_induct) auto
  from load have msgs: "map (frame_messages C (unpack_data C n)) ?fs = map Inr (map (\<lambda>p. [snd p]) dms)"
    by (simp add: frame_messages_packed decompress_def dispatch_packet_def
        parse_normal_payload_def parse_json_def protocol_constants)
  have "unreadable []" by (simp add: unreadable_def)
  then have "unpack_data C (Suc n) (concat (map frame_bytes ?fs) @ [])
      = collect_messages (map (frame_messages C (unpack_data C n)) ?fs)"
    using packed_frames [OF pack] by (intro unpack_data_frames) blast+
  then have "unpack_data C (Suc n) (concat bs) = Inr (concat (map (\<lambda>p. [snd p]) dms))"
    using packed_frames [OF pack] by (simp only: msgs collect_messages_Inr append_Nil2)
  then have nested: "unpack_data C (Suc n) (concat bs) = Inr (map snd dms)"
    by (simp add: concat_map_singleton)
  have "unpack_data C (Suc (Suc n)) b
      = collect_messages [frame_messages C (unpack_data C (Suc n)) (packed_frame z op_NORMAL ver)]"
    using unpack_data_frames [of "[packed_frame z op_NORMAL ver]" "[]" C "Suc n"] \<open>unreadable []\<close>
      pack_data_InrD [OF assms(1)] by simp
  then show ?thesis
    using nested assms(3,4)
    by (simp add: frame_messages_packed dispatch_packet_def parse_normal_payload_def
        parse_json_def del: unpack_data.simps)
qed

lemma compressed_batch_unpacked_witness:
  "\<exists>b. pack_data [9] (int op_NORMAL) (int ver_ZLIB) = Inr b \<and>
     unpack_data codec_witness 2 b = Inr [[], []]"
proof -
  let ?e = "frame_bytes empty_object_frame"
  define b where "b = frame_bytes (packed_frame [9] op_NORMAL ver_ZLIB)"
  have b: "pack_data [9] (int op_NORMAL) (int ver_ZLIB) = Inr b"
    unfolding pack_data_eq Let_def b_def packed_frame_def by (simp add: frame_fits_def protocol_constants)
  have e: "pack_data [123, 125] (int op_NORMAL) (int ver_PLAIN) = Inr ?e"
    using empty_object_frame_fits by (simp add: pack_data_eq empty_object_frame_def)
  have "length (concat [?e, ?e]) \<noteq> length [123, 125 :: 8 word]"
    by simp
  then have "concat [?e, ?e] \<noteq> [123, 125]" by (metis (no_types))
  then have "loads codec_witness (concat [?e, ?e]) = DecodeError"
    by (simp only: loads_witness if_False)
  moreover have "decompress codec_witness ver_ZLIB [9] = Some (concat [?e, ?e])"
    by (simp add: decompress_def codec_witness_def)
  ultimately have "unpack_data codec_witness (Suc (Suc 0)) b
      = Inr (map snd [([123, 125 :: 8 word], [] :: message), ([123, 125], [])])"
    using b e by (intro compressed_batch_unpacked [of "[9]" ver_ZLIB b codec_witness "[?e, ?e]"])
      (simp_all add: loads_witness)
  with b show ?thesis by (simp add: numeral_2_eq_2)
qed

text \<open>
  The parser never crashes on malformed bytes: if the JSON decoder itself only fails with the
  two exceptions the code catches, then on any input whose compressed packets cannot be inflated
  one activation per 16 bytes of input is enough stack and \<open>unpack_data\<close> returns a list.
\<close>

theorem unpack_data_never_crashes:
  assumes "\<And>p e. loads C p \<noteq> LoadsRaises e" and "length data div 16 < n"
  shows "\<exists>ms. unpack_data (C\<lparr>zlib_decompress := (\<lambda>_. None), brotli_decompress := (\<lambda>_. None)\<rparr>) n data = Inr ms"
  by (rule unpack_data_no_growth) (use assms in \<open>auto simp: decompress_def split: if_splits\<close>)

lemma unpack_data_never_crashes_witness:
  "\<exists>ms. unpack_data (codec_witness\<lparr>zlib_decompress := (\<lambda>_. None), brotli_decompress := (\<lambda>_. None)\<rparr>) 2
     [0, 0, 0, 16, 0, 16, 0, 0, 0, 0, 0, 5, 0, 0, 0, 1] = Inr ms"
  by (rule unpack_data_never_crashes) (simp_all add: codec_witness_def)

end
