(* ===== verification/Bili_Exceptions.thy ===== *)
theory Bili_Exceptions
  imports Py_Prelude
begin

section \<open>Upstream errors and HTTP (\<open>bilibili/exceptions.py\<close>)\<close>

text \<open>
  The exceptions of the business layer, the exceptions a coroutine of the service can raise, and
  the HTTP requests and responses the clients exchange with the upstream. The network and the
  clock are the fields of an \<open>env\<close>, a parameter of every definition that uses them.
\<close>

text \<open>
  The message of an exception: a value the upstream sent, a text of the source, or the default
  text \<open>"Bili error <code>"\<close> for a code without a message.
\<close>

datatype error_text = Upstream json | SourceText string | DefaultText json

datatype bili_error =
    BiliApiError json error_text
  | AuthExpiredError error_text
  | PermissionDeniedError error_text
  | RateLimitedError error_text

fun bili_code :: "bili_error \<Rightarrow> json" where
  "bili_code (BiliApiError code _) = code"
| "bili_code (AuthExpiredError _) = JInt (- 101)"
| "bili_code (PermissionDeniedError _) = JInt (- 403)"
| "bili_code (RateLimitedError _) = JInt (- 509)"

fun bili_message :: "bili_error \<Rightarrow> error_text" where
  "bili_message (BiliApiError _ m) = m"
| "bili_message (AuthExpiredError m) = m"
| "bili_message (PermissionDeniedError m) = m"
| "bili_message (RateLimitedError m) = m"

text \<open>\<open>Httpx\<close> is any transport error.\<close>

datatype exn = Py py_exn | Bili bili_error | Httpx string

record http_request =
  rq_method :: string
  rq_url :: string
  rq_params :: message \<comment> \<open>the values as passed, before their encoding\<close>
  rq_form :: "(string \<times> string) list"
  rq_cookies :: "(string \<times> string) list"

record http_response =
  rs_text :: string
  rs_json :: loads_result \<comment> \<open>\<open>response.json()\<close>; \<open>DecodeError\<close> is \<open>json.JSONDecodeError\<close>\<close>

record 'w env =
  net :: "http_request \<Rightarrow> 'w \<Rightarrow> (exn + http_response) \<times> 'w"
  clock :: "'w \<Rightarrow> rat"

text \<open>Lifting a builtin exception into a coroutine.\<close>

definition py_res :: "py_exn + 'a \<Rightarrow> exn + 'a" where
  "py_res r = map_sum Py id r"

lemma py_res_simps [simp]: "py_res (Inl e) = Inl (Py e)" "py_res (Inr x) = Inr x"
  by (simp_all add: py_res_def)

text \<open>\<open>client._raise_for_business_code\<close>; \<open>None\<close> is a return.\<close>

definition raise_for_business_code :: "json \<Rightarrow> error_text \<Rightarrow> bool \<Rightarrow> bili_error option" where
  "raise_for_business_code code message allow_none =
     (if py_eq_int code 0 then None
      else if allow_none then None
      else if py_eq_int code (- 101) then Some (AuthExpiredError message)
      else if py_eq_int code (- 403) then Some (PermissionDeniedError message)
      else if py_eq_int code (- 509) then Some (RateLimitedError message)
      else Some (BiliApiError code message))"

text \<open>\<open>BilibiliClient._raise_for_code\<close>: \<open>message or f"Bili error {code}"\<close>.\<close>

definition raise_for_code :: "json \<Rightarrow> json \<Rightarrow> bili_error option" where
  "raise_for_code code message =
     raise_for_business_code code (if truthy message then Upstream message else DefaultText code) False"

lemma raise_for_code_None [simp]: "raise_for_code code m = None \<longleftrightarrow> py_eq_int code 0"
  by (simp add: raise_for_code_def raise_for_business_code_def)

lemma raise_for_code_code: "raise_for_code (JInt i) m = Some e \<Longrightarrow> bili_code e = JInt i"
  by (auto simp: raise_for_code_def raise_for_business_code_def split: if_splits)

end
