(* ===== verification/Wbi.thy ===== *)
theory Wbi
  imports Bili_Exceptions "HOL-Library.List_Lexorder" "HOL-Library.Char_ord"
begin

section \<open>Request signing (\<open>bilibili/wbi.py\<close>)\<close>

text \<open>
  \<open>enc_wbi\<close> signs a parameter dictionary with a hash of its canonical query string and the mixin
  key; \<open>WbiSigner\<close> caches the two keys the mixin key is made of. MD5 in hexadecimal is the
  parameter \<open>md5_hex\<close>.
\<close>

subsection \<open>The mixin key\<close>

definition MIXIN_KEY_ENC_TAB :: "nat list" where
  "MIXIN_KEY_ENC_TAB =
     [46, 47, 18, 2, 53, 8, 23, 32, 15, 50, 10, 31, 58, 3, 45, 35,
      27, 43, 5, 49, 33, 9, 42, 19, 29, 28, 14, 39, 12, 38, 41, 13,
      37, 48, 7, 16, 24, 55, 40, 61, 26, 17, 0, 1, 60, 51, 30, 4,
      22, 25, 54, 21, 56, 59, 6, 63, 57, 62, 11, 36, 20, 34, 44, 52]"

text \<open>The join visits the whole table, so a short string raises \<open>IndexError\<close>.\<close>

definition get_mixin_key :: "string \<Rightarrow> py_exn + string" where
  "get_mixin_key orig =
     (if \<forall>i \<in> set MIXIN_KEY_ENC_TAB. i < length orig
      then Inr (take 32 (map (\<lambda>i. orig ! i) MIXIN_KEY_ENC_TAB))
      else Inl IndexError)"

subsection \<open>Query strings\<close>

text \<open>\<open>urllib.parse.quote_plus\<close> on the UTF-8 bytes.\<close>

definition unreserved :: "char \<Rightarrow> bool" where
  "unreserved c \<longleftrightarrow>
     (let n = (of_char c :: nat) in
      (48 \<le> n \<and> n \<le> 57) \<or> (65 \<le> n \<and> n \<le> 90) \<or> (97 \<le> n \<and> n \<le> 122) \<or>
      c \<in> {CHR ''_'', CHR ''.'', CHR ''-'', CHR ''~''})"

definition hex_digit :: "nat \<Rightarrow> char" where
  "hex_digit n = (if n < 10 then char_of (48 + n) else char_of (55 + n))"

definition quote_char :: "char \<Rightarrow> string" where
  "quote_char c =
     (if unreserved c then [c]
      else if c = CHR '' '' then ''+''
      else [CHR ''%'', hex_digit (of_char c div 16), hex_digit (of_char c mod 16)])"

definition quote_plus :: "string \<Rightarrow> string" where
  "quote_plus s = concat (map quote_char s)"

fun join_with :: "string \<Rightarrow> string list \<Rightarrow> string" where
  "join_with sep [] = []"
| "join_with sep [s] = s"
| "join_with sep (s # ss) = s @ sep @ join_with sep ss"

definition urlencode :: "(string \<times> string) list \<Rightarrow> string" where
  "urlencode d = join_with ''&'' (map (\<lambda>(k, v). quote_plus k @ ''='' @ quote_plus v) d)"

subsection \<open>Signing\<close>

definition trunc_rat :: "rat \<Rightarrow> int" where
  "trunc_rat x = (if x < 0 then \<lceil>x\<rceil> else \<lfloor>x\<rfloor>)"

definition strip_forbidden :: "string \<Rightarrow> string" where
  "strip_forbidden s = filter (\<lambda>c. c \<notin> set ''!'' \<union> {CHR 0x27} \<union> set ''()*'') s"

text \<open>The loop over \<open>params.items()\<close> and the timestamp; a None value is left out.\<close>

definition signed_params :: "(string \<times> string option) list \<Rightarrow> rat \<Rightarrow> (string \<times> string) list" where
  "signed_params params now =
     AList.update ''wts'' (str_int (trunc_rat now))
       (dict_update [] (List.map_filter (\<lambda>(k, v). map_option (\<lambda>s. (k, strip_forbidden s)) v) params))"

definition enc_wbi ::
    "(string \<Rightarrow> string) \<Rightarrow> (string \<times> string option) list \<Rightarrow> string \<Rightarrow> string \<Rightarrow> rat
      \<Rightarrow> py_exn + (string \<times> string) list" where
  "enc_wbi md5_hex params img_key sub_key now =
     (let ordered = sort_key fst (signed_params params now);
          query = urlencode ordered
      in case get_mixin_key (img_key @ sub_key) of
           Inl e \<Rightarrow> Inl e
         | Inr mixin_key \<Rightarrow> Inr (AList.update ''w_rid'' (md5_hex (query @ mixin_key)) ordered))"

subsection \<open>The key cache\<close>

record wbi_signer =
  sg_img_key :: "string option"
  sg_sub_key :: "string option"
  sg_last_update :: rat
  sg_refresh_interval :: int

definition new_signer :: "int \<Rightarrow> wbi_signer" where
  "new_signer refresh_interval =
     \<lparr>sg_img_key = None, sg_sub_key = None, sg_last_update = 0, sg_refresh_interval = refresh_interval\<rparr>"

definition is_cache_fresh :: "wbi_signer \<Rightarrow> rat \<Rightarrow> bool" where
  "is_cache_fresh s now \<longleftrightarrow>
     sg_img_key s \<noteq> None \<and> sg_sub_key s \<noteq> None \<and>
     now - sg_last_update s < of_int (sg_refresh_interval s)"

definition fallback_to_cached :: "wbi_signer \<Rightarrow> exn + string \<times> string" where
  "fallback_to_cached s =
     (case (sg_img_key s, sg_sub_key s) of
        (Some i, Some u) \<Rightarrow> Inr (i, u)
      | _ \<Rightarrow> Inl (Py (RuntimeError ''WBI keys unavailable and no cache present'')))"

text \<open>\<open>url.split("/")[-1].split(".")[0]\<close>.\<close>

definition url_stem :: "string \<Rightarrow> string" where
  "url_stem url = before_char (CHR ''.'') (rev (before_char (CHR ''/'') (rev url)))"

definition nav_request :: "(string \<times> string) list \<Rightarrow> http_request" where
  "nav_request cookies =
     \<lparr>rq_method = ''GET'', rq_url = ''https://api.bilibili.com/x/web-interface/nav'', rq_params = [],
      rq_form = [], rq_cookies = cookies\<rparr>"

text \<open>Reading the keys out of the parsed body, up to the assignment of the attributes.\<close>

definition keys_of_nav :: "message \<Rightarrow> py_exn + (string \<times> string) option" where
  "keys_of_nav data =
     (let payload = py_or (jget data ''data'') (JDict []) in
      case attr_get payload ''wbi_img'' of
        Inl e \<Rightarrow> Inl e
      | Inr w \<Rightarrow>
          (let wbi_img = py_or w (JDict []) in
           case (attr_get wbi_img ''img_url'', attr_get wbi_img ''sub_url'') of
             (Inl e, _) \<Rightarrow> Inl e
           | (_, Inl e) \<Rightarrow> Inl e
           | (Inr i, Inr u) \<Rightarrow>
               (case (str_instance i, str_instance u) of
                  (Some img_url, Some sub_url) \<Rightarrow> Inr (Some (url_stem img_url, url_stem sub_url))
                | _ \<Rightarrow> Inr None)))"

definition get_keys ::
    "'w env \<Rightarrow> (string \<times> string) list \<Rightarrow> wbi_signer \<Rightarrow> 'w \<Rightarrow> (exn + string \<times> string) \<times> wbi_signer \<times> 'w" where
  "get_keys E cookies s w =
     (let now = clock E w in
      if is_cache_fresh s now then (Inr (the (sg_img_key s), the (sg_sub_key s)), s, w)
      else case net E (nav_request cookies) w of
        (Inl e, w') \<Rightarrow> (fallback_to_cached s, s, w')
      | (Inr response, w') \<Rightarrow>
          (case rs_json response of
             Loaded (JDict data) \<Rightarrow>
               (case keys_of_nav data of
                  Inl e \<Rightarrow> (Inl (Py e), s, w')
                | Inr None \<Rightarrow>
                    if \<not> py_eq_int (jget data ''code'') 0 then (fallback_to_cached s, s, w')
                    else (Inl (Py (RuntimeError ''WBI nav response missing wbi_img.img_url or wbi_img.sub_url'')), s, w')
                | Inr (Some (img, sub)) \<Rightarrow>
                    (Inr (img, sub),
                     s\<lparr>sg_img_key := Some img, sg_sub_key := Some sub, sg_last_update := now\<rparr>, w'))
           | _ \<Rightarrow> (fallback_to_cached s, s, w')))"

definition sign ::
    "'w env \<Rightarrow> (string \<Rightarrow> string) \<Rightarrow> (string \<times> string) list \<Rightarrow> (string \<times> string option) list
      \<Rightarrow> wbi_signer \<Rightarrow> 'w \<Rightarrow> (exn + (string \<times> string) list) \<times> wbi_signer \<times> 'w" where
  "sign E md5_hex cookies params s w =
     (case get_keys E cookies s w of
        (Inl e, s', w') \<Rightarrow> (Inl e, s', w')
      | (Inr (img, sub), s', w') \<Rightarrow> (py_res (enc_wbi md5_hex params img sub (clock E w')), s', w'))"

subsection \<open>The query string determines the parameters\<close>

lemma hex_digit_eq: "m < 16 \<Longrightarrow> n < 16 \<Longrightarrow> hex_digit m = hex_digit n \<longleftrightarrow> m = n"
  by (auto simp: hex_digit_def split: if_splits dest!: arg_cong [where f = "of_char :: char \<Rightarrow> nat"])

lemma quote_char_prefix_free:
  assumes "quote_char c @ r = quote_char d @ q"
  shows "c = d \<and> r = q"
proof -
  have plain: "\<not> unreserved (CHR ''+'')" "\<not> unreserved (CHR ''%'')"
    by (simp_all add: unreserved_def)
  have same: "c = d" if "(of_char c :: nat) div 16 = of_char d div 16" "(of_char c :: nat) mod 16 = of_char d mod 16"
    using that by (metis div_mult_mod_eq of_char_eq_iff)
  show ?thesis
    using assms plain same
    by (auto simp: quote_char_def hex_digit_eq less_mult_imp_div_less split: if_splits)
qed

lemma quote_char_not_Nil [simp]: "quote_char c \<noteq> []"
  by (simp add: quote_char_def)

lemma quote_plus_inject: "quote_plus s = quote_plus t \<Longrightarrow> s = t"
proof (induction s arbitrary: t)
  case Nil
  then show ?case by (cases t) (simp_all add: quote_plus_def)
next
  case (Cons c s)
  then show ?case
    by (cases t) (auto simp: quote_plus_def dest: quote_char_prefix_free)
qed

lemma hex_digit_safe: "n < 16 \<Longrightarrow> hex_digit n \<noteq> CHR ''&'' \<and> hex_digit n \<noteq> CHR ''=''"
  by (auto simp: hex_digit_def split: if_splits dest!: arg_cong [where f = "of_char :: char \<Rightarrow> nat"])

lemma quote_char_safe: "CHR ''&'' \<notin> set (quote_char d) \<and> CHR ''='' \<notin> set (quote_char d)"
proof -
  have "(of_char d :: nat) div 16 < 16" by (simp add: less_mult_imp_div_less)
  then have "hex_digit (of_char d div 16) \<notin> {CHR ''&'', CHR ''=''}" using hex_digit_safe by blast
  moreover have "hex_digit (of_char d mod 16) \<notin> {CHR ''&'', CHR ''=''}" using hex_digit_safe by simp
  moreover have "\<not> unreserved (CHR ''&'')" and "\<not> unreserved (CHR ''='')"
    by (simp_all add: unreserved_def)
  ultimately show ?thesis by (auto simp: quote_char_def)
qed

lemma quote_plus_safe: "CHR ''&'' \<notin> set (quote_plus s) \<and> CHR ''='' \<notin> set (quote_plus s)"
  using quote_char_safe by (auto simp: quote_plus_def)

lemma separator_unique:
  assumes "x @ c # y = x' @ c # y'" and "c \<notin> set x" and "c \<notin> set x'"
  shows "x = x' \<and> y = y'"
  using assms
proof (induction x arbitrary: x')
  case Nil
  then show ?case by (cases x') simp_all
next
  case (Cons a x)
  then show ?case by (cases x') auto
qed

definition encode_pair :: "string \<times> string \<Rightarrow> string" where
  "encode_pair p = (case p of (k, v) \<Rightarrow> quote_plus k @ ''='' @ quote_plus v)"

lemma encode_pair_inject: "encode_pair p = encode_pair q \<Longrightarrow> p = q"
proof -
  assume eq: "encode_pair p = encode_pair q"
  have safe: "CHR ''='' \<notin> set (quote_plus s)" for s using quote_plus_safe by blast
  have "quote_plus (fst p) = quote_plus (fst q) \<and> quote_plus (snd p) = quote_plus (snd q)"
    using eq by (intro separator_unique [OF _ safe safe]) (simp add: encode_pair_def case_prod_beta)
  then show "p = q" by (auto intro: prod_eqI quote_plus_inject)
qed

lemma encode_pair_no_amp: "CHR ''&'' \<notin> set (encode_pair p)"
  using quote_plus_safe by (cases p) (simp add: encode_pair_def)

lemma encode_pair_not_Nil [simp]: "encode_pair p \<noteq> []" "[] \<noteq> encode_pair p"
  by (cases p, simp add: encode_pair_def)+

lemma join_with_Cons: "ss \<noteq> [] \<Longrightarrow> join_with sep (s # ss) = s @ sep @ join_with sep ss"
  by (cases ss) simp_all

lemma join_amp_inject:
  assumes "join_with ''&'' (map encode_pair d) = join_with ''&'' (map encode_pair e)"
  shows "d = e"
  using assms
proof (induction d arbitrary: e)
  case Nil
  then show ?case by (cases e; cases "tl e") (auto simp: join_with_Cons)
next
  case (Cons p d)
  show ?case
  proof (cases e)
    case Nil
    with Cons.prems show ?thesis by (cases d) simp_all
  next
    case (Cons q e')
    show ?thesis
    proof (cases "d = []")
      case True
      then have "e' = []"
        using Cons.prems Cons encode_pair_no_amp [of p] by (cases "e' = []") (auto simp: join_with_Cons)
      then show ?thesis using True Cons.prems Cons by (auto dest: encode_pair_inject)
    next
      case False
      have "e' \<noteq> []"
      proof
        assume "e' = []"
        with False Cons.prems Cons have "encode_pair q = encode_pair p @ CHR ''&'' # join_with ''&'' (map encode_pair d)"
          by (simp add: join_with_Cons)
        then have "CHR ''&'' \<in> set (encode_pair q)" by simp
        then show False using encode_pair_no_amp by blast
      qed
      with False Cons.prems Cons have
        "encode_pair p @ CHR ''&'' # join_with ''&'' (map encode_pair d)
         = encode_pair q @ CHR ''&'' # join_with ''&'' (map encode_pair e')"
        by (simp add: join_with_Cons)
      then have "encode_pair p = encode_pair q \<and> join_with ''&'' (map encode_pair d) = join_with ''&'' (map encode_pair e')"
        by (rule separator_unique) (rule encode_pair_no_amp)+
      then show ?thesis using Cons Cons.IH by (auto dest: encode_pair_inject)
    qed
  qed
qed

lemma urlencode_eq: "urlencode d = join_with ''&'' (map encode_pair d)"
  unfolding urlencode_def encode_pair_def by (simp add: case_prod_beta')

subsection \<open>The signed parameters as a map\<close>

definition cleaned :: "(string \<times> string option) list \<Rightarrow> (string \<times> string) list" where
  "cleaned params = List.map_filter (\<lambda>(k, v). map_option (\<lambda>s. (k, strip_forbidden s)) v) params"

lemma fst_cleaned: "set (map fst (cleaned params)) \<subseteq> set (map fst params)"
  by (force simp: cleaned_def map_filter_def)

lemma wf_cleaned: "wf_dict params \<Longrightarrow> wf_dict (cleaned params)"
proof (induction params)
  case Nil
  then show ?case by (simp add: cleaned_def map_filter_def)
next
  case (Cons p params)
  obtain k v where p: "p = (k, v)" by force
  have "wf_dict params" and "k \<notin> set (map fst params)"
    using Cons.prems p by (auto simp: wf_dict_def)
  then have "wf_dict (cleaned params)" and "k \<notin> set (map fst (cleaned params))"
    using Cons.IH fst_cleaned by blast+
  then show ?case
    by (cases v) (simp_all add: p cleaned_def map_filter_simps wf_dict_def)
qed

lemma map_of_cleaned:
  "wf_dict params \<Longrightarrow> map_of (cleaned params) k = map_option strip_forbidden (Option.bind (map_of params k) id)"
proof (induction params)
  case Nil
  then show ?case by (simp add: cleaned_def map_filter_def)
next
  case (Cons p params)
  obtain k' v where p: "p = (k', v)" by force
  have wf: "wf_dict params" and fresh: "k' \<notin> set (map fst params)"
    using Cons.prems p by (auto simp: wf_dict_def)
  have "map_of (cleaned params) k' = None"
    using fst_cleaned [of params] fresh by (auto simp: map_of_eq_None_iff)
  then show ?case
    using Cons.IH [OF wf] by (cases v) (auto simp: p cleaned_def map_filter_simps)
qed

lemma map_of_signed_params:
  assumes "wf_dict params"
  shows "map_of (signed_params params now) = (\<lambda>k. if k = ''wts'' then Some (str_int (trunc_rat now))
    else map_option strip_forbidden (Option.bind (map_of params k) id))"
  using map_of_cleaned [OF assms] map_of_rev [OF wf_cleaned [OF assms]]
  by (auto simp: signed_params_def map_of_dict_update fun_eq_iff simp flip: cleaned_def)

lemma wf_signed_params: "wf_dict (signed_params params now)"
  by (simp add: signed_params_def wf_dict_update_fold)

lemma wf_dict_sort_key [simp]: "wf_dict (sort_key f d) = wf_dict d"
  by (rule wf_dict_mset) simp

lemma sort_key_unique:
  fixes d e :: "(string \<times> string) list"
  assumes "wf_dict d" and "wf_dict e" and "map_of d = map_of e"
  shows "sort_key fst d = sort_key fst e"
proof (rule map_sorted_distinct_set_unique [where f = fst])
  have "set d = set e" using assms by (simp add: set_of_map)
  then show "set (sort_key fst d) = set (sort_key fst e)" by simp
  show "inj_on fst (set (sort_key fst d) \<union> set (sort_key fst e))"
    using assms \<open>set d = set e\<close> by (simp add: wf_dict_def distinct_map)
qed (use assms in \<open>simp_all flip: wf_dict_def\<close>)

lemma map_of_sort_key: "wf_dict d \<Longrightarrow> map_of (sort_key fst d) = map_of (d :: (string \<times> string) list)"
  by (rule map_of_set_eq) simp_all

lemma length_mixin_key: "get_mixin_key s = Inr k \<Longrightarrow> length k = 32"
  by (auto simp: get_mixin_key_def MIXIN_KEY_ENC_TAB_def split: if_splits)

lemma MIXIN_KEY_ENC_TAB_permutation: "set MIXIN_KEY_ENC_TAB = {0..<64} \<and> distinct MIXIN_KEY_ENC_TAB"
proof -
  have "sort MIXIN_KEY_ENC_TAB = [0..<64]" by (simp add: MIXIN_KEY_ENC_TAB_def upt_rec)
  then show ?thesis by (metis atLeastLessThan_upt distinct_sort distinct_upt set_sort)
qed

lemma get_mixin_key_defined: "(\<exists>k. get_mixin_key s = Inr k) \<longleftrightarrow> 64 \<le> length s"
  using MIXIN_KEY_ENC_TAB_permutation by (auto simp: get_mixin_key_def)

lemma enc_wbi_InrD:
  assumes "enc_wbi md5_hex params img sub now = Inr d" and "wf_dict params" and "''w_rid'' \<notin> set (map fst params)"
  obtains mixin ordered where "get_mixin_key (img @ sub) = Inr mixin"
    and "ordered = sort_key fst (signed_params params now)"
    and "d = ordered @ [(''w_rid'', md5_hex (urlencode ordered @ mixin))]"
    and "map_of ordered = (\<lambda>k. if k = ''wts'' then Some (str_int (trunc_rat now))
      else map_option strip_forbidden (Option.bind (map_of params k) id))"
    and "map_of ordered ''w_rid'' = None"
proof -
  let ?o = "sort_key fst (signed_params params now)"
  obtain mixin where mixin: "get_mixin_key (img @ sub) = Inr mixin"
    and d: "d = AList.update ''w_rid'' (md5_hex (urlencode ?o @ mixin)) ?o"
    using assms(1) by (auto simp: enc_wbi_def Let_def split: sum.splits)
  have map: "map_of ?o = (\<lambda>k. if k = ''wts'' then Some (str_int (trunc_rat now))
      else map_option strip_forbidden (Option.bind (map_of params k) id))"
    using map_of_signed_params [OF assms(2)] wf_signed_params by (simp add: map_of_sort_key)
  have "map_of params ''w_rid'' = None" using assms(3) by (auto simp: map_of_eq_None_iff)
  then have none: "map_of ?o ''w_rid'' = None" by (simp add: map)
  then have "''w_rid'' \<notin> set (map fst ?o)" by (auto simp: map_of_eq_None_iff)
  then have "d = ?o @ [(''w_rid'', md5_hex (urlencode ?o @ mixin))]"
    unfolding d by (rule AList_update_fresh)
  with mixin map none that show ?thesis by blast
qed

lemma get_keys_fresh:
  "is_cache_fresh s (clock E w) \<Longrightarrow> get_keys E cookies s w = (Inr (the (sg_img_key s), the (sg_sub_key s)), s, w)"
  by (simp add: get_keys_def)

lemma get_keys_cases:
  assumes "get_keys E cookies s w = (r, s', w')"
  obtains "s' = s"
  | img sub where "r = Inr (img, sub)"
      "s' = s\<lparr>sg_img_key := Some img, sg_sub_key := Some sub, sg_last_update := clock E w\<rparr>"
  using assms unfolding get_keys_def Let_def
  by (simp split: if_splits prod.splits sum.splits option.splits loads_result.splits json.splits) blast+

lemma get_keys_request_fails:
  assumes "get_keys E cookies s w = (r, s', w')" and "fst (net E (nav_request cookies) w) = Inl e"
    and "sg_img_key s = Some img" and "sg_sub_key s = Some sub"
  shows "r = Inr (img, sub) \<and> s' = s"
  using assms unfolding get_keys_def Let_def fallback_to_cached_def
  by (cases "net E (nav_request cookies) w") (simp split: if_splits)

subsection \<open>What signing promises\<close>



text \<open>
  The signature does not depend on the order in which the caller lists the parameters.
\<close>

theorem enc_wbi_order_independent:
  assumes "wf_dict params" and "wf_dict params'" and "set params = set params'"
  shows "enc_wbi md5_hex params img sub now = enc_wbi md5_hex params' img sub now"
proof -
  have "map_of params = map_of params'" using assms by (rule map_of_set_eq)
  then have "map_of (signed_params params now) = map_of (signed_params params' now)"
    by (simp only: map_of_signed_params [OF assms(1)] map_of_signed_params [OF assms(2)])
  then have "sort_key fst (signed_params params now) = sort_key fst (signed_params params' now)"
    using wf_signed_params by (intro sort_key_unique)
  then show ?thesis by (simp add: enc_wbi_def)
qed

lemma enc_wbi_order_independent_witness:
  "enc_wbi id [(''id'', Some ''6''), (''type'', Some ''0'')] ''img'' ''sub'' 100
   = enc_wbi id [(''type'', Some ''0''), (''id'', Some ''6'')] ''img'' ''sub'' 100"
  by (rule enc_wbi_order_independent) (auto simp: wf_dict_def)

text \<open>
  The text that is hashed determines every signed parameter: with the same keys, two requests
  whose hashed texts coincide carry the same parameters and timestamp, so no parameter can be
  changed, added or dropped, and no separator smuggled in, without changing the signed text.
\<close>

theorem enc_wbi_covers_every_parameter:
  assumes "enc_wbi (\<lambda>text. text) params img sub now = Inr d"
    and "enc_wbi (\<lambda>text. text) params' img sub now' = Inr d'"
    and "wf_dict params" and "wf_dict params'"
    and "''w_rid'' \<notin> set (map fst params)" and "''w_rid'' \<notin> set (map fst params')"
    and "map_of d ''w_rid'' = map_of d' ''w_rid''"
  shows "d = d'"
proof -
  obtain mixin ordered where 1: "get_mixin_key (img @ sub) = Inr mixin"
      "d = ordered @ [(''w_rid'', urlencode ordered @ mixin)]" and "map_of ordered ''w_rid'' = None"
    by (rule enc_wbi_InrD [OF assms(1,3,5)])
  obtain mixin' ordered' where 2: "get_mixin_key (img @ sub) = Inr mixin'"
      "d' = ordered' @ [(''w_rid'', urlencode ordered' @ mixin')]" and "map_of ordered' ''w_rid'' = None"
    by (rule enc_wbi_InrD [OF assms(2,4,6)])
  have "urlencode ordered = urlencode ordered'"
    using assms(7) 1 2 \<open>map_of ordered ''w_rid'' = None\<close> \<open>map_of ordered' ''w_rid'' = None\<close>
    by (simp add: map_add_def)
  then have "ordered = ordered'"
    by (simp add: urlencode_eq join_amp_inject)
  with 1 2 show ?thesis by simp
qed

lemma enc_wbi_covers_every_parameter_witness:
  "\<exists>d. enc_wbi (\<lambda>text. text) [(''id'', Some ''6'')] (replicate 32 CHR ''a'') (replicate 32 CHR ''b'') 100 = Inr d \<and> d = d"
proof -
  let ?a = "replicate 32 CHR ''a''" and ?b = "replicate 32 CHR ''b''"
  have "\<exists>k. get_mixin_key (?a @ ?b) = Inr k" by (simp add: get_mixin_key_defined)
  then obtain d where d: "enc_wbi (\<lambda>text. text) [(''id'', Some ''6'')] ?a ?b 100 = Inr d"
    by (auto simp: enc_wbi_def Let_def)
  have "d = d"
    by (rule enc_wbi_covers_every_parameter [OF d d]) (simp_all add: wf_dict_def)
  with d show ?thesis by blast
qed

text \<open>
  Within the refresh interval the keys are fetched once: after a successful \<open>get_keys\<close>, a call
  that reads a clock less than the interval later returns the same keys and makes no request. A
  call that fails leaves the cache as it was, and with keys in the cache a failed request or an
  answer without keys and a non-zero code falls back to them.
\<close>

theorem get_keys_caches:
  assumes "get_keys E cookies s w = (r, s', w')"
  shows "(\<forall>e. r = Inl e \<longrightarrow> s' = s) \<and>
    (\<forall>keys v. r = Inr keys \<and> s' \<noteq> s \<and> clock E v - clock E w < of_int (sg_refresh_interval s) \<longrightarrow>
       get_keys E cookies s' v = (Inr keys, s', v)) \<and>
    (\<forall>e img sub. fst (net E (nav_request cookies) w) = Inl e \<and> sg_img_key s = Some img \<and> sg_sub_key s = Some sub \<longrightarrow>
       r = Inr (img, sub) \<and> s' = s)"
proof -
  have unchanged: "\<forall>e. r = Inl e \<longrightarrow> s' = s"
    using assms by (auto elim: get_keys_cases)
  have cached: "get_keys E cookies s' v = (Inr keys, s', v)"
    if "r = Inr keys" and changed: "s' \<noteq> s" and "clock E v - clock E w < of_int (sg_refresh_interval s)" for keys v
  proof -
    obtain img sub where "r = Inr (img, sub)"
      and s': "s' = s\<lparr>sg_img_key := Some img, sg_sub_key := Some sub, sg_last_update := clock E w\<rparr>"
      using assms changed by (auto elim: get_keys_cases)
    with that show ?thesis by (simp add: get_keys_fresh is_cache_fresh_def)
  qed
  show ?thesis
    using unchanged cached get_keys_request_fails [OF assms] by blast
qed

lemma get_keys_caches_witness:
  "\<exists>r. get_keys \<lparr>net = (\<lambda>rq w. (Inl (Httpx ''down''), w)), clock = (\<lambda>w. w)\<rparr> []
       \<lparr>sg_img_key = Some ''i'', sg_sub_key = Some ''u'', sg_last_update = 0, sg_refresh_interval = 3600\<rparr> 7200 = r \<and>
     fst r = Inr (''i'', ''u'')"
proof -
  let ?E = "\<lparr>net = (\<lambda>rq w. (Inl (Httpx ''down''), w)), clock = (\<lambda>w. w)\<rparr> :: rat env"
  let ?s = "\<lparr>sg_img_key = Some ''i'', sg_sub_key = Some ''u'', sg_last_update = 0, sg_refresh_interval = 3600\<rparr>"
  obtain r s' w' where g: "get_keys ?E [] ?s 7200 = (r, s', w')" by (metis prod_cases3)
  from get_keys_caches [OF g] have "r = Inr (''i'', ''u'')" by simp
  with g show ?thesis by simp
qed

end
