(* ===== verification/Bili_Client.thy ===== *)
theory Bili_Client
  imports Wbi
begin

section \<open>The upstream HTTP client (\<open>bilibili/client.py\<close>)\<close>

text \<open>
  Every method is a coroutine over the client's own state and the world, with the network, the
  clock and MD5 as parameters. A method that raises returns the exception with the state and the
  world it leaves behind. Headers and log records are left out. A sequence of requests is made
  without interference from other tasks on the state of the client.
\<close>

subsection \<open>State and requests\<close>

record bili_client =
  cl_jar :: "(string \<times> string) list" \<comment> \<open>the cookies of the \<open>httpx\<close> client\<close>
  cl_csrf_token :: string
  cl_cookies :: "(string \<times> string) list" \<comment> \<open>the mirror of the credential cookies\<close>
  cl_signer :: wbi_signer

type_synonym ('w, 'a) client_io = "(bili_client \<times> 'w, exn, 'a) io"

definition new_client :: "(string \<times> string) list \<Rightarrow> string \<Rightarrow> wbi_signer \<Rightarrow> bili_client" where
  "new_client cookies csrf signer =
     \<lparr>cl_jar = cookies, cl_csrf_token = csrf, cl_cookies = cookies, cl_signer = signer\<rparr>"

definition get_cookie :: "bili_client \<Rightarrow> string \<Rightarrow> string option" where
  "get_cookie c name =
     (case map_of (cl_cookies c) name of None \<Rightarrow> None | Some v \<Rightarrow> if v = [] then None else Some v)"

definition update_cookies :: "bili_client \<Rightarrow> (string \<times> string) list \<Rightarrow> bili_client" where
  "update_cookies c cookies =
     (let c' = c\<lparr>cl_jar := dict_update (cl_jar c) cookies, cl_cookies := dict_update (cl_cookies c) cookies\<rparr>
      in case map_of cookies ''bili_jct'' of
           Some csrf \<Rightarrow> if csrf \<noteq> [] then c'\<lparr>cl_csrf_token := csrf\<rparr> else c'
         | None \<Rightarrow> c')"

definition http_call :: "'w env \<Rightarrow> http_request \<Rightarrow> ('w, http_response) client_io" where
  "http_call E rq =
     (\<lambda>(c, w). case net E (rq\<lparr>rq_cookies := cl_jar c\<rparr>) w of (r, w') \<Rightarrow> (r, (c, w')))"

definition LIVE_BASE_URL :: string where
  "LIVE_BASE_URL = ''https://api.live.bilibili.com''"

definition http_get :: "'w env \<Rightarrow> string \<Rightarrow> message \<Rightarrow> ('w, http_response) client_io" where
  "http_get E url params =
     http_call E \<lparr>rq_method = ''GET'', rq_url = url, rq_params = params, rq_form = [], rq_cookies = []\<rparr>"

definition http_post :: "'w env \<Rightarrow> string \<Rightarrow> (string \<times> string) list \<Rightarrow> ('w, http_response) client_io" where
  "http_post E url form =
     http_call E \<lparr>rq_method = ''POST'', rq_url = url, rq_params = [], rq_form = form, rq_cookies = []\<rparr>"

definition parse_body :: "http_response \<Rightarrow> exn + message" where
  "parse_body response =
     (case rs_json response of
        DecodeError \<Rightarrow> Inl (Bili (BiliApiError (JInt (- 1)) (SourceText ''invalid JSON body'')))
      | LoadsRaises e \<Rightarrow> Inl (Py e)
      | Loaded (JDict d) \<Rightarrow> Inr d
      | Loaded _ \<Rightarrow> Inl (Bili (BiliApiError (JInt (- 1)) (SourceText ''response body is not an object''))))"

definition body_code :: "message \<Rightarrow> json" where
  "body_code body = jget_default body ''code'' (JInt (- 1))"

definition extract_data_or_none :: "message \<Rightarrow> message option" where
  "extract_data_or_none body =
     (if \<not> py_eq_int (body_code body) 0 then None else dict_instance (jget body ''data''))"

definition sign_params ::
    "'w env \<Rightarrow> (string \<Rightarrow> string) \<Rightarrow> (string \<times> string) list \<Rightarrow> ('w, message) client_io" where
  "sign_params E md5_hex params =
     (\<lambda>(c, w). case sign E md5_hex (cl_jar c) (map (\<lambda>(k, v). (k, Some v)) params) (cl_signer c) w of
        (r, s', w') \<Rightarrow> (map_sum id (map (\<lambda>(k, v). (k, JStr v))) r, (c\<lparr>cl_signer := s'\<rparr>, w')))"

text \<open>\<open>self._signer.last_update = 0.0\<close>.\<close>

definition expire_keys :: "('w, unit) client_io" where
  "expire_keys = (\<lambda>(c, w). (Inr (), (c\<lparr>cl_signer := (cl_signer c)\<lparr>sg_last_update := 0\<rparr>\<rparr>, w)))"

subsection \<open>Read endpoints\<close>

text \<open>\<open>_positive_int\<close> raises \<open>ValueError\<close> only on a decimal string of more than 4300 digits.\<close>

fun positive_int :: "json \<Rightarrow> py_exn + int option" where
  "positive_int (JBool b) = Inr None"
| "positive_int (JInt i) = Inr (if 0 < i then Some i else None)"
| "positive_int (JStr s) =
     (if all_digits s then
        (case py_int s of None \<Rightarrow> Inl ValueError | Some n \<Rightarrow> Inr (if 0 < n then Some n else None))
      else Inr None)"
| "positive_int _ = Inr None"

definition get_user_info :: "'w env \<Rightarrow> ('w, message option) client_io" where
  "get_user_info E =
     bind_io (http_get E ''https://api.bilibili.com/x/web-interface/nav'' []) (\<lambda>response.
     bind_io (lift_res (parse_body response)) (\<lambda>body.
     return_io (if \<not> py_eq_int (body_code body) 0 then None else dict_instance (jget body ''data''))))"

definition get_data :: "'w env \<Rightarrow> string \<Rightarrow> message \<Rightarrow> ('w, message option) client_io" where
  "get_data E path params =
     bind_io (http_get E (LIVE_BASE_URL @ path) params) (\<lambda>response.
     bind_io (lift_res (parse_body response)) (\<lambda>body.
     return_io (extract_data_or_none body)))"

definition get_room_init :: "'w env \<Rightarrow> json \<Rightarrow> ('w, message option) client_io" where
  "get_room_init E room_id = get_data E ''/room/v1/Room/room_init'' [(''id'', room_id)]"

definition get_room_info :: "'w env \<Rightarrow> json \<Rightarrow> ('w, message option) client_io" where
  "get_room_info E room_id = get_data E ''/room/v1/Room/get_info'' [(''room_id'', room_id)]"

definition get_anchor_info :: "'w env \<Rightarrow> json \<Rightarrow> ('w, message option) client_io" where
  "get_anchor_info E uid =
     bind_io (get_data E ''/live_user/v1/Master/info'' [(''uid'', uid)]) (\<lambda>data.
     return_io (case data of None \<Rightarrow> None | Some d \<Rightarrow> dict_instance (jget d ''info'')))"

text \<open>The loop over the rows of one page of administrators.\<close>

fun rows_contain :: "json list \<Rightarrow> int \<Rightarrow> py_exn + bool" where
  "rows_contain [] uid = Inr False"
| "rows_contain (JDict row # rows) uid =
     (case positive_int (jget row ''uid'') of
        Inl e \<Rightarrow> Inl e
      | Inr n \<Rightarrow> if n = Some uid then Inr True else rows_contain rows uid)"
| "rows_contain (_ # rows) uid = rows_contain rows uid"

definition ROOM_ADMIN_MAX_PAGES :: nat where "ROOM_ADMIN_MAX_PAGES = 100"
definition BAN_LIST_MAX_PAGES :: nat where "BAN_LIST_MAX_PAGES = 100"

text \<open>
  What one page says: the answer of the whole method, or that the next page is needed.
\<close>

datatype 'a page_step = Answer 'a | NextPage

definition admin_page :: "message \<Rightarrow> int \<Rightarrow> nat \<Rightarrow> py_exn + bool option page_step" where
  "admin_page body uid page_number =
     (if \<not> py_eq_int (body_code body) 0 then Inr (Answer None)
      else case jget body ''data'' of
        JDict data \<Rightarrow>
          (case jget_default data ''data'' (jget data ''list'') of
             JList rows \<Rightarrow>
               (case rows_contain rows uid of
                  Inl e \<Rightarrow> Inl e
                | Inr found \<Rightarrow>
                    if found then Inr (Answer (Some True))
                    else (case (case jget data ''page'' of
                             JDict page_info \<Rightarrow> positive_int (jget page_info ''total_page'')
                           | _ \<Rightarrow> Inr None) of
                       Inl e \<Rightarrow> Inl e
                     | Inr total_pages \<Rightarrow>
                         if total_pages \<noteq> None \<and> int page_number \<ge> the total_pages then Inr (Answer (Some False))
                         else if rows = [] then Inr (Answer (Some False))
                         else Inr NextPage))
           | _ \<Rightarrow> Inr (Answer None))
      | _ \<Rightarrow> Inr (Answer None))"

fun admin_pages :: "'w env \<Rightarrow> int \<Rightarrow> int \<Rightarrow> nat list \<Rightarrow> ('w, bool option) client_io" where
  "admin_pages E room_id uid [] = return_io None"
| "admin_pages E room_id uid (page_number # pages) =
     bind_io (http_get E (LIVE_BASE_URL @ ''/xlive/web-room/v1/roomAdmin/get_by_room'')
                [(''roomid'', JStr (str_int room_id)), (''page'', JStr (str_nat page_number))]) (\<lambda>response.
     bind_io (lift_res (parse_body response)) (\<lambda>body.
     bind_io (lift_res (py_res (admin_page body uid page_number))) (\<lambda>step.
     case step of Answer a \<Rightarrow> return_io a | NextPage \<Rightarrow> admin_pages E room_id uid pages)))"

definition is_room_admin :: "'w env \<Rightarrow> int \<Rightarrow> int \<Rightarrow> ('w, bool option) client_io" where
  "is_room_admin E room_id uid = admin_pages E room_id uid [1 ..< ROOM_ADMIN_MAX_PAGES + 1]"

datatype room_user_role = Anchor | Admin | Viewer | UnknownRole

definition opt_uid :: "message option \<Rightarrow> string \<Rightarrow> exn + int option" where
  "opt_uid info k = (case info of None \<Rightarrow> Inr None | Some d \<Rightarrow> py_res (positive_int (jget d k)))"

definition get_room_user_role :: "'w env \<Rightarrow> int \<Rightarrow> ('w, room_user_role) client_io" where
  "get_room_user_role E room_id =
     bind_io (get_user_info E) (\<lambda>user_info.
     bind_io (lift_res (opt_uid user_info ''mid'')) (\<lambda>current.
     case current of
       None \<Rightarrow> return_io UnknownRole
     | Some current_uid \<Rightarrow>
         bind_io (get_room_init E (JInt room_id)) (\<lambda>room_init.
         bind_io (lift_res (opt_uid room_init ''uid'')) (\<lambda>anchor.
         case anchor of
           None \<Rightarrow> return_io UnknownRole
         | Some anchor_uid \<Rightarrow>
             if current_uid = anchor_uid then return_io Anchor
             else bind_io (is_room_admin E room_id current_uid) (\<lambda>is_admin.
               return_io (case is_admin of
                   None \<Rightarrow> UnknownRole
                 | Some b \<Rightarrow> if b then Admin else Viewer))))))"

text \<open>The two attempts of \<open>get_active_super_chats\<close>; None is the early return of an empty list.\<close>

fun super_chat_attempts ::
    "'w env \<Rightarrow> (string \<Rightarrow> string) \<Rightarrow> (string \<times> string) list \<Rightarrow> nat list \<Rightarrow> message
      \<Rightarrow> ('w, message option) client_io" where
  "super_chat_attempts E md5_hex params [] body = return_io (Some body)"
| "super_chat_attempts E md5_hex params (attempt # attempts) body0 =
     bind_io (sign_params E md5_hex params) (\<lambda>signed.
     bind_io (http_get E (LIVE_BASE_URL @ ''/xlive/web-room/v1/index/getInfoByRoom'') signed) (\<lambda>response.
     bind_io (lift_res (parse_body response)) (\<lambda>body.
     if py_eq_int (body_code body) 0 then return_io (Some body)
     else if py_eq_int (body_code body) (- 352) \<and> attempt = 0 then
       bind_io expire_keys (\<lambda>_. super_chat_attempts E md5_hex params attempts body)
     else return_io None)))"

definition dict_rows :: "json list \<Rightarrow> message list" where
  "dict_rows rows = List.map_filter dict_instance rows"

definition super_chat_rows :: "message \<Rightarrow> message list" where
  "super_chat_rows body =
     (case extract_data_or_none body of
        None \<Rightarrow> []
      | Some data \<Rightarrow>
          (case jget data ''super_chat_info'' of
             JDict info \<Rightarrow>
               (case jget info ''message_list'' of JList rows \<Rightarrow> dict_rows rows | _ \<Rightarrow> [])
           | _ \<Rightarrow> []))"

definition get_active_super_chats ::
    "'w env \<Rightarrow> (string \<Rightarrow> string) \<Rightarrow> int \<Rightarrow> ('w, message list) client_io" where
  "get_active_super_chats E md5_hex room_id =
     bind_io (super_chat_attempts E md5_hex [(''room_id'', str_int room_id)] [0, 1] []) (\<lambda>body.
     return_io (case body of None \<Rightarrow> [] | Some b \<Rightarrow> super_chat_rows b))"

subsection \<open>Resolving a room id\<close>

text \<open>\<open>uid\<close>: the one of \<open>room_init\<close> when it is an int, else the one of \<open>get_info\<close>.\<close>

definition pick_uid :: "message option \<Rightarrow> message \<Rightarrow> json" where
  "pick_uid init info =
     (let uid = (case init of None \<Rightarrow> JNull | Some i \<Rightarrow> jget i ''uid'')
      in if int_instance uid = None then jget info ''uid'' else uid)"

definition anchor_name :: "'w env \<Rightarrow> json \<Rightarrow> ('w, json) client_io" where
  "anchor_name E uid =
     (case int_instance uid of
        Some n \<Rightarrow>
          if 0 < n then
            bind_io (get_anchor_info E uid) (\<lambda>a. return_io
              (case a of None \<Rightarrow> JStr [] | Some d \<Rightarrow> jget_default d ''uname'' (JStr [])))
          else return_io (JStr [])
      | None \<Rightarrow> return_io (JStr []))"

definition str_or_empty :: "json \<Rightarrow> json" where
  "str_or_empty v = (case v of JStr s \<Rightarrow> JStr s | _ \<Rightarrow> JStr [])"

definition pick_uname :: "'w env \<Rightarrow> json \<Rightarrow> message \<Rightarrow> ('w, json) client_io" where
  "pick_uname E uid info =
     (case jget info ''uname'' of
        JStr s \<Rightarrow> if py_strip s \<noteq> [] then return_io (JStr s) else anchor_name E uid
      | _ \<Rightarrow> anchor_name E uid)"

definition opt_get_default :: "message option \<Rightarrow> string \<Rightarrow> json \<Rightarrow> json" where
  "opt_get_default d k v = (case d of None \<Rightarrow> v | Some m \<Rightarrow> jget_default m k v)"

text \<open>The second half of \<open>resolve_room_id\<close>: the input is taken as a short id.\<close>

definition resolve_short_id :: "'w env \<Rightarrow> int \<Rightarrow> ('w, message option) client_io" where
  "resolve_short_id E input_id =
     bind_io (get_room_init E (JInt input_id)) (\<lambda>init0.
     case init0 of
       None \<Rightarrow> return_io None
     | Some init \<Rightarrow>
         if \<not> truthy (jget init ''room_id'') then return_io None
         else bind_io (get_room_info E (jget init ''room_id'')) (\<lambda>full_info.
           case full_info of
             Some (kv # info') \<Rightarrow>
               (let info = kv # info'; uid = pick_uid init0 info in
                bind_io (pick_uname E uid info) (\<lambda>uname.
                return_io (Some (dict_update info
                  [(''uid'', uid), (''short_id'', jget_default init ''short_id'' (JInt 0)),
                   (''uname'', str_or_empty uname), (''is_short_id'', JBool True),
                   (''input_id'', JInt input_id)]))))
           | _ \<Rightarrow> return_io (Some
               [(''room_id'', jget init ''room_id''), (''uid'', jget init ''uid''),
                (''short_id'', jget_default init ''short_id'' (JInt 0)),
                (''live_status'', jget_default init ''live_status'' (JInt 0)),
                (''is_short_id'', JBool True), (''input_id'', JInt input_id), (''uname'', JStr [])])))"

definition resolve_room_id :: "'w env \<Rightarrow> int \<Rightarrow> ('w, message option) client_io" where
  "resolve_room_id E input_id =
     bind_io (get_room_info E (JInt input_id)) (\<lambda>room_info.
     case room_info of
       Some info \<Rightarrow>
         if truthy (jget info ''room_id'') then
           bind_io (get_room_init E (JInt input_id)) (\<lambda>init.
           let uid = pick_uid init info in
           bind_io (pick_uname E uid info) (\<lambda>uname.
           return_io (Some (dict_update info
             [(''uid'', uid), (''short_id'', opt_get_default init ''short_id'' (JInt 0)),
              (''uname'', str_or_empty uname), (''is_short_id'', JBool False)]))))
         else resolve_short_id E input_id
     | None \<Rightarrow> resolve_short_id E input_id)"

subsection \<open>The signed endpoint\<close>

definition danmu_info_once :: "'w env \<Rightarrow> (string \<Rightarrow> string) \<Rightarrow> int \<Rightarrow> ('w, message) client_io" where
  "danmu_info_once E md5_hex room_id =
     bind_io (sign_params E md5_hex [(''id'', str_int room_id), (''type'', ''0'')]) (\<lambda>signed.
     bind_io (http_get E (LIVE_BASE_URL @ ''/xlive/web-room/v1/index/getDanmuInfo'') signed) (\<lambda>response.
     lift_res (parse_body response)))"

text \<open>The data of a body whose code is 0.\<close>

definition danmu_data :: "message \<Rightarrow> string \<Rightarrow> exn + message" where
  "danmu_data body missing =
     (case dict_instance (jget body ''data'') of
        None \<Rightarrow> Inl (Bili (BiliApiError (JInt 0) (SourceText missing)))
      | Some d \<Rightarrow> Inr d)"

definition get_danmu_info :: "'w env \<Rightarrow> (string \<Rightarrow> string) \<Rightarrow> int \<Rightarrow> ('w, message) client_io" where
  "get_danmu_info E md5_hex room_id =
     bind_io (danmu_info_once E md5_hex room_id) (\<lambda>body.
     if py_eq_int (body_code body) 0 then lift_res (danmu_data body ''getDanmuInfo: missing data'')
     else
       bind_io
         (if \<not> py_eq_int (body_code body) (- 352) then
            (case raise_for_code (body_code body) (jget body ''message'') of
               Some e \<Rightarrow> raise_io (Bili e) | None \<Rightarrow> return_io ())
          else return_io ()) (\<lambda>_.
       bind_io expire_keys (\<lambda>_.
       bind_io (danmu_info_once E md5_hex room_id) (\<lambda>body'.
       if py_eq_int (body_code body') 0 then
         lift_res (danmu_data body' ''getDanmuInfo: missing data after retry'')
       else
         (case raise_for_code (body_code body') (jget body' ''message'') of
            Some e \<Rightarrow> raise_io (Bili e)
          | None \<Rightarrow> raise_io (Py AssertionError))))))"

subsection \<open>Write endpoints\<close>

definition ban_form :: "bili_client \<Rightarrow> int \<Rightarrow> int \<Rightarrow> int \<Rightarrow> (string \<times> string) list" where
  "ban_form c room_id uid hour =
     [(''room_id'', str_int room_id), (''tuid'', str_int uid), (''mobile_app'', ''web''),
      (''type'', if hour = 0 then ''2'' else ''1''), (''hour'', str_int hour),
      (''csrf_token'', cl_csrf_token c), (''csrf'', cl_csrf_token c)]"

text \<open>What both write methods do with the response.\<close>

definition write_result :: "http_response \<Rightarrow> exn + bool" where
  "write_result response =
     (case parse_body response of
        Inl e \<Rightarrow> Inl e
      | Inr body \<Rightarrow>
          if py_eq_int (body_code body) 0 then Inr True
          else (case raise_for_code (body_code body) (jget body ''message'') of
                  Some e \<Rightarrow> Inl (Bili e) | None \<Rightarrow> Inr False))"

definition ban_user :: "'w env \<Rightarrow> int \<Rightarrow> int \<Rightarrow> int \<Rightarrow> ('w, bool) client_io" where
  "ban_user E room_id uid hour = (\<lambda>(c, w).
     bind_io (http_post E (LIVE_BASE_URL @ ''/xlive/web-ucenter/v1/banned/AddSilentUser'')
                (ban_form c room_id uid hour)) (\<lambda>response.
     lift_res (write_result response)) (c, w))"

definition unban_form :: "bili_client \<Rightarrow> int \<Rightarrow> int \<Rightarrow> (string \<times> string) list" where
  "unban_form c room_id block_id =
     [(''roomid'', str_int room_id), (''id'', str_int block_id),
      (''csrf_token'', cl_csrf_token c), (''csrf'', cl_csrf_token c), (''visit_id'', [])]"

definition unban_user :: "'w env \<Rightarrow> int \<Rightarrow> int \<Rightarrow> ('w, bool) client_io" where
  "unban_user E room_id block_id = (\<lambda>(c, w).
     bind_io (http_post E (LIVE_BASE_URL @ ''/banned_service/v1/Silent/del_room_block_user'')
                (unban_form c room_id block_id)) (\<lambda>response.
     lift_res (write_result response)) (c, w))"

subsection \<open>The paginated ban list\<close>

definition ban_list_form :: "bili_client \<Rightarrow> int \<Rightarrow> nat \<Rightarrow> (string \<times> string) list" where
  "ban_list_form c room_id page =
     [(''room_id'', str_int room_id), (''ps'', str_nat page), (''csrf'', cl_csrf_token c),
      (''csrf_token'', cl_csrf_token c), (''visit_id'', [])]"

text \<open>\<open>n >= x\<close> for an \<open>int\<close> and a JSON value.\<close>

fun int_ge :: "int \<Rightarrow> json \<Rightarrow> py_exn + bool" where
  "int_ge n (JInt i) = Inr (n \<ge> i)"
| "int_ge n (JBool b) = Inr (n \<ge> (if b then 1 else 0))"
| "int_ge n (JFloat (FFin m e)) = Inr (if 0 \<le> e then n \<ge> m * 2 ^ nat e else n * 2 ^ nat (- e) \<ge> m)"
| "int_ge n (JFloat (FInf neg)) = Inr neg"
| "int_ge n (JFloat FNaN) = Inr False"
| "int_ge n _ = Inl TypeError"

text \<open>What \<open>collected.extend(x)\<close> appends for a truthy \<open>x\<close>.\<close>

fun iterate :: "json \<Rightarrow> py_exn + json list" where
  "iterate (JList xs) = Inr xs"
| "iterate (JDict d) = Inr (map (\<lambda>(k, v). JStr k) d)"
| "iterate (JStr s) = Inr (map JStr (characters s))"
| "iterate _ = Inl TypeError"

text \<open>
  One page: break with what is collected so far, break with this page appended, or go on. The
  test \<open>current_page >= total_page\<close> comes first and decides alone when it holds.
\<close>

datatype ban_page = Break "json list" | Continue "json list"

definition after_page :: "nat \<Rightarrow> json list \<Rightarrow> json \<Rightarrow> json \<Rightarrow> exn + ban_page" where
  "after_page current_page collected total_rows total_page =
     (case int_ge (int current_page) total_page of
        Inl e \<Rightarrow> Inl (Py e)
      | Inr last_page \<Rightarrow>
          if last_page then Inr (Break collected)
          else (case int_ge (int (length collected)) total_rows of
             Inl e \<Rightarrow> Inl (Py e)
           | Inr all_rows \<Rightarrow>
               if all_rows then Inr (Break collected)
               else if current_page \<ge> BAN_LIST_MAX_PAGES then Inr (Break collected)
               else Inr (Continue collected)))"

definition read_page :: "nat \<Rightarrow> json list \<Rightarrow> json \<Rightarrow> exn + ban_page" where
  "read_page current_page collected payload =
     (case attr_get payload ''data'' of
        Inl e \<Rightarrow> Inl (Py e)
      | Inr items \<Rightarrow>
          if \<not> truthy items then Inr (Break collected)
          else (case (attr_get_default payload ''total'' (JInt 0),
                      attr_get_default payload ''total_page'' (JInt 1)) of
                  (Inr total_rows, Inr total_page) \<Rightarrow>
                    (case iterate items of
                       Inl e \<Rightarrow> Inl (Py e)
                     | Inr page_items \<Rightarrow> after_page current_page (collected @ page_items) total_rows total_page)
                | _ \<Rightarrow> Inl (Py AttributeError)))"

definition ban_page_of :: "nat \<Rightarrow> json list \<Rightarrow> http_response \<Rightarrow> exn + ban_page" where
  "ban_page_of current_page collected response =
     (if rs_text response = [] then Inr (Break collected)
      else case rs_json response of
        DecodeError \<Rightarrow> Inr (Break collected)
      | LoadsRaises e \<Rightarrow> Inl (Py e)
      | Loaded body \<Rightarrow>
          (case attr_get_default body ''code'' (JInt (- 1)) of
             Inl e \<Rightarrow> Inl (Py e)
           | Inr code \<Rightarrow>
               (case attr_get body ''message'' of
                  Inl e \<Rightarrow> Inl (Py e)
                | Inr message \<Rightarrow>
                    if \<not> py_eq_int code 0 then
                      (case raise_for_code code message of
                         Some e \<Rightarrow> Inl (Bili e) | None \<Rightarrow> Inr (Break collected))
                    else (case attr_get body ''data'' of
                            Inl e \<Rightarrow> Inl (Py e)
                          | Inr data \<Rightarrow> read_page current_page collected (py_or data (JDict []))))))"

text \<open>\<open>is_running\<close> is what the callback answers before a page; it is always true without one.\<close>

function ban_pages ::
    "'w env \<Rightarrow> ('w \<Rightarrow> bool) \<Rightarrow> int \<Rightarrow> nat \<Rightarrow> json list \<Rightarrow> ('w, json list) client_io" where
  "ban_pages E is_running room_id current_page collected = (\<lambda>(c, w).
     if current_page \<le> BAN_LIST_MAX_PAGES \<and> is_running w then
       (case http_post E (LIVE_BASE_URL @ ''/xlive/web-ucenter/v1/banned/GetSilentUserList'')
               (ban_list_form c room_id current_page) (c, w) of
          (Inl e, cw) \<Rightarrow> (Inl e, cw)
        | (Inr response, cw) \<Rightarrow>
            (case ban_page_of current_page collected response of
               Inl e \<Rightarrow> (Inl e, cw)
             | Inr (Break got) \<Rightarrow> (Inr got, cw)
             | Inr (Continue got) \<Rightarrow> ban_pages E is_running room_id (Suc current_page) got cw))
     else (Inr collected, (c, w)))"
  by pat_completeness auto

termination
  by (relation "measure (\<lambda>(E, run, room_id, page, collected). Suc BAN_LIST_MAX_PAGES - page)") auto

declare ban_pages.simps [simp del]

definition get_ban_list :: "'w env \<Rightarrow> ('w \<Rightarrow> bool) \<Rightarrow> int \<Rightarrow> ('w, json list) client_io" where
  "get_ban_list E is_running room_id = ban_pages E is_running room_id 1 []"

subsection \<open>What one request does\<close>

definition ban_list_request :: "bili_client \<Rightarrow> int \<Rightarrow> nat \<Rightarrow> http_request" where
  "ban_list_request c room_id page =
     \<lparr>rq_method = ''POST'', rq_url = LIVE_BASE_URL @ ''/xlive/web-ucenter/v1/banned/GetSilentUserList'',
      rq_params = [], rq_form = ban_list_form c room_id page, rq_cookies = cl_jar c\<rparr>"

lemma http_post_apply:
  "http_post E url form (c, w) =
     (case net E \<lparr>rq_method = ''POST'', rq_url = url, rq_params = [], rq_form = form, rq_cookies = cl_jar c\<rparr> w of
        (r, w') \<Rightarrow> (r, (c, w')))"
  by (simp add: http_post_def http_call_def)

lemma http_get_apply:
  "http_get E url params (c, w) =
     (case net E \<lparr>rq_method = ''GET'', rq_url = url, rq_params = params, rq_form = [], rq_cookies = cl_jar c\<rparr> w of
        (r, w') \<Rightarrow> (r, (c, w')))"
  by (simp add: http_get_def http_call_def)

lemma ban_pages_step:
  "ban_pages E is_running room_id page collected (c, w) =
     (if page \<le> BAN_LIST_MAX_PAGES \<and> is_running w then
        (case net E (ban_list_request c room_id page) w of
           (Inl e, w') \<Rightarrow> (Inl e, (c, w'))
         | (Inr response, w') \<Rightarrow>
             (case ban_page_of page collected response of
                Inl e \<Rightarrow> (Inl e, (c, w'))
              | Inr (Break got) \<Rightarrow> (Inr got, (c, w'))
              | Inr (Continue got) \<Rightarrow> ban_pages E is_running room_id (Suc page) got (c, w')))
      else (Inr collected, (c, w)))"
  by (subst ban_pages.simps) (simp add: http_post_apply ban_list_request_def split: prod.splits sum.splits)

lemma ban_page_of_bound: "ban_page_of page collected response = Inr (Continue got) \<Longrightarrow> page < BAN_LIST_MAX_PAGES"
  by (auto simp: ban_page_of_def read_page_def after_page_def Let_def
      split: if_splits loads_result.splits sum.splits option.splits bool.splits)

lemma ban_pages_trace:
  assumes trace: "\<And>rq w. tr (snd (net E rq w)) = tr w @ [rq]"
  shows "ban_pages E is_running room_id page collected (c, w) = (r, (c', w')) \<Longrightarrow> page \<le> Suc BAN_LIST_MAX_PAGES \<Longrightarrow>
    c' = c \<and> (\<exists>k. page \<le> k \<and> k \<le> Suc BAN_LIST_MAX_PAGES \<and>
      tr w' = tr w @ map (ban_list_request c room_id) [page ..< k])"
proof (induction "Suc BAN_LIST_MAX_PAGES - page" arbitrary: page collected w r c' w')
  case 0
  then have "page = Suc BAN_LIST_MAX_PAGES" by simp
  with 0 show ?case by (subst (asm) ban_pages_step) auto
next
  case (Suc m)
  obtain a w1 where net: "net E (ban_list_request c room_id page) w = (a, w1)" by force
  with trace [of "ban_list_request c room_id page" w]
  have tr1: "tr w1 = tr w @ map (ban_list_request c room_id) [page ..< Suc page]" by simp
  show ?case
  proof (cases "page \<le> BAN_LIST_MAX_PAGES \<and> is_running w")
    case False
    with Suc.prems have "c' = c \<and> w' = w" by (subst (asm) ban_pages_step) auto
    with Suc.prems show ?thesis by (intro conjI exI [of _ page]) auto
  next
    case True
    show ?thesis
    proof (cases "\<exists>response got. a = Inr response \<and> ban_page_of page collected response = Inr (Continue got)")
      case False
      with Suc.prems True net have "c' = c \<and> w' = w1"
        by (subst (asm) ban_pages_step) (auto split: sum.splits ban_page.splits)
      with tr1 True show ?thesis by (intro conjI exI [of _ "Suc page"]) auto
    next
      case cont: True
      then obtain response got where a: "a = Inr response"
        and got: "ban_page_of page collected response = Inr (Continue got)" by blast
      have rest: "ban_pages E is_running room_id (Suc page) got (c, w1) = (r, (c', w'))"
        using Suc.prems True net a got by (subst (asm) ban_pages_step) simp
      have "c' = c \<and> (\<exists>k. Suc page \<le> k \<and> k \<le> Suc BAN_LIST_MAX_PAGES \<and>
          tr w' = tr w1 @ map (ban_list_request c room_id) [Suc page ..< k])"
        using Suc.hyps(2) True rest by (intro Suc.hyps(1)) simp_all
      then obtain k where k: "c' = c" "Suc page \<le> k" "k \<le> Suc BAN_LIST_MAX_PAGES"
          "tr w' = tr w1 @ map (ban_list_request c room_id) [Suc page ..< k]" by blast
      have "map (ban_list_request c room_id) [page ..< Suc page] @ map (ban_list_request c room_id) [Suc page ..< k]
          = map (ban_list_request c room_id) [page ..< k]"
        using k(2) by (simp add: upt_conv_Cons)
      then show ?thesis
        using k tr1 by (intro conjI exI [of _ k]) auto
    qed
  qed
qed

subsection \<open>An upstream that answers as documented\<close>

text \<open>A page of the ban list: its rows, the total number of rows and of pages.\<close>

definition silent_page :: "http_response \<Rightarrow> json list \<Rightarrow> int \<Rightarrow> int \<Rightarrow> bool" where
  "silent_page response rows total_rows pages \<longleftrightarrow>
     rs_text response \<noteq> [] \<and>
     (case rs_json response of
        Loaded (JDict body) \<Rightarrow>
          jget_default body ''code'' (JInt (- 1)) = JInt 0 \<and>
          (case jget body ''data'' of
             JDict data \<Rightarrow> jget data ''data'' = JList rows \<and>
               jget_default data ''total'' (JInt 0) = JInt total_rows \<and>
               jget_default data ''total_page'' (JInt 1) = JInt pages
           | _ \<Rightarrow> False)
      | _ \<Rightarrow> False)"

lemma ban_page_of_silent_page:
  assumes "silent_page response rows total_rows pages" and "rows \<noteq> []"
  shows "ban_page_of page collected response =
    (if int page \<ge> pages \<or> int (length (collected @ rows)) \<ge> total_rows \<or> page \<ge> BAN_LIST_MAX_PAGES
     then Inr (Break (collected @ rows)) else Inr (Continue (collected @ rows)))"
proof -
  from assms(1) obtain body data where nonempty: "rs_text response \<noteq> []"
    and body: "rs_json response = Loaded (JDict body)" "jget_default body ''code'' (JInt (- 1)) = JInt 0"
    and data: "jget body ''data'' = JDict data" "jget data ''data'' = JList rows"
      "jget_default data ''total'' (JInt 0) = JInt total_rows"
      "jget_default data ''total_page'' (JInt 1) = JInt pages"
    unfolding silent_page_def by (auto split: loads_result.splits json.splits)
  have "data \<noteq> []" using data(2) by (auto simp: jget_def)
  then show ?thesis
    using nonempty body data assms(2)
    by (simp add: ban_page_of_def read_page_def after_page_def py_or_def)
qed

lemma ban_pages_collects:
  assumes server: "\<And>p v. 1 \<le> p \<Longrightarrow> p \<le> n \<Longrightarrow>
      \<exists>response v'. net E (ban_list_request c room_id p) v = (Inr response, v') \<and>
        silent_page response (rows p) (int (length (concat (map rows [1 ..< Suc n])))) (int n) \<and> rows p \<noteq> []"
    and running: "\<And>v. is_running v" and cap: "n \<le> BAN_LIST_MAX_PAGES"
  shows "1 \<le> page \<Longrightarrow> page \<le> n \<Longrightarrow> collected = concat (map rows [1 ..< page]) \<Longrightarrow>
    \<exists>w'. ban_pages E is_running room_id page collected (c, w) = (Inr (concat (map rows [1 ..< Suc n])), (c, w'))"
proof (induction "n - page" arbitrary: page collected w)
  case 0
  then have "page = n" by simp
  moreover obtain response v' where "net E (ban_list_request c room_id page) w = (Inr response, v')"
    and "silent_page response (rows page) (int (length (concat (map rows [1 ..< Suc n])))) (int n)" "rows page \<noteq> []"
    using server [of page w] 0 by blast
  ultimately show ?case
    using 0 running cap by (subst ban_pages_step) (simp add: ban_page_of_silent_page)
next
  case (Suc m)
  obtain response v' where net: "net E (ban_list_request c room_id page) w = (Inr response, v')"
    and sp: "silent_page response (rows page) (int (length (concat (map rows [1 ..< Suc n])))) (int n)" "rows page \<noteq> []"
    using server [of page w] Suc by blast
  have less: "page < n" using Suc.hyps(2) by simp
  have got: "collected @ rows page = concat (map rows [1 ..< Suc page])"
    using Suc.prems by simp
  have "[1 ..< Suc n] = [1 ..< Suc page] @ [Suc page ..< Suc n]"
    using less Suc.prems by (metis Suc_leI le_SucI upt_add_eq_append le_add_diff_inverse add_Suc_right less_imp_le)
  moreover have "rows (Suc page) \<noteq> []" and "[Suc page ..< Suc n] = Suc page # [Suc (Suc page) ..< Suc n]"
    using server [of "Suc page" w] less by (auto simp: upt_rec)
  ultimately have "length (concat (map rows [1 ..< Suc page])) < length (concat (map rows [1 ..< Suc n]))"
    by simp
  then have step: "ban_page_of page collected response = Inr (Continue (collected @ rows page))"
    using ban_page_of_silent_page [OF sp, of page collected] less cap unfolding got by simp
  have "\<exists>w'. ban_pages E is_running room_id (Suc page) (collected @ rows page) (c, v')
      = (Inr (concat (map rows [1 ..< Suc n])), (c, w'))"
    using Suc.hyps(2) less got by (intro Suc.hyps(1)) simp_all
  then show ?case
    using net step running less cap by (subst ban_pages_step) simp
qed

text \<open>
  A page of the administrator list: its rows and the number of pages. An id is an integer or a decimal
  string, a row may have any other fields, and rows without an id are possible.
\<close>

definition names_id :: "json \<Rightarrow> int \<Rightarrow> bool" where
  "names_id v u \<longleftrightarrow> v = JInt u \<or> (\<exists>s. v = JStr s \<and> all_digits s \<and> length s \<le> 4300 \<and> int (digits_value s) = u)"

definition lists_user :: "int \<Rightarrow> json \<Rightarrow> bool" where
  "lists_user u row \<longleftrightarrow> (\<exists>r. row = JDict r \<and> names_id (jget r ''uid'') u)"

definition readable_row :: "json \<Rightarrow> bool" where
  "readable_row row \<longleftrightarrow> (\<forall>r s. row = JDict r \<and> jget r ''uid'' = JStr s \<longrightarrow> length s \<le> 4300)"

definition admin_response :: "http_response \<Rightarrow> json list \<Rightarrow> int \<Rightarrow> bool" where
  "admin_response response rows pages \<longleftrightarrow>
     (case rs_json response of
        Loaded (JDict body) \<Rightarrow>
          jget_default body ''code'' (JInt (- 1)) = JInt 0 \<and>
          (case jget body ''data'' of
             JDict data \<Rightarrow>
               jget_default data ''data'' (jget data ''list'') = JList rows \<and> list_all readable_row rows \<and>
               (case jget data ''page'' of JDict page_info \<Rightarrow> names_id (jget page_info ''total_page'') pages | _ \<Rightarrow> False)
           | _ \<Rightarrow> False)
      | _ \<Rightarrow> False)"

lemma py_int_digits: "all_digits s \<Longrightarrow> py_int s = (if length s \<le> 4300 then Some (int (digits_value s)) else None)"
  by (cases s) (auto simp: py_int_def all_digits_def is_digit_def Let_def)

lemma positive_int_names: "names_id v u \<Longrightarrow> 0 < u \<Longrightarrow> positive_int v = Inr (Some u)"
  by (auto simp: names_id_def py_int_digits)

lemma positive_int_Some: "positive_int v = Inr (Some u) \<Longrightarrow> names_id v u"
  by (cases v) (auto simp: names_id_def py_int_digits split: if_splits)

lemma rows_contain_user:
  "0 < u \<Longrightarrow> list_all readable_row rows \<Longrightarrow> rows_contain rows u = Inr (\<exists>row \<in> set rows. lists_user u row)"
proof (induction rows)
  case (Cons row rows)
  show ?case
  proof (cases row)
    case (JDict r)
    have "\<exists>n. positive_int (jget r ''uid'') = Inr n"
      using Cons.prems(2) JDict by (cases "jget r ''uid''") (auto simp: readable_row_def py_int_digits)
    then obtain n where n: "positive_int (jget r ''uid'') = Inr n" by blast
    have "n = Some u \<longleftrightarrow> lists_user u row"
      using n positive_int_Some [of "jget r ''uid''" u] positive_int_names [of "jget r ''uid''" u] Cons.prems(1)
      by (auto simp: lists_user_def JDict)
    then show ?thesis using Cons n JDict by simp
  qed (use Cons in \<open>simp_all add: lists_user_def\<close>)
qed simp

definition admin_request :: "bili_client \<Rightarrow> int \<Rightarrow> nat \<Rightarrow> http_request" where
  "admin_request c room_id page =
     \<lparr>rq_method = ''GET'', rq_url = LIVE_BASE_URL @ ''/xlive/web-room/v1/roomAdmin/get_by_room'',
      rq_params = [(''roomid'', JStr (str_int room_id)), (''page'', JStr (str_nat page))],
      rq_form = [], rq_cookies = cl_jar c\<rparr>"

lemma admin_page_of_response:
  assumes "admin_response response rows (int n)" and "0 < uid" and "0 < n"
  obtains body where "parse_body response = Inr body"
    and "admin_page body uid page = Inr (if \<exists>row \<in> set rows. lists_user uid row then Answer (Some True)
      else if n \<le> page \<or> rows = [] then Answer (Some False) else NextPage)"
proof -
  from assms(1) obtain body data page_info where body: "rs_json response = Loaded (JDict body)"
      "jget_default body ''code'' (JInt (- 1)) = JInt 0" "jget body ''data'' = JDict data"
    and data: "jget_default data ''data'' (jget data ''list'') = JList rows" "list_all readable_row rows"
      "jget data ''page'' = JDict page_info" "names_id (jget page_info ''total_page'') (int n)"
    unfolding admin_response_def by (auto split: loads_result.splits json.splits)
  have "admin_page body uid page = Inr (if \<exists>row \<in> set rows. lists_user uid row then Answer (Some True)
      else if n \<le> page \<or> rows = [] then Answer (Some False) else NextPage)"
    using body data assms(2,3) positive_int_names [OF data(4)] by (simp add: admin_page_def body_code_def rows_contain_user)
  with body that show ?thesis by (simp add: parse_body_def)
qed

lemma admin_pages_step:
  assumes "net E (admin_request c room_id page) w = (Inr response, w')" and "parse_body response = Inr body"
    and "admin_page body uid page = Inr step"
  shows "admin_pages E room_id uid (page # pages) (c, w) =
    (case step of Answer a \<Rightarrow> (Inr a, (c, w')) | NextPage \<Rightarrow> admin_pages E room_id uid pages (c, w'))"
  using assms by (auto simp: bind_io_def http_get_apply admin_request_def split: page_step.split)

lemma admin_pages_correct:
  assumes server: "\<And>p v. 1 \<le> p \<Longrightarrow> p \<le> n \<Longrightarrow>
      \<exists>response v'. net E (admin_request c room_id p) v = (Inr response, v') \<and>
        admin_response response (rows p) (int n) \<and> rows p \<noteq> []"
    and "0 < uid" and cap: "n \<le> final"
  shows "1 \<le> page \<Longrightarrow> page \<le> n \<Longrightarrow> (\<forall>p \<in> {1 ..< page}. \<not> (\<exists>row \<in> set (rows p). lists_user uid row)) \<Longrightarrow>
    \<exists>w'. admin_pages E room_id uid [page ..< Suc final] (c, w) = (Inr (Some (\<exists>p \<in> {1 .. n}. (\<exists>row \<in> set (rows p). lists_user uid row))), (c, w'))"
proof (induction "n - page" arbitrary: page w)
  case 0
  then have page: "page = n" by simp
  obtain response v' where net: "net E (admin_request c room_id page) w = (Inr response, v')"
    and resp: "admin_response response (rows page) (int n)" "rows page \<noteq> []"
    using server [of page w] 0 by blast
  obtain body where body: "parse_body response = Inr body"
    and ap: "admin_page body uid page = Inr (if (\<exists>row \<in> set (rows page). lists_user uid row) then Answer (Some True)
      else if n \<le> page \<or> rows page = [] then Answer (Some False) else NextPage)"
    using resp assms(2) 0 by (elim admin_page_of_response [where page = page]) auto
  have "(\<exists>p \<in> {1 .. n}. (\<exists>row \<in> set (rows p). lists_user uid row)) = ((\<exists>row \<in> set (rows page). lists_user uid row))"
    using 0 page by (metis atLeastAtMost_iff atLeastLessThan_iff le_neq_implies_less)
  moreover have "[page ..< Suc final] = page # [Suc page ..< Suc final]"
    using page cap by (simp add: upt_conv_Cons del: upt_Suc)
  ultimately show ?case
    using admin_pages_step [OF net body ap] page by (auto simp del: upt_Suc admin_pages.simps)
next
  case (Suc m)
  obtain response v' where net: "net E (admin_request c room_id page) w = (Inr response, v')"
    and resp: "admin_response response (rows page) (int n)" "rows page \<noteq> []"
    using server [of page w] Suc by blast
  obtain body where body: "parse_body response = Inr body"
    and ap: "admin_page body uid page = Inr (if (\<exists>row \<in> set (rows page). lists_user uid row) then Answer (Some True)
      else if n \<le> page \<or> rows page = [] then Answer (Some False) else NextPage)"
    using resp assms(2) Suc by (elim admin_page_of_response [where page = page]) auto
  have less: "page < n" using Suc.hyps(2) by simp
  have list: "[page ..< Suc final] = page # [Suc page ..< Suc final]"
    using less cap by (simp add: upt_conv_Cons del: upt_Suc)
  show ?case
  proof (cases "(\<exists>row \<in> set (rows page). lists_user uid row)")
    case True
    then have "\<exists>p \<in> {1 .. n}. (\<exists>row \<in> set (rows p). lists_user uid row)" using Suc.prems less by auto
    with True show ?thesis
      unfolding list using admin_pages_step [OF net body ap] by (simp del: upt_Suc admin_pages.simps)
  next
    case False
    have "\<exists>w'. admin_pages E room_id uid [Suc page ..< Suc final] (c, v')
        = (Inr (Some (\<exists>p \<in> {1 .. n}. (\<exists>row \<in> set (rows p). lists_user uid row))), (c, w'))"
      using Suc.hyps(2) Suc.prems less False by (intro Suc.hyps(1)) (auto simp: less_Suc_eq)
    with False resp(2) less show ?thesis
      unfolding list using admin_pages_step [OF net body ap] by (simp del: upt_Suc admin_pages.simps)
  qed
qed

subsection \<open>Requests to the signed endpoint\<close>

definition DANMU_INFO_URL :: string where
  "DANMU_INFO_URL = LIVE_BASE_URL @ ''/xlive/web-room/v1/index/getDanmuInfo''"

definition danmu_requests :: "http_request list \<Rightarrow> nat" where
  "danmu_requests rqs = length (filter (\<lambda>rq. rq_url rq = DANMU_INFO_URL) rqs)"

lemma danmu_requests_append [simp]: "danmu_requests (xs @ ys) = danmu_requests xs + danmu_requests ys"
  by (simp add: danmu_requests_def)

lemma danmu_requests_one: "danmu_requests [rq] \<le> 1" "danmu_requests [nav_request cookies] = 0"
  by (simp_all add: danmu_requests_def nav_request_def DANMU_INFO_URL_def LIVE_BASE_URL_def)

lemma get_keys_trace:
  assumes "\<And>rq w. tr (snd (net E rq w)) = tr w @ [rq]" and "get_keys E cookies s w = (r, s', w')"
  shows "tr w' = tr w \<or> tr w' = tr w @ [nav_request cookies]"
proof (cases "is_cache_fresh s (clock E w)")
  case True
  with assms(2) show ?thesis by (simp add: get_keys_def)
next
  case False
  obtain a w1 where net: "net E (nav_request cookies) w = (a, w1)" by force
  have "w' = w1"
    using assms(2) False net unfolding get_keys_def Let_def
    by (simp split: if_splits sum.splits option.splits loads_result.splits json.splits prod.splits)
  then show ?thesis using assms(1) [of "nav_request cookies" w] net by simp
qed

lemma sign_params_trace:
  assumes "\<And>rq w. tr (snd (net E rq w)) = tr w @ [rq]" and "sign_params E md5_hex params (c, w) = (r, (c', w'))"
  shows "danmu_requests (tr w') = danmu_requests (tr w)"
proof -
  obtain k s1 w1 where keys: "get_keys E (cl_jar c) (cl_signer c) w = (k, s1, w1)"
    by (metis prod_cases3)
  have "w' = w1"
    using assms(2) keys by (auto simp: sign_params_def sign_def split: sum.splits)
  then show ?thesis
    using get_keys_trace [OF assms(1) keys] danmu_requests_one by auto
qed

lemma danmu_info_once_trace:
  assumes trace: "\<And>rq w. tr (snd (net E rq w)) = tr w @ [rq]"
    and "danmu_info_once E md5_hex room_id (c, w) = (r, (c', w'))"
  shows "danmu_requests (tr w') \<le> danmu_requests (tr w) + 1"
proof -
  obtain sg c1 w1 where sg: "sign_params E md5_hex [(''id'', str_int room_id), (''type'', ''0'')] (c, w) = (sg, (c1, w1))"
    by (metis prod.exhaust)
  note same = sign_params_trace [OF trace sg]
  show ?thesis
  proof (cases sg)
    case (Inl e)
    then show ?thesis using assms(2) sg same by (simp add: danmu_info_once_def bind_io_def)
  next
    case (Inr params)
    let ?rq = "\<lparr>rq_method = ''GET'', rq_url = DANMU_INFO_URL, rq_params = params, rq_form = [], rq_cookies = cl_jar c1\<rparr>"
    have "w' = snd (net E ?rq w1)"
      using assms(2) sg Inr
      by (auto simp: danmu_info_once_def bind_io_def http_get_apply DANMU_INFO_URL_def split: prod.splits sum.splits)
    then have "tr w' = tr w1 @ [?rq]" using trace by simp
    then show ?thesis using same danmu_requests_one(1) [of ?rq] by simp
  qed
qed

lemma get_danmu_info_cases:
  assumes "get_danmu_info E md5_hex room_id cw = (r, cw')"
  obtains (raised) e where "danmu_info_once E md5_hex room_id cw = (Inl e, cw')" "r = Inl e"
  | (answered) body where "danmu_info_once E md5_hex room_id cw = (Inr body, cw')"
      "\<not> py_eq_int (body_code body) (- 352)"
      "r = (if py_eq_int (body_code body) 0 then danmu_data body ''getDanmuInfo: missing data''
            else Inl (Bili (the (raise_for_code (body_code body) (jget body ''message'')))))"
  | (retried) body c1 w1 where "danmu_info_once E md5_hex room_id cw = (Inr body, (c1, w1))"
      "py_eq_int (body_code body) (- 352)"
      "snd (danmu_info_once E md5_hex room_id (c1\<lparr>cl_signer := (cl_signer c1)\<lparr>sg_last_update := 0\<rparr>\<rparr>, w1)) = cw'"
proof -
  obtain a c1 w1 where once: "danmu_info_once E md5_hex room_id cw = (a, (c1, w1))"
    by (metis prod.exhaust)
  show ?thesis
  proof (cases a)
    case (Inl e)
    with once assms have "r = Inl e" "cw' = (c1, w1)" by (simp_all add: get_danmu_info_def bind_io_def)
    with once Inl show ?thesis by (intro raised) simp_all
  next
    case (Inr body)
    have distinct: "py_eq_int v 0 \<Longrightarrow> py_eq_int v (- 352) \<Longrightarrow> False" for v
      by (cases v) (auto elim: float_eq_int.elims split: if_splits)
    show ?thesis
    proof (cases "py_eq_int (body_code body) (- 352)")
      case False
      with once Inr assms have "cw' = (c1, w1) \<and>
          r = (if py_eq_int (body_code body) 0 then danmu_data body ''getDanmuInfo: missing data''
            else Inl (Bili (the (raise_for_code (body_code body) (jget body ''message'')))))"
        by (auto simp: get_danmu_info_def bind_io_def split: if_splits option.splits)
      with once Inr False show ?thesis by (intro answered) simp_all
    next
      case True
      with distinct have "\<not> py_eq_int (body_code body) 0" by blast
      with once Inr assms True have
        "snd (danmu_info_once E md5_hex room_id (c1\<lparr>cl_signer := (cl_signer c1)\<lparr>sg_last_update := 0\<rparr>\<rparr>, w1)) = cw'"
        by (auto simp: get_danmu_info_def bind_io_def expire_keys_def split: prod.splits sum.splits if_splits option.splits)
      with once Inr True show ?thesis by (intro retried) simp_all
    qed
  qed
qed

subsection \<open>What the client promises\<close>

text \<open>A network for the witnesses: it logs the requests and answers them from a table.\<close>

definition table_net :: "(http_request \<Rightarrow> http_response) \<Rightarrow> http_request list env" where
  "table_net f = \<lparr>net = (\<lambda>rq w. (Inr (f rq), w @ [rq])), clock = (\<lambda>w. 0)\<rparr>"

lemma table_net_simps [simp]:
  "net (table_net f) rq w = (Inr (f rq), w @ [rq])" "clock (table_net f) w = 0"
  by (simp_all add: table_net_def)

definition json_response :: "message \<Rightarrow> http_response" where
  "json_response body = \<lparr>rs_text = ''{'', rs_json = Loaded (JDict body)\<rparr>"

definition ok_response :: "message \<Rightarrow> http_response" where
  "ok_response data = json_response [(''code'', JInt 0), (''data'', JDict data)]"

definition client_witness :: bili_client where
  "client_witness = new_client [(''SESSDATA'', ''s''), (''bili_jct'', ''t'')] ''t'' (new_signer 3600)"

text \<open>
  C34. Reading the ban list makes at most one hundred requests, for the pages 1, 2, 3, ... in order
  and without repetition, each with the same session and CSRF token, whatever the upstream
  answers or reports as the number of pages.
\<close>

theorem get_ban_list_bounded:
  assumes "\<And>rq w. tr (snd (net E rq w)) = tr w @ [rq]"
    and "get_ban_list E is_running room_id (c, w) = (r, (c', w'))"
  shows "c' = c \<and> (\<exists>k \<le> 100. tr w' = tr w @ map (ban_list_request c room_id) [1 ..< Suc k])"
proof -
  have "c' = c \<and> (\<exists>k. 1 \<le> k \<and> k \<le> Suc BAN_LIST_MAX_PAGES \<and>
      tr w' = tr w @ map (ban_list_request c room_id) [1 ..< k])"
    using assms(2) by (intro ban_pages_trace [OF assms(1)]) (simp_all add: get_ban_list_def)
  then obtain k where "c' = c" "1 \<le> k" "k \<le> Suc BAN_LIST_MAX_PAGES"
      "tr w' = tr w @ map (ban_list_request c room_id) [1 ..< k]" by blast
  then show ?thesis
    by (intro conjI exI [of _ "k - 1"]) (simp_all add: BAN_LIST_MAX_PAGES_def del: upt_Suc)
qed

lemma get_ban_list_bounded_witness:
  "\<exists>r w'. get_ban_list (table_net (\<lambda>rq. json_response [])) (\<lambda>_. True) 6 (client_witness, []) = (r, (client_witness, w')) \<and>
     length w' \<le> 100"
proof -
  let ?E = "table_net (\<lambda>rq. json_response [])"
  obtain r c' w' where g: "get_ban_list ?E (\<lambda>_. True) 6 (client_witness, []) = (r, (c', w'))"
    by (metis prod.exhaust)
  have "c' = client_witness \<and> (\<exists>k \<le> 100. w' = [] @ map (ban_list_request client_witness 6) [1 ..< Suc k])"
    by (rule get_ban_list_bounded [where tr = "\<lambda>w. w", OF _ g]) simp
  with g show ?thesis by (auto simp del: upt_Suc)
qed

text \<open>
  C33. Against an upstream that serves a ban list of at most one hundred non-empty pages, with the
  true numbers of rows and of pages on each, \<open>get_ban_list\<close> returns all the rows of all the pages
  in order.
\<close>

theorem get_ban_list_complete:
  assumes "\<And>p v. 1 \<le> p \<Longrightarrow> p \<le> n \<Longrightarrow>
      \<exists>response v'. net E (ban_list_request c room_id p) v = (Inr response, v') \<and>
        silent_page response (rows p) (int (length (concat (map rows [1 ..< Suc n])))) (int n) \<and> rows p \<noteq> []"
    and "1 \<le> n" and "n \<le> 100"
  shows "fst (get_ban_list E (\<lambda>_. True) room_id (c, w)) = Inr (concat (map rows [1 ..< Suc n]))"
proof -
  have "\<exists>w'. ban_pages E (\<lambda>_. True) room_id 1 [] (c, w) = (Inr (concat (map rows [1 ..< Suc n])), (c, w'))"
    using assms by (intro ban_pages_collects) (simp_all add: BAN_LIST_MAX_PAGES_def del: upt_Suc)
  then show ?thesis by (auto simp: get_ban_list_def simp del: upt_Suc)
qed

definition two_page_server :: "http_request \<Rightarrow> http_response" where
  "two_page_server rq =
     ok_response [(''data'', JList [if map_of (rq_form rq) ''ps'' = Some ''1'' then JInt 7 else JInt 8]),
                  (''total'', JInt 2), (''total_page'', JInt 2)]"

lemma str_nat_small [simp]: "str_nat (Suc 0) = ''1''" "str_nat 2 = ''2''"
  by code_simp+

lemma get_ban_list_complete_witness:
  "fst (get_ban_list (table_net two_page_server) (\<lambda>_. True) 6 (client_witness, [])) = Inr [JInt 7, JInt 8]"
proof -
  let ?rows = "\<lambda>p. if p = (1::nat) then [JInt 7] else [JInt 8]"
  have rows: "concat (map ?rows [1 ..< Suc 2]) = [JInt 7, JInt 8]" by (simp add: upt_rec)
  have "fst (get_ban_list (table_net two_page_server) (\<lambda>_. True) 6 (client_witness, []))
      = Inr (concat (map ?rows [1 ..< Suc 2]))"
  proof (rule get_ban_list_complete)
    fix p :: nat and v
    assume "1 \<le> p" and "p \<le> 2"
    then have "p = 1 \<or> p = 2" by auto
    then show "\<exists>response v'. net (table_net two_page_server) (ban_list_request client_witness 6 p) v = (Inr response, v') \<and>
        silent_page response (?rows p) (int (length (concat (map ?rows [1 ..< Suc 2])))) (int 2) \<and> ?rows p \<noteq> []"
      unfolding rows
      by (auto simp: two_page_server_def ok_response_def json_response_def silent_page_def
          ban_list_request_def ban_list_form_def jget_def jget_default_def simp del: upt_Suc)
  qed simp_all
  then show ?thesis unfolding rows .
qed

text \<open>
  A first page that does not report \<open>total\<close> ends the pagination, whatever number of pages it
  reports: the default of 0 rows counts as reached, and one request is made.
\<close>

theorem get_ban_list_stops_without_total:
  assumes "net E (ban_list_request c room_id 1) w = (Inr response, w')"
    and "rs_text response \<noteq> []" and "rs_json response = Loaded (JDict body)"
    and "jget_default body ''code'' (JInt (- 1)) = JInt 0" and "jget body ''data'' = JDict data"
    and "jget data ''data'' = JList rows" and "rows \<noteq> []" and "map_of data ''total'' = None"
    and "jget_default data ''total_page'' (JInt 1) = JInt n"
  shows "get_ban_list E (\<lambda>_. True) room_id (c, w) = (Inr rows, (c, w'))"
proof -
  have "silent_page response rows 0 n"
    using assms by (simp add: silent_page_def jget_default_def [of data "''total''"])
  then have "ban_page_of 1 [] response = Inr (Break rows)"
    using ban_page_of_silent_page [of response rows 0 n 1 "[]"] assms(7) by simp
  then show ?thesis
    unfolding get_ban_list_def
    by (subst ban_pages_step) (simp add: assms(1) BAN_LIST_MAX_PAGES_def del: One_nat_def)
qed

lemma get_ban_list_stops_without_total_witness:
  "fst (get_ban_list (table_net (\<lambda>rq. ok_response [(''data'', JList [JInt 7]), (''total_page'', JInt 3)]))
     (\<lambda>_. True) 6 (client_witness, [])) = Inr [JInt 7]"
  by (subst get_ban_list_stops_without_total
        [where rows = "[JInt 7]" and n = 3 and data = "[(''data'', JList [JInt 7]), (''total_page'', JInt 3)]"])
     (auto simp: ok_response_def json_response_def jget_def jget_default_def)

text \<open>
  C23. \<open>getDanmuInfo\<close> is requested at most twice, and a second time only after an answer with code -352.
  Any other outcome of the first request decides, with the state it leaves: what it raises is raised
  again, code 0 gives its data, any other code the exception it maps to.
\<close>

theorem get_danmu_info_retries_once:
  assumes "\<And>rq w. tr (snd (net E rq w)) = tr w @ [rq]"
    and "get_danmu_info E md5_hex room_id (c, w) = (r, (c', w'))"
  shows "danmu_requests (tr w') \<le> danmu_requests (tr w) + 2 \<and>
    (case danmu_info_once E md5_hex room_id (c, w) of
       (Inl e, cw1) \<Rightarrow> r = Inl e \<and> (c', w') = cw1 \<and> danmu_requests (tr w') \<le> danmu_requests (tr w) + 1
     | (Inr body, cw1) \<Rightarrow>
         \<not> py_eq_int (body_code body) (- 352) \<longrightarrow>
           (c', w') = cw1 \<and> danmu_requests (tr w') \<le> danmu_requests (tr w) + 1 \<and>
           r = (if py_eq_int (body_code body) 0 then danmu_data body ''getDanmuInfo: missing data''
                else Inl (Bili (the (raise_for_code (body_code body) (jget body ''message''))))))"
  using assms(2)
proof (cases rule: get_danmu_info_cases)
  case (raised e)
  then show ?thesis using danmu_info_once_trace [OF assms(1) raised(1)] by simp
next
  case (answered body)
  then show ?thesis using danmu_info_once_trace [OF assms(1) answered(1)] by simp
next
  case (retried body c1 w1)
  let ?c = "c1\<lparr>cl_signer := (cl_signer c1)\<lparr>sg_last_update := 0\<rparr>\<rparr>"
  obtain b where "danmu_info_once E md5_hex room_id (?c, w1) = (b, (c', w'))"
    using retried(3) by (metis prod.collapse)
  then have "danmu_requests (tr w') \<le> danmu_requests (tr w1) + 1"
    by (rule danmu_info_once_trace [OF assms(1)])
  then show ?thesis
    using danmu_info_once_trace [OF assms(1) retried(1)] retried(1,2) by simp
qed

lemma get_danmu_info_retries_once_witness:
  "\<exists>r cw'. get_danmu_info (table_net (\<lambda>rq. json_response [])) id 6 (client_witness, []) = (r, cw') \<and>
     danmu_requests (snd cw') \<le> 2"
proof -
  obtain r c' w' where g: "get_danmu_info (table_net (\<lambda>rq. json_response [])) id 6 (client_witness, []) = (r, (c', w'))"
    by (metis prod.exhaust)
  have "danmu_requests w' \<le> danmu_requests [] + 2"
    using get_danmu_info_retries_once [where tr = "\<lambda>w. w", OF _ g] by simp
  with g show ?thesis by (auto simp: danmu_requests_def)
qed

text \<open>
  C35. Against an upstream that names the logged-in user and the anchor of the room and serves the
  administrators on at most one hundred non-empty pages, with the number of pages on each, the role is
  the anchor's when the two are the same user, the administrator's when a row of any page names the
  user, and the viewer's otherwise. Ids and the number of pages are positive integers or the decimal
  strings of such (of at most 4300 digits); a row may have other fields, or no id.
\<close>

theorem get_room_user_role_correct:
  assumes user: "\<And>v. \<exists>v'. get_user_info E (c, v) = (Inr (Some user), (c, v'))" "names_id (jget user ''mid'') u" "0 < u"
    and anchor: "\<And>v. \<exists>v'. get_room_init E (JInt room_id) (c, v) = (Inr (Some init), (c, v'))"
      "names_id (jget init ''uid'') a" "0 < a"
    and admins: "\<And>p v. 1 \<le> p \<Longrightarrow> p \<le> n \<Longrightarrow>
      \<exists>response v'. net E (admin_request c room_id p) v = (Inr response, v') \<and>
        admin_response response (rows p) (int n) \<and> rows p \<noteq> []"
    and "1 \<le> n" and "n \<le> 100"
  shows "fst (get_room_user_role E room_id (c, w)) =
    Inr (if u = a then Anchor else if \<exists>p \<in> {1 .. n}. (\<exists>row \<in> set (rows p). lists_user u row) then Admin else Viewer)"
proof -
  obtain v1 where 1: "get_user_info E (c, w) = (Inr (Some user), (c, v1))" using user(1) by blast
  obtain v2 where 2: "get_room_init E (JInt room_id) (c, v1) = (Inr (Some init), (c, v2))" using anchor(1) by blast
  have "\<exists>v3. admin_pages E room_id u [1 ..< Suc 100] (c, v2) = (Inr (Some (\<exists>p \<in> {1 .. n}. (\<exists>row \<in> set (rows p). lists_user u row))), (c, v3))"
    using admin_pages_correct [OF admins user(3) assms(9), where page = 1 and w = v2] assms(8) by (simp del: upt_Suc admin_pages.simps)
  then obtain v3 where "admin_pages E room_id u [1 ..< Suc 100] (c, v2) =
      (Inr (Some (\<exists>p \<in> {1 .. n}. (\<exists>row \<in> set (rows p). lists_user u row))), (c, v3))" by blast
  then have 3: "is_room_admin E room_id u (c, v2) = (Inr (Some (\<exists>p \<in> {1 .. n}. (\<exists>row \<in> set (rows p). lists_user u row))), (c, v3))"
    by (simp only: is_room_admin_def ROOM_ADMIN_MAX_PAGES_def Suc_eq_plus1)
  show ?thesis
    using 1 2 3 positive_int_names [OF user(2,3)] positive_int_names [OF anchor(2,3)]
    by (simp add: get_room_user_role_def bind_io_def opt_uid_def)
qed

definition role_rows :: "json list" where
  "role_rows = [JDict [(''uname'', JStr ''a''), (''uid'', JInt 7)], JDict [(''uid'', JStr ''5''), (''face'', JStr [])]]"

definition role_server :: "http_request \<Rightarrow> http_response" where
  "role_server rq =
     (if rq_params rq = [] then ok_response [(''mid'', JInt 5)]
      else if map_of (rq_params rq) ''id'' = Some (JInt 6) then ok_response [(''uid'', JInt 9)]
      else ok_response [(''data'', JList role_rows), (''page'', JDict [(''total_page'', JInt 1)])])"

lemma get_room_user_role_correct_witness:
  "fst (get_room_user_role (table_net role_server) 6 (client_witness, [])) = Inr Admin"
proof -
  have five: "all_digits ''5''" "digits_value ''5'' = 5" by code_simp+
  have listed: "\<exists>row \<in> set role_rows. lists_user 5 row" by (auto simp: role_rows_def lists_user_def names_id_def jget_def five)
  have "fst (get_room_user_role (table_net role_server) 6 (client_witness, [])) =
    Inr (if (5::int) = 9 then Anchor else if \<exists>p \<in> {1 .. 1}. (\<exists>row \<in> set ((\<lambda>p::nat. role_rows) p). lists_user 5 row) then Admin else Viewer)"
    by (rule get_room_user_role_correct [where user = "[(''mid'', JInt 5)]" and init = "[(''uid'', JInt 9)]"])
       (auto simp: get_user_info_def get_room_init_def get_data_def bind_io_def http_get_apply role_server_def
         parse_body_def ok_response_def json_response_def jget_def jget_default_def body_code_def names_id_def
         extract_data_or_none_def admin_request_def admin_response_def role_rows_def readable_row_def)
  then show ?thesis using listed by simp
qed

text \<open>
  C28. A ban posts exactly one form, of type 2 for the current session and of type 1 otherwise, with
  the token of the latest login in both CSRF fields. It returns True exactly when the upstream
  answers with code 0, never returns False, and raises otherwise; the client is unchanged.
\<close>

theorem ban_user_posts_once:
  assumes "\<And>rq w. tr (snd (net E rq w)) = tr w @ [rq]"
    and "ban_user E room_id uid hour (update_cookies c cookies, w) = (r, (c', w'))"
    and "map_of cookies ''bili_jct'' = Some csrf" and "csrf \<noteq> []"
  shows "\<exists>rq. tr w' = tr w @ [rq] \<and> rq_method rq = ''POST'' \<and>
    rq_form rq = [(''room_id'', str_int room_id), (''tuid'', str_int uid), (''mobile_app'', ''web''),
      (''type'', if hour = 0 then ''2'' else ''1''), (''hour'', str_int hour),
      (''csrf_token'', csrf), (''csrf'', csrf)] \<and>
    rq_cookies rq = dict_update (cl_jar c) cookies \<and>
    c' = update_cookies c cookies \<and> r \<noteq> Inr False \<and>
    (r = Inr True \<longleftrightarrow> (\<exists>response body. fst (net E rq w) = Inr response \<and> parse_body response = Inr body \<and>
       py_eq_int (body_code body) 0))"
proof -
  let ?c = "update_cookies c cookies"
  have csrf: "cl_csrf_token ?c = csrf" and jar: "cl_jar ?c = dict_update (cl_jar c) cookies"
    using assms(3,4) by (simp_all add: update_cookies_def Let_def)
  let ?rq = "\<lparr>rq_method = ''POST'', rq_url = LIVE_BASE_URL @ ''/xlive/web-ucenter/v1/banned/AddSilentUser'',
    rq_params = [], rq_form = ban_form ?c room_id uid hour, rq_cookies = cl_jar ?c\<rparr>"
  obtain a w1 where net: "net E ?rq w = (a, w1)" by force
  have result: "(r, (c', w')) = ((case a of Inl e \<Rightarrow> Inl e | Inr response \<Rightarrow> write_result response), (?c, w1))"
    using assms(2) net by (simp add: ban_user_def bind_io_def http_post_apply split: sum.splits)
  have "tr w' = tr w @ [?rq]" using assms(1) [of ?rq w] net result by simp
  moreover have "r \<noteq> Inr False"
    using result by (auto simp: write_result_def split: sum.splits if_splits option.splits)
  moreover have "r = Inr True \<longleftrightarrow> (\<exists>response body. fst (net E ?rq w) = Inr response \<and> parse_body response = Inr body \<and>
       py_eq_int (body_code body) 0)"
    using result net by (auto simp: write_result_def split: sum.splits if_splits option.splits)
  ultimately show ?thesis
    using result csrf jar by (intro exI [of _ ?rq]) (simp add: ban_form_def)
qed

lemma ban_user_posts_once_witness:
  "\<exists>r cw'. ban_user (table_net (\<lambda>rq. ok_response [])) 6 7 0 (update_cookies client_witness [(''bili_jct'', ''new'')], []) = (r, cw') \<and>
     r \<noteq> Inr False"
proof -
  obtain r c' w' where g: "ban_user (table_net (\<lambda>rq. ok_response [])) 6 7 0
      (update_cookies client_witness [(''bili_jct'', ''new'')], []) = (r, (c', w'))"
    by (metis prod.exhaust)
  have "r \<noteq> Inr False"
    using ban_user_posts_once [where tr = "\<lambda>w. w" and csrf = "''new''", OF _ g] by auto
  with g show ?thesis by blast
qed

end
