(* ===== verification/Danmaku_Ws.thy ===== *)
theory Danmaku_Ws
  imports Message_Buffer Protocol Bili_Client
begin

section \<open>The live-room socket client (\<open>bilibili/danmaku_ws.py\<close>)\<close>

text \<open>
  \<open>DanmakuClient\<close> keeps one upstream socket per room: a connect loop with endpoint rotation and
  back-off, a listener that decodes frames into the priority buffer, a watchdog, and a consumer
  that hands the buffered messages to the room session. The tasks only meet in the state of the
  object; each definition below is what a task does between two awaits. The wall clock of the
  event loop is an argument (rational seconds). Log records are left out.
\<close>

subsection \<open>State\<close>

record danmaku_metrics =
  dm_frames_received :: nat
  dm_decoded_messages :: nat
  dm_parse_errors :: nat
  dm_enqueued_messages :: nat
  dm_processed_messages :: nat
  dm_dropped_messages :: nat
  dm_queue_peak :: int
  dm_max_dispatch_lag_ms :: rat
  dm_connection_attempts :: nat
  dm_connected_sessions :: nat
  dm_dropped_by_priority :: "(string \<times> nat) list"
  dm_dropped_by_command :: "(string \<times> nat) list"

definition new_metrics :: danmaku_metrics where
  "new_metrics =
     \<lparr>dm_frames_received = 0, dm_decoded_messages = 0, dm_parse_errors = 0, dm_enqueued_messages = 0,
      dm_processed_messages = 0, dm_dropped_messages = 0, dm_queue_peak = 0, dm_max_dispatch_lag_ms = 0,
      dm_connection_attempts = 0, dm_connected_sessions = 0, dm_dropped_by_priority = [],
      dm_dropped_by_command = []\<rparr>"

type_synonym socket = nat \<comment> \<open>the identity of an open connection\<close>

record danmaku_client =
  dc_room_id :: int
  dc_heartbeat_interval :: rat
  dc_watchdog_timeout :: rat
  dc_auth_timeout :: rat
  dc_queue_maxsize :: int
  dc_reconnect_delays :: "rat list"
  dc_reconnect_max_attempts :: nat
  dc_running :: bool
  dc_fatal_error :: "string option"
  dc_ws :: "socket option"
  dc_msg_queue :: "message_buffer option"
  dc_metrics :: danmaku_metrics
  dc_uid :: int
  dc_token :: "string option"

text \<open>The constructor with its defaults.\<close>

definition new_danmaku_client :: "int \<Rightarrow> danmaku_client" where
  "new_danmaku_client room_id =
     \<lparr>dc_room_id = room_id, dc_heartbeat_interval = 30, dc_watchdog_timeout = 45, dc_auth_timeout = 8,
      dc_queue_maxsize = 20000, dc_reconnect_delays = [1, 2, 4, 8, 16, 30], dc_reconnect_max_attempts = 6,
      dc_running = False, dc_fatal_error = None, dc_ws = None, dc_msg_queue = None,
      dc_metrics = new_metrics, dc_uid = 0, dc_token = None\<rparr>"

subsection \<open>Receiving\<close>

fun priority_name :: "message_priority \<Rightarrow> string" where
  "priority_name CRITICAL = ''critical''"
| "priority_name NORMAL = ''normal''"
| "priority_name LOW = ''low''"

text \<open>\<open>d[k] = d.get(k, 0) + 1\<close>.\<close>

definition count_up :: "string \<Rightarrow> (string \<times> nat) list \<Rightarrow> (string \<times> nat) list" where
  "count_up k d = AList.update k (case map_of d k of None \<Rightarrow> 1 | Some n \<Rightarrow> n + 1) d"

definition record_drop :: "buffered_message \<Rightarrow> danmaku_client \<Rightarrow> danmaku_client" where
  "record_drop d dc =
     (let m = dc_metrics dc in
      dc\<lparr>dc_metrics := m\<lparr>
        dm_dropped_messages := dm_dropped_messages m + 1,
        dm_dropped_by_priority := count_up (priority_name (bm_priority d)) (dm_dropped_by_priority m),
        dm_dropped_by_command := count_up (command_name (bm_payload d)) (dm_dropped_by_command m)\<rparr>\<rparr>)"

definition enqueue :: "rat \<Rightarrow> message \<Rightarrow> danmaku_client \<Rightarrow> danmaku_client" where
  "enqueue now msg dc =
     (case dc_msg_queue dc of
        None \<Rightarrow> dc
      | Some b \<Rightarrow>
          (case put_nowait b msg now of (result, b') \<Rightarrow>
             let dc1 = dc\<lparr>dc_msg_queue := Some b'\<rparr>;
                 m = dc_metrics dc1;
                 dc2 = (if accepted result then
                          dc1\<lparr>dc_metrics := m\<lparr>dm_enqueued_messages := dm_enqueued_messages m + 1,
                                            dm_queue_peak := max (dm_queue_peak m) (qsize b')\<rparr>\<rparr>
                        else dc1)
             in (case dropped result of None \<Rightarrow> dc2 | Some d \<Rightarrow> record_drop d dc2)))"

definition heartbeat_reply :: "message \<Rightarrow> bool" where
  "heartbeat_reply msg \<longleftrightarrow> ''online_count'' \<in> set (map fst msg)"

text \<open>
  One received frame. \<open>None\<close> is a text frame, which is skipped before it is counted. The result
  also says whether the watchdog's box was reset.
\<close>

definition listen_frame ::
    "codec \<Rightarrow> nat \<Rightarrow> rat \<Rightarrow> bytes option \<Rightarrow> danmaku_client \<Rightarrow> bool \<times> danmaku_client" where
  "listen_frame C stack now data dc =
     (case data of
        None \<Rightarrow> (False, dc)
      | Some frame \<Rightarrow>
          (let m = dc_metrics dc;
               dc1 = dc\<lparr>dc_metrics := m\<lparr>dm_frames_received := dm_frames_received m + 1\<rparr>\<rparr>
           in case unpack_data C stack frame of
                Inl e \<Rightarrow> (False, dc1\<lparr>dc_metrics := (dc_metrics dc1)\<lparr>dm_parse_errors := dm_parse_errors m + 1\<rparr>\<rparr>)
              | Inr messages \<Rightarrow>
                  (\<exists>msg \<in> set messages. heartbeat_reply msg,
                   fold (enqueue now) (filter (\<lambda>msg. \<not> heartbeat_reply msg) messages)
                     (dc1\<lparr>dc_metrics := (dc_metrics dc1)\<lparr>
                        dm_decoded_messages := dm_decoded_messages m + length messages\<rparr>\<rparr>))))"

text \<open>\<open>_watchdog\<close> after each half second: whether it closes the socket and ends.\<close>

definition watchdog_fires :: "danmaku_client \<Rightarrow> rat \<Rightarrow> rat \<Rightarrow> bool" where
  "watchdog_fires dc now last_ack \<longleftrightarrow> now - last_ack > dc_watchdog_timeout dc"

subsection \<open>Dispatching\<close>

text \<open>
  One round of \<open>_process_queue\<close> up to the callback: the message for \<open>on_message\<close>, or None where the
  task waits (or ends) in \<open>get\<close>. What the callback raises is only logged.
\<close>

definition process_one :: "rat \<Rightarrow> danmaku_client \<Rightarrow> message option \<times> danmaku_client" where
  "process_one now dc =
     (if \<not> dc_running dc then (None, dc)
      else case dc_msg_queue dc of
        None \<Rightarrow> (None, dc)
      | Some b \<Rightarrow>
          (case buffer_get b of
             Waits b' \<Rightarrow> (None, dc\<lparr>dc_msg_queue := Some b'\<rparr>)
           | GetRaises e \<Rightarrow> (None, dc)
           | Delivers bm b' \<Rightarrow>
               (let lag_ms = (now - bm_enqueued_at bm) * 1000; m = dc_metrics dc in
                (Some (bm_payload bm),
                 dc\<lparr>dc_msg_queue := Some b',
                    dc_metrics := m\<lparr>
                      dm_max_dispatch_lag_ms := max (dm_max_dispatch_lag_ms m) lag_ms,
                      dm_processed_messages := dm_processed_messages m + 1\<rparr>\<rparr>))))"

subsection \<open>Starting and stopping\<close>

definition stop_client :: "danmaku_client \<Rightarrow> danmaku_client" where
  "stop_client dc =
     dc\<lparr>dc_running := False, dc_ws := None, dc_msg_queue := map_option buffer_clear (dc_msg_queue dc)\<rparr>"

text \<open>\<open>f"{port}"\<close> of what passes \<open>isinstance(port, int)\<close>.\<close>

fun port_text :: "json \<Rightarrow> (int \<times> string) option" where
  "port_text (JInt i) = Some (i, str_int i)"
| "port_text (JBool b) = Some (if b then (1, ''True'') else (0, ''False''))"
| "port_text _ = None"

definition ws_url :: "json \<Rightarrow> string option" where
  "ws_url host =
     (case host of
        JDict h \<Rightarrow>
          (case (jget h ''host'', port_text (jget h ''wss_port'')) of
             (JStr hostname, Some (n, port)) \<Rightarrow>
               if hostname \<noteq> [] \<and> 0 < n then Some (''wss://'' @ hostname @ '':'' @ port @ ''/sub'') else None
           | _ \<Rightarrow> None)
      | _ \<Rightarrow> None)"

text \<open>The token and the endpoints, or None where \<open>start\<close> returns False.\<close>

definition start_endpoints :: "message \<Rightarrow> (string \<times> string list) option" where
  "start_endpoints danmu_info =
     (case (jget danmu_info ''token'', py_or (jget danmu_info ''host_list'') (JList [])) of
        (JStr token, JList host_list) \<Rightarrow>
          (let ws_urls = List.map_filter ws_url host_list in
           if token = [] \<or> ws_urls = [] then None else Some (token, ws_urls))
      | _ \<Rightarrow> None)"

definition fetch_danmu_info :: "'w env \<Rightarrow> (string \<Rightarrow> string) \<Rightarrow> int \<Rightarrow> ('w, message option) client_io" where
  "fetch_danmu_info E md5_hex room_id =
     catch_io (bind_io (get_danmu_info E md5_hex room_id) (\<lambda>d. return_io (Some d)))
       (\<lambda>e. case e of Bili (AuthExpiredError m) \<Rightarrow> raise_io e | _ \<Rightarrow> return_io None)"

definition fetch_uid :: "'w env \<Rightarrow> ('w, int) client_io" where
  "fetch_uid E =
     catch_io (bind_io (get_user_info E) (\<lambda>info. return_io
         (case info of None \<Rightarrow> 0
          | Some d \<Rightarrow> (case int_instance (jget d ''mid'') of None \<Rightarrow> 0 | Some mid \<Rightarrow> mid))))
       (\<lambda>e. return_io 0)"

text \<open>\<open>start\<close> up to the creation of the two tasks: False, or the endpoints of the connect loop.\<close>

definition reset_for_start :: "string \<Rightarrow> int \<Rightarrow> danmaku_client \<Rightarrow> exn + danmaku_client" where
  "reset_for_start token uid dc =
     (case new_buffer (dc_queue_maxsize dc) of
        Inl e \<Rightarrow> Inl (Py e)
      | Inr b \<Rightarrow> Inr (dc\<lparr>dc_token := Some token, dc_uid := uid, dc_running := True, dc_fatal_error := None,
                       dc_ws := None, dc_metrics := new_metrics, dc_msg_queue := Some b\<rparr>))"

definition start_begin ::
    "'w env \<Rightarrow> (string \<Rightarrow> string) \<Rightarrow> danmaku_client \<Rightarrow> ('w, (string list \<times> danmaku_client) option) client_io" where
  "start_begin E md5_hex dc =
     bind_io (fetch_danmu_info E md5_hex (dc_room_id dc)) (\<lambda>info.
     case info of
       None \<Rightarrow> return_io None
     | Some danmu_info \<Rightarrow>
         (case start_endpoints danmu_info of
            None \<Rightarrow> return_io None
          | Some (token, ws_urls) \<Rightarrow>
              bind_io (fetch_uid E) (\<lambda>uid.
              bind_io (lift_res (reset_for_start token uid dc)) (\<lambda>dc'.
              return_io (Some (ws_urls, dc'))))))"

text \<open>
  One round of the wait at the end of \<open>start\<close>: None is another 50 ms of sleep, otherwise the
  result with the state it leaves.
\<close>

definition start_poll :: "rat \<Rightarrow> rat \<Rightarrow> danmaku_client \<Rightarrow> (bool \<times> danmaku_client) option" where
  "start_poll deadline now dc =
     (if now < deadline then
        (if dc_fatal_error dc \<noteq> None then Some (False, stop_client dc)
         else if dc_ws dc \<noteq> None then Some (True, dc)
         else None)
      else Some (False, stop_client dc))"

subsection \<open>The diagnostic snapshot\<close>

datatype metric = Count int | Table "(string \<times> nat) list" | Millis rat

text \<open>\<open>round(x, 3)\<close>: half to even.\<close>

definition round_millis :: "rat \<Rightarrow> rat" where
  "round_millis x =
     (let y = x * 1000; f = \<lfloor>y\<rfloor>; r = y - of_int f in
      of_int (if r < 1 / 2 then f else if r > 1 / 2 then f + 1 else if even f then f else f + 1) / 1000)"

definition metrics_snapshot :: "danmaku_client \<Rightarrow> (string \<times> metric) list" where
  "metrics_snapshot dc =
     (let m = dc_metrics dc in
      [(''frames_received'', Count (int (dm_frames_received m))),
       (''decoded_messages'', Count (int (dm_decoded_messages m))),
       (''parse_errors'', Count (int (dm_parse_errors m))),
       (''enqueued_messages'', Count (int (dm_enqueued_messages m))),
       (''processed_messages'', Count (int (dm_processed_messages m))),
       (''dropped_messages'', Count (int (dm_dropped_messages m))),
       (''dropped_by_priority'', Table (dm_dropped_by_priority m)),
       (''dropped_by_command'', Table (dm_dropped_by_command m)),
       (''queue_depth'', Count (case dc_msg_queue dc of None \<Rightarrow> 0 | Some b \<Rightarrow> qsize b)),
       (''queue_peak'', Count (dm_queue_peak m)),
       (''max_dispatch_lag_ms'', Millis (round_millis (dm_max_dispatch_lag_ms m))),
       (''connection_attempts'', Count (int (dm_connection_attempts m))),
       (''connected_sessions'', Count (int (dm_connected_sessions m)))])"

subsection \<open>The handshake\<close>

text \<open>The AUTH body before serialisation.\<close>

definition auth_payload :: "danmaku_client \<Rightarrow> string \<Rightarrow> string option \<Rightarrow> message" where
  "auth_payload dc token buvid =
     [(''uid'', JInt (dc_uid dc)), (''roomid'', JInt (dc_room_id dc)), (''protover'', JInt 3),
      (''platform'', JStr ''web''), (''type'', JInt 2), (''key'', JStr token)]
     @ (case buvid of Some v \<Rightarrow> if v \<noteq> [] then [(''buvid'', JStr v)] else [] | None \<Rightarrow> [])"

text \<open>The scan of the messages of the first frame: \<open>(auth_ok, fatal)\<close>.\<close>

fun auth_verdict :: "message list \<Rightarrow> bool \<times> bool" where
  "auth_verdict [] = (False, False)"
| "auth_verdict (msg # msgs) =
     (let code = jget msg ''code'' in
      if py_eq_int code 0 then (True, False)
      else if int_instance code \<noteq> None then (False, True)
      else auth_verdict msgs)"

text \<open>
  What came of \<open>wait_for(self._send_auth(ws))\<close>: a frame, or one of the failures the loop treats as
  recoverable (closed connection, timeout, any other exception, such as one raised by the parser).
\<close>

datatype auth_reply = AuthFrame bytes | AuthLost

definition auth_outcome :: "codec \<Rightarrow> nat \<Rightarrow> auth_reply \<Rightarrow> bool \<times> bool" where
  "auth_outcome C stack reply =
     (case reply of
        AuthLost \<Rightarrow> (False, False)
      | AuthFrame resp \<Rightarrow>
          (case unpack_data C stack resp of Inl e \<Rightarrow> (False, False) | Inr msgs \<Rightarrow> auth_verdict msgs))"

subsection \<open>The connect loop\<close>

text \<open>Where the coroutine is suspended.\<close>

datatype loop_phase =
    Connecting string \<comment> \<open>awaits \<open>websockets.connect(url)\<close>\<close>
  | Authenticating socket
  | InSession socket
  | Sleeping rat
  | LoopEnded

record connection =
  cn_client :: danmaku_client
  cn_urls :: "string list"
  cn_attempts :: nat
  cn_cursor :: nat
  cn_phase :: loop_phase
  cn_open :: "socket list" \<comment> \<open>the sockets opened and not closed\<close>
  cn_dialed :: "string list" \<comment> \<open>the endpoints dialed so far\<close>
  cn_slept :: "rat list" \<comment> \<open>the back-off delays so far\<close>

text \<open>The test of the \<open>while\<close> loop and the code up to the connect.\<close>

definition loop_top :: "connection \<Rightarrow> connection" where
  "loop_top s =
     (let dc = cn_client s in
      if dc_running dc \<and> cn_attempts s < dc_reconnect_max_attempts dc then
        (let url = cn_urls s ! (cn_cursor s mod length (cn_urls s)); m = dc_metrics dc in
         s\<lparr>cn_cursor := cn_cursor s + 1, cn_phase := Connecting url, cn_dialed := cn_dialed s @ [url],
           cn_client := dc\<lparr>dc_metrics := m\<lparr>dm_connection_attempts := dm_connection_attempts m + 1\<rparr>\<rparr>\<rparr>)
      else s\<lparr>cn_phase := LoopEnded\<rparr>)"

definition backoff_delay :: "rat list \<Rightarrow> nat \<Rightarrow> rat" where
  "backoff_delay delays attempt = delays ! (min (attempt - 1) (length delays - 1))"

text \<open>\<open>attempts += 1\<close>, \<open>_backoff_sleep\<close> and back to the top of the loop.\<close>

definition retry_later :: "connection \<Rightarrow> connection" where
  "retry_later s =
     (let s' = s\<lparr>cn_attempts := cn_attempts s + 1\<rparr>; delays = dc_reconnect_delays (cn_client s) in
      if \<not> dc_running (cn_client s) \<or> delays = [] then loop_top s'
      else let d = backoff_delay delays (cn_attempts s') in
        s'\<lparr>cn_phase := Sleeping d, cn_slept := cn_slept s @ [d]\<rparr>)"

definition close_socket :: "socket \<Rightarrow> connection \<Rightarrow> connection" where
  "close_socket ws s = s\<lparr>cn_open := removeAll ws (cn_open s)\<rparr>"

definition connect_loop :: "danmaku_client \<Rightarrow> string list \<Rightarrow> connection" where
  "connect_loop dc ws_urls =
     (let s = \<lparr>cn_client = dc, cn_urls = ws_urls, cn_attempts = 0, cn_cursor = 0, cn_phase = LoopEnded,
               cn_open = [], cn_dialed = [], cn_slept = []\<rparr>
      in if ws_urls = [] then s\<lparr>cn_client := dc\<lparr>dc_fatal_error := Some ''no websocket endpoint''\<rparr>\<rparr>
         else loop_top s)"

definition connect_failed :: "connection \<Rightarrow> connection" where
  "connect_failed s = retry_later s"

definition connected :: "socket \<Rightarrow> connection \<Rightarrow> connection" where
  "connected ws s = s\<lparr>cn_phase := Authenticating ws, cn_open := ws # cn_open s\<rparr>"

definition authenticated :: "codec \<Rightarrow> nat \<Rightarrow> auth_reply \<Rightarrow> socket \<Rightarrow> connection \<Rightarrow> connection" where
  "authenticated C stack reply ws s =
     (case auth_outcome C stack reply of (auth_ok, fatal) \<Rightarrow>
        if \<not> auth_ok \<and> fatal then
          close_socket ws (s\<lparr>cn_client := (cn_client s)\<lparr>dc_fatal_error := Some (''auth rejected by B'' @ map char_of [231, 171, 153 :: nat])\<rparr>, cn_phase := LoopEnded\<rparr>)
        else if \<not> auth_ok then retry_later (close_socket ws s)
        else let dc = cn_client s; m = dc_metrics dc in
          s\<lparr>cn_attempts := 0, cn_phase := InSession ws,
            cn_client := dc\<lparr>dc_ws := Some ws,
              dc_metrics := m\<lparr>dm_connected_sessions := dm_connected_sessions m + 1\<rparr>\<rparr>\<rparr>)"

definition session_ended :: "socket \<Rightarrow> connection \<Rightarrow> connection" where
  "session_ended ws s =
     (let s' = close_socket ws (s\<lparr>cn_client := (cn_client s)\<lparr>dc_ws := None\<rparr>\<rparr>) in
      if \<not> dc_running (cn_client s') then s'\<lparr>cn_phase := LoopEnded\<rparr> else retry_later s')"

text \<open>
  \<open>stop()\<close> from another task: it clears the flag, cancels the suspended loop and closes the socket of
  the client object, the one of an authenticated session.
\<close>

definition stop_loop :: "connection \<Rightarrow> connection" where
  "stop_loop s =
     (let s' = (case dc_ws (cn_client s) of None \<Rightarrow> s | Some ws \<Rightarrow> close_socket ws s)
      in s'\<lparr>cn_client := stop_client (cn_client s), cn_phase := LoopEnded\<rparr>)"

text \<open>
  The steps of the system: what the loop is waiting for happens, or the other tasks change the
  metrics and the queue, or \<open>stop()\<close> is called. A new connection is a new socket.
\<close>

inductive connection_step :: "codec \<Rightarrow> nat \<Rightarrow> connection \<Rightarrow> connection \<Rightarrow> bool" for C stack where
  ConnectFails: "cn_phase s = Connecting url \<Longrightarrow> connection_step C stack s (connect_failed s)"
| Connects: "cn_phase s = Connecting url \<Longrightarrow> ws \<notin> set (cn_open s) \<Longrightarrow>
    connection_step C stack s (connected ws s)"
| AuthReply: "cn_phase s = Authenticating ws \<Longrightarrow> connection_step C stack s (authenticated C stack reply ws s)"
| SessionEnds: "cn_phase s = InSession ws \<Longrightarrow> connection_step C stack s (session_ended ws s)"
| Wakes: "cn_phase s = Sleeping d \<Longrightarrow> connection_step C stack s (loop_top s)"
| FrameArrives: "cn_phase s = InSession ws \<Longrightarrow>
    connection_step C stack s (s\<lparr>cn_client := snd (listen_frame C stack now data (cn_client s))\<rparr>)"
| Dispatches: "connection_step C stack s (s\<lparr>cn_client := snd (process_one now (cn_client s))\<rparr>)"
| Stops: "connection_step C stack s (stop_loop s)"

inductive connection_reachable :: "codec \<Rightarrow> nat \<Rightarrow> connection \<Rightarrow> connection \<Rightarrow> bool" for C stack s0 where
  Start: "connection_reachable C stack s0 s0"
| Step: "connection_reachable C stack s0 s \<Longrightarrow> connection_step C stack s s' \<Longrightarrow> connection_reachable C stack s0 s'"

inductive_cases connection_stepE: "connection_step C stack s s'"

subsection \<open>What the other tasks leave alone\<close>

lemma enqueue_keeps [simp]:
  "dc_running (enqueue now msg dc) = dc_running dc"
  "dc_ws (enqueue now msg dc) = dc_ws dc"
  "dc_fatal_error (enqueue now msg dc) = dc_fatal_error dc"
  "dc_reconnect_max_attempts (enqueue now msg dc) = dc_reconnect_max_attempts dc"
  "dc_reconnect_delays (enqueue now msg dc) = dc_reconnect_delays dc"
  "dm_connection_attempts (dc_metrics (enqueue now msg dc)) = dm_connection_attempts (dc_metrics dc)"
  "dm_decoded_messages (dc_metrics (enqueue now msg dc)) = dm_decoded_messages (dc_metrics dc)"
  "dm_processed_messages (dc_metrics (enqueue now msg dc)) = dm_processed_messages (dc_metrics dc)"
  by (auto simp: enqueue_def record_drop_def Let_def split: option.split prod.split)

lemma fold_enqueue_keeps [simp]:
  "dc_running (fold (enqueue now) msgs dc) = dc_running dc"
  "dc_ws (fold (enqueue now) msgs dc) = dc_ws dc"
  "dc_fatal_error (fold (enqueue now) msgs dc) = dc_fatal_error dc"
  "dc_reconnect_max_attempts (fold (enqueue now) msgs dc) = dc_reconnect_max_attempts dc"
  "dc_reconnect_delays (fold (enqueue now) msgs dc) = dc_reconnect_delays dc"
  "dm_connection_attempts (dc_metrics (fold (enqueue now) msgs dc)) = dm_connection_attempts (dc_metrics dc)"
  "dm_processed_messages (dc_metrics (fold (enqueue now) msgs dc)) = dm_processed_messages (dc_metrics dc)"
  by (induction msgs arbitrary: dc) simp_all

lemma listen_frame_keeps [simp]:
  "dc_running (snd (listen_frame C stack now data dc)) = dc_running dc"
  "dc_ws (snd (listen_frame C stack now data dc)) = dc_ws dc"
  "dc_fatal_error (snd (listen_frame C stack now data dc)) = dc_fatal_error dc"
  "dc_reconnect_max_attempts (snd (listen_frame C stack now data dc)) = dc_reconnect_max_attempts dc"
  "dc_reconnect_delays (snd (listen_frame C stack now data dc)) = dc_reconnect_delays dc"
  "dm_connection_attempts (dc_metrics (snd (listen_frame C stack now data dc))) = dm_connection_attempts (dc_metrics dc)"
  by (simp_all add: listen_frame_def Let_def split: option.split sum.split)

lemma process_one_keeps [simp]:
  "dc_running (snd (process_one now dc)) = dc_running dc"
  "dc_ws (snd (process_one now dc)) = dc_ws dc"
  "dc_fatal_error (snd (process_one now dc)) = dc_fatal_error dc"
  "dc_reconnect_max_attempts (snd (process_one now dc)) = dc_reconnect_max_attempts dc"
  "dc_reconnect_delays (snd (process_one now dc)) = dc_reconnect_delays dc"
  "dm_connection_attempts (dc_metrics (snd (process_one now dc))) = dm_connection_attempts (dc_metrics dc)"
  by (simp_all add: process_one_def Let_def split: option.split get_outcome.split)

lemma stop_client_simps [simp]:
  "dc_running (stop_client dc) = False" "dc_ws (stop_client dc) = None"
  "dc_fatal_error (stop_client dc) = dc_fatal_error dc"
  "dc_reconnect_max_attempts (stop_client dc) = dc_reconnect_max_attempts dc"
  "dc_reconnect_delays (stop_client dc) = dc_reconnect_delays dc"
  "dc_metrics (stop_client dc) = dc_metrics dc"
  by (simp_all add: stop_client_def)

subsection \<open>The invariant of the connect loop\<close>

text \<open>Which sockets are open and which one the object publishes, by phase.\<close>

fun sockets_ok :: "loop_phase \<Rightarrow> socket list \<Rightarrow> socket option \<Rightarrow> bool" where
  "sockets_ok (Connecting url) opened ws = (opened = [] \<and> ws = None)"
| "sockets_ok (Sleeping d) opened ws = (opened = [] \<and> ws = None)"
| "sockets_ok (Authenticating s) opened ws = (opened = [s] \<and> ws = None)"
| "sockets_ok (InSession s) opened ws = (opened = [s] \<and> ws = Some s)"
| "sockets_ok LoopEnded opened ws = (length opened \<le> 1 \<and> ws = None)"

definition rotation :: "string list \<Rightarrow> nat \<Rightarrow> string list" where
  "rotation urls n = map (\<lambda>i. urls ! (i mod length urls)) [0 ..< n]"

definition connection_inv :: "string list \<Rightarrow> nat \<Rightarrow> connection \<Rightarrow> bool" where
  "connection_inv urls limit s \<longleftrightarrow>
     cn_urls s = urls \<and> dc_reconnect_max_attempts (cn_client s) = limit \<and>
     cn_dialed s = rotation urls (cn_cursor s) \<and>
     dm_connection_attempts (dc_metrics (cn_client s)) = cn_cursor s \<and>
     sockets_ok (cn_phase s) (cn_open s) (dc_ws (cn_client s)) \<and>
     cn_attempts s \<le> limit \<and>
     (\<forall>url. cn_phase s = Connecting url \<longrightarrow> cn_attempts s < limit) \<and>
     (\<forall>ws. cn_phase s = Authenticating ws \<or> cn_phase s = InSession ws \<longrightarrow> cn_attempts s < limit) \<and>
     (dc_fatal_error (cn_client s) \<noteq> None \<longrightarrow> cn_phase s = LoopEnded)"

text \<open>What the top of the loop needs.\<close>

definition top_ready :: "string list \<Rightarrow> nat \<Rightarrow> connection \<Rightarrow> bool" where
  "top_ready urls limit s \<longleftrightarrow>
     cn_urls s = urls \<and> dc_reconnect_max_attempts (cn_client s) = limit \<and>
     cn_dialed s = rotation urls (cn_cursor s) \<and>
     dm_connection_attempts (dc_metrics (cn_client s)) = cn_cursor s \<and>
     cn_open s = [] \<and> dc_ws (cn_client s) = None \<and> cn_attempts s \<le> limit \<and>
     dc_fatal_error (cn_client s) = None"

lemma rotation_Suc: "rotation urls (Suc n) = rotation urls n @ [urls ! (n mod length urls)]"
  by (simp add: rotation_def)

lemma loop_top_inv: "top_ready urls limit s \<Longrightarrow> connection_inv urls limit (loop_top s)"
  by (auto simp: top_ready_def connection_inv_def loop_top_def Let_def rotation_Suc)

lemma retry_later_inv:
  assumes "top_ready urls limit s" and "cn_attempts s < limit"
  shows "connection_inv urls limit (retry_later s)"
proof -
  have "top_ready urls limit (s\<lparr>cn_attempts := cn_attempts s + 1\<rparr>)"
    using assms by (simp add: top_ready_def)
  from loop_top_inv [OF this] assms show ?thesis
    by (auto simp: retry_later_def Let_def top_ready_def connection_inv_def)
qed

lemma top_ready_closed:
  assumes "connection_inv urls limit s" and "cn_open s = [ws]" and "cn_phase s \<noteq> LoopEnded"
  shows "top_ready urls limit (close_socket ws (s\<lparr>cn_client := (cn_client s)\<lparr>dc_ws := None\<rparr>\<rparr>))"
  using assms by (auto simp: connection_inv_def top_ready_def close_socket_def)

lemma connection_step_inv:
  assumes "connection_step C stack s s'" and inv: "connection_inv urls limit s"
  shows "connection_inv urls limit s'"
  using assms(1)
proof cases
  case (ConnectFails url)
  have "top_ready urls limit s" and "cn_attempts s < limit"
    using inv ConnectFails by (auto simp: connection_inv_def top_ready_def)
  with ConnectFails show ?thesis by (simp add: connect_failed_def retry_later_inv)
next
  case (Connects url ws)
  with inv show ?thesis by (auto simp: connection_inv_def connected_def)
next
  case (AuthReply ws reply)
  obtain ok fatal where verdict: "auth_outcome C stack reply = (ok, fatal)" by force
  have opened: "cn_open s = [ws]" and none: "dc_ws (cn_client s) = None" and less: "cn_attempts s < limit"
    using inv AuthReply by (auto simp: connection_inv_def)
  have "(cn_client s)\<lparr>dc_ws := None\<rparr> = cn_client s" using none by simp
  then have "top_ready urls limit (close_socket ws s)"
    using top_ready_closed [OF inv opened] AuthReply by simp
  moreover have "cn_attempts (close_socket ws s) = cn_attempts s" by (simp add: close_socket_def)
  ultimately have "connection_inv urls limit (retry_later (close_socket ws s))"
    using less by (intro retry_later_inv) simp_all
  then show ?thesis
    using AuthReply inv verdict opened
    by (auto simp: authenticated_def connection_inv_def close_socket_def Let_def)
next
  case (SessionEnds ws)
  let ?s = "close_socket ws (s\<lparr>cn_client := (cn_client s)\<lparr>dc_ws := None\<rparr>\<rparr>)"
  have ready: "top_ready urls limit ?s" and less: "cn_attempts ?s < limit"
    using inv SessionEnds by (auto simp: connection_inv_def close_socket_def top_ready_def)
  have "connection_inv urls limit (?s\<lparr>cn_phase := LoopEnded\<rparr>)"
    using ready by (simp add: top_ready_def connection_inv_def)
  with retry_later_inv [OF ready less] SessionEnds show ?thesis
    by (simp add: session_ended_def Let_def)
next
  case (Wakes d)
  have "top_ready urls limit s"
    using inv Wakes by (auto simp: connection_inv_def top_ready_def)
  with Wakes show ?thesis by (simp add: loop_top_inv)
next
  case (FrameArrives ws now data)
  with inv show ?thesis by (auto simp: connection_inv_def)
next
  case (Dispatches now)
  with inv show ?thesis by (auto simp: connection_inv_def)
next
  case Stops
  have "length (removeAll ws xs) \<le> length xs" for ws and xs :: "socket list" by simp
  then show ?thesis
    using inv Stops
    by (cases "cn_phase s") (auto simp: connection_inv_def stop_loop_def close_socket_def Let_def split: option.split)
qed

lemma connect_loop_inv:
  assumes "ws_urls \<noteq> []" and "dc_ws dc = None" and "dc_fatal_error dc = None" and "dc_metrics dc = new_metrics"
  shows "connection_inv ws_urls (dc_reconnect_max_attempts dc) (connect_loop dc ws_urls)"
  using assms by (auto intro!: loop_top_inv simp: connect_loop_def Let_def top_ready_def rotation_def new_metrics_def)

lemma reachable_inv:
  "connection_reachable C stack s0 s \<Longrightarrow> connection_inv urls limit s0 \<Longrightarrow> connection_inv urls limit s"
  by (induction rule: connection_reachable.induct) (auto intro: connection_step_inv)

text \<open>
  \<open>stop()\<close> closes the published socket only: when it cancels the loop during the handshake, the
  socket of the handshake stays open.
\<close>

theorem stop_during_handshake_keeps_socket_open:
  assumes "connection_inv urls limit s" and "cn_phase s = Authenticating ws"
  shows "cn_open (stop_loop s) = [ws] \<and> cn_phase (stop_loop s) = LoopEnded \<and> dc_ws (cn_client (stop_loop s)) = None"
  using assms by (simp add: connection_inv_def stop_loop_def)

lemma reachable_step: "connection_step C stack s s' \<Longrightarrow> connection_reachable C stack s s'"
  by (rule connection_reachable.Step [OF connection_reachable.Start])

lemma ended_stays_ended:
  assumes "connection_step C stack s s'" and "cn_phase s = LoopEnded"
  shows "cn_phase s' = LoopEnded \<and> cn_dialed s' = cn_dialed s"
  using assms by (auto elim!: connection_stepE simp: stop_loop_def close_socket_def Let_def split: option.splits)

lemma ended_reachable:
  "connection_reachable C stack s s' \<Longrightarrow> cn_phase s = LoopEnded \<Longrightarrow>
    cn_phase s' = LoopEnded \<and> cn_dialed s' = cn_dialed s"
  by (induction rule: connection_reachable.induct) (auto dest: ended_stays_ended)

subsection \<open>An unreachable upstream\<close>

text \<open>Every connect fails and every sleep ends: the loop after that many steps.\<close>

fun failing_run :: "nat \<Rightarrow> connection \<Rightarrow> connection" where
  "failing_run 0 s = s"
| "failing_run (Suc n) s =
     (case cn_phase s of
        Connecting url \<Rightarrow> failing_run n (connect_failed s)
      | Sleeping d \<Rightarrow> failing_run n (loop_top s)
      | _ \<Rightarrow> s)"

definition delays_slept :: "rat list \<Rightarrow> nat \<Rightarrow> rat list" where
  "delays_slept delays n = map (backoff_delay delays) [1 ..< Suc n]"

definition failed_times :: "string list \<Rightarrow> danmaku_client \<Rightarrow> nat \<Rightarrow> connection \<Rightarrow> bool" where
  "failed_times urls dc k s \<longleftrightarrow>
     cn_urls s = urls \<and> cn_attempts s = k \<and> cn_cursor s = k \<and> cn_dialed s = rotation urls k \<and>
     cn_slept s = delays_slept (dc_reconnect_delays dc) k \<and>
     dc_running (cn_client s) \<and> dc_fatal_error (cn_client s) = None \<and>
     dc_reconnect_delays (cn_client s) = dc_reconnect_delays dc \<and>
     dc_reconnect_max_attempts (cn_client s) = dc_reconnect_max_attempts dc"

lemma failing_round:
  assumes "failed_times urls dc k s" and "k < dc_reconnect_max_attempts dc" and "dc_reconnect_delays dc \<noteq> []"
  shows "\<exists>s'. failed_times urls dc (Suc k) s' \<and> (\<forall>n. failing_run (Suc (Suc n)) (loop_top s) = failing_run n (loop_top s'))"
proof -
  let ?s = "(loop_top s)\<lparr>cn_attempts := Suc k, cn_phase := Sleeping (backoff_delay (dc_reconnect_delays dc) (Suc k)),
    cn_slept := cn_slept s @ [backoff_delay (dc_reconnect_delays dc) (Suc k)]\<rparr>"
  have "connect_failed (loop_top s) = ?s"
    using assms by (simp add: connect_failed_def retry_later_def failed_times_def loop_top_def Let_def)
  moreover have "cn_phase (loop_top s) = Connecting (urls ! (k mod length urls))"
    using assms by (simp add: failed_times_def loop_top_def Let_def)
  ultimately have "failing_run (Suc (Suc n)) (loop_top s) = failing_run n (loop_top ?s)" for n
    by simp
  moreover have "failed_times urls dc (Suc k) ?s"
    using assms by (auto simp: failed_times_def loop_top_def Let_def rotation_Suc delays_slept_def)
  ultimately show ?thesis by blast
qed

lemma failing_rounds:
  assumes "dc_reconnect_delays dc \<noteq> []"
  shows "failed_times urls dc k s \<Longrightarrow> k \<le> dc_reconnect_max_attempts dc \<Longrightarrow>
    \<exists>s'. failed_times urls dc (dc_reconnect_max_attempts dc) s' \<and>
      failing_run (2 * (dc_reconnect_max_attempts dc - k)) (loop_top s) = s'\<lparr>cn_phase := LoopEnded\<rparr>"
proof (induction "dc_reconnect_max_attempts dc - k" arbitrary: k s)
  case 0
  then have "loop_top s = s\<lparr>cn_phase := LoopEnded\<rparr>"
    by (simp add: loop_top_def failed_times_def Let_def)
  with 0 show ?case by auto
next
  case (Suc m)
  have less: "k < dc_reconnect_max_attempts dc" using Suc.hyps(2) by simp
  obtain s' where s': "failed_times urls dc (Suc k) s'"
    and run: "\<And>n. failing_run (Suc (Suc n)) (loop_top s) = failing_run n (loop_top s')"
    using failing_round [OF Suc.prems(1) less assms] by blast
  have "2 * (dc_reconnect_max_attempts dc - k) = Suc (Suc (2 * (dc_reconnect_max_attempts dc - Suc k)))"
    using Suc.hyps(2) by simp
  then show ?case
    using Suc.hyps(1) [of "Suc k" s'] Suc.hyps(2) Suc.prems(2) s' run by (simp del: failing_run.simps)
qed

subsection \<open>Accounting for every decoded message\<close>

lemma put_nowait_size:
  assumes "put_nowait b m now = (r, b')"
  shows "qsize b' + (if dropped r = None then 0 else 1) = qsize b + 1" and "\<not> accepted r \<longrightarrow> dropped r \<noteq> None"
  using assms by (auto simp: put_nowait_incoming qsize_def split: if_splits option.splits)

lemma sum_count_up: "sum_list (map snd (count_up k d)) = sum_list (map snd d) + 1"
proof -
  have "sum_list (map snd (AList.update k (Suc n) d)) = sum_list (map snd d) + 1" if "map_of d k = Some n" for n
    using that by (induction d) (auto split: if_splits)
  moreover have "sum_list (map snd (AList.update k 1 d)) = sum_list (map snd d) + 1" if "map_of d k = None"
    using that by (simp add: AList_update_fresh map_of_eq_None_iff)
  ultimately show ?thesis by (auto simp: count_up_def split: option.split)
qed

text \<open>The ledger: \<open>n\<close> messages were handed to the buffer since \<open>start()\<close>.\<close>

definition ledger :: "nat \<Rightarrow> danmaku_client \<Rightarrow> bool" where
  "ledger n dc \<longleftrightarrow>
     (case dc_msg_queue dc of
        None \<Rightarrow> False
      | Some b \<Rightarrow>
          (let m = dc_metrics dc in
           buffer_inv b \<and> b_maxsize b = dc_queue_maxsize dc \<and>
           int (dm_processed_messages m) + qsize b + int (dm_dropped_messages m) = int n \<and>
           qsize b \<le> dm_queue_peak m \<and> dm_queue_peak m \<le> dc_queue_maxsize dc \<and>
           sum_list (map snd (dm_dropped_by_priority m)) = dm_dropped_messages m \<and>
           sum_list (map snd (dm_dropped_by_command m)) = dm_dropped_messages m))"

lemma ledger_enqueue:
  assumes "ledger n dc"
  shows "ledger (Suc n) (enqueue now msg dc)"
proof -
  from assms obtain b where b: "dc_msg_queue dc = Some b" and inv: "buffer_inv b"
    by (auto simp: ledger_def Let_def split: option.splits)
  obtain r b' where put: "put_nowait b msg now = (r, b')" by force
  note size = put_nowait_size [OF put]
  have inv': "buffer_inv b'" and cap: "b_maxsize b' = b_maxsize b"
    using put_nowait_inv [OF inv put] put_nowait_maxsize [OF put] by simp_all
  then have "qsize b' \<le> b_maxsize b" by (simp add: buffer_inv_def qsize_def)
  moreover have "\<not> accepted r \<Longrightarrow> b' = b"
    using put by (auto simp: put_nowait_incoming split: if_splits option.splits)
  ultimately show ?thesis
    using assms b put size inv' cap
    by (cases "accepted r"; cases "dropped r")
       (auto simp: ledger_def enqueue_def record_drop_def Let_def sum_count_up)
qed

lemma ledger_fold: "ledger n dc \<Longrightarrow> ledger (n + length msgs) (fold (enqueue now) msgs dc)"
proof (induction msgs arbitrary: n dc)
  case (Cons msg msgs)
  then have "ledger (Suc n + length msgs) (fold (enqueue now) msgs (enqueue now msg dc))"
    by (intro Cons.IH ledger_enqueue)
  then show ?case by simp
qed simp

text \<open>The messages of a frame that are not heartbeat replies.\<close>

definition offered :: "codec \<Rightarrow> nat \<Rightarrow> bytes option \<Rightarrow> message list" where
  "offered C stack data =
     (case data of
        None \<Rightarrow> []
      | Some frame \<Rightarrow>
          (case unpack_data C stack frame of
             Inl e \<Rightarrow> [] | Inr messages \<Rightarrow> filter (\<lambda>msg. \<not> heartbeat_reply msg) messages))"

lemma ledger_listen:
  assumes "ledger n dc"
  shows "ledger (n + length (offered C stack data)) (snd (listen_frame C stack now data dc))"
proof (cases data)
  case None
  with assms show ?thesis by (simp add: listen_frame_def offered_def)
next
  case (Some frame)
  let ?m = "dc_metrics dc"
  have 1: "ledger n (dc\<lparr>dc_metrics := ?m\<lparr>dm_frames_received := a, dm_parse_errors := e\<rparr>\<rparr>)" for a e
    using assms by (simp add: ledger_def Let_def split: option.splits)
  have 2: "ledger n (dc\<lparr>dc_metrics := ?m\<lparr>dm_frames_received := a, dm_decoded_messages := d\<rparr>\<rparr>)" for a d
    using assms by (simp add: ledger_def Let_def split: option.splits)
  show ?thesis
    using 1 2 ledger_fold
    by (simp add: Some listen_frame_def offered_def Let_def split: sum.split)
qed

lemma ledger_process:
  assumes "ledger n dc"
  shows "ledger n (snd (process_one now dc))"
proof -
  from assms obtain b where b: "dc_msg_queue dc = Some b" and inv: "buffer_inv b"
    by (auto simp: ledger_def Let_def split: option.splits)
  show ?thesis
  proof (cases "buffer_get b")
    case (Waits b')
    then have "b' = b\<lparr>b_not_empty := False\<rparr>" "b_size b = 0" "buffer_contents b = []"
      using get_Waits_state [OF Waits] get_Waits_iff [OF inv] by auto
    moreover from this have "buffer_inv b'"
      using inv contents_cong [of b' b] by (auto simp: buffer_inv_def)
    ultimately show ?thesis
      using assms b Waits by (auto simp: ledger_def process_one_def qsize_def Let_def)
  next
    case (Delivers bm b')
    have inv': "buffer_inv b'" and "buffer_contents b = bm # buffer_contents b'" and cap: "b_maxsize b' = b_maxsize b"
      using get_Delivers_inv [OF inv Delivers] by simp_all
    then have "qsize b = qsize b' + 1" using inv by (simp add: buffer_inv_def qsize_def)
    then show ?thesis
      using assms b Delivers inv' cap by (auto simp: ledger_def process_one_def Let_def)
  next
    case (GetRaises e)
    with get_never_raises [OF inv, of e] show ?thesis by simp
  qed
qed

text \<open>What the listener and the consumer do with the queue, in any order.\<close>

datatype stream_event = Received "bytes option" rat | Dispatched rat

fun stream_step :: "codec \<Rightarrow> nat \<Rightarrow> stream_event \<Rightarrow> danmaku_client \<Rightarrow> danmaku_client" where
  "stream_step C stack (Received data now) dc = snd (listen_frame C stack now data dc)"
| "stream_step C stack (Dispatched now) dc = snd (process_one now dc)"

fun offered_by :: "codec \<Rightarrow> nat \<Rightarrow> stream_event \<Rightarrow> message list" where
  "offered_by C stack (Received data now) = offered C stack data"
| "offered_by C stack (Dispatched now) = []"

lemma ledger_stream:
  "ledger n dc \<Longrightarrow> ledger (n + length (concat (map (offered_by C stack) events))) (fold (stream_step C stack) events dc)"
proof (induction events arbitrary: n dc)
  case (Cons event events)
  have "ledger (n + length (offered_by C stack event)) (stream_step C stack event dc)"
    using Cons.prems ledger_listen ledger_process by (cases event) simp_all
  from Cons.IH [OF this] show ?case by (simp add: add.assoc)
qed simp

lemma ledger_reset: "reset_for_start token uid dc = Inr dc' \<Longrightarrow> ledger 0 dc'"
  by (auto simp: reset_for_start_def ledger_def Let_def new_metrics_def qsize_def buffer_inv_def buffer_contents_def
      new_buffer_def split: sum.splits if_splits)

subsection \<open>What the socket client promises\<close>

text \<open>
  C29. From the start of the connect loop on, whatever the network, the upstream and a concurrent
  \<open>stop()\<close> do: at most one socket is open, the object publishes a socket exactly while an
  authenticated session runs on it, endpoints are dialed in rotation and each dial is counted, and
  the number of consecutive failures never exceeds the limit.
\<close>

theorem connect_loop_invariant:
  assumes "ws_urls \<noteq> []" and "dc_ws dc = None" and "dc_fatal_error dc = None" and "dc_metrics dc = new_metrics"
    and "connection_reachable C stack (connect_loop dc ws_urls) s"
  shows "length (cn_open s) \<le> 1 \<and>
    (\<forall>ws. dc_ws (cn_client s) = Some ws \<longleftrightarrow> cn_phase s = InSession ws) \<and>
    (\<forall>ws. dc_ws (cn_client s) = Some ws \<longrightarrow> cn_open s = [ws]) \<and>
    cn_dialed s = map (\<lambda>i. ws_urls ! (i mod length ws_urls)) [0 ..< dm_connection_attempts (dc_metrics (cn_client s))] \<and>
    cn_attempts s \<le> dc_reconnect_max_attempts dc"
proof -
  have inv: "connection_inv ws_urls (dc_reconnect_max_attempts dc) s"
    using assms(5) connect_loop_inv [OF assms(1-4)] by (rule reachable_inv)
  then have "sockets_ok (cn_phase s) (cn_open s) (dc_ws (cn_client s))" by (simp add: connection_inv_def)
  then have "length (cn_open s) \<le> 1 \<and>
    (\<forall>ws. dc_ws (cn_client s) = Some ws \<longleftrightarrow> cn_phase s = InSession ws) \<and>
    (\<forall>ws. dc_ws (cn_client s) = Some ws \<longrightarrow> cn_open s = [ws])"
    by (cases "cn_phase s") auto
  with inv show ?thesis by (simp add: connection_inv_def rotation_def)
qed

lemma connect_loop_invariant_witness:
  "length (cn_open (connected 7 (connect_loop ((new_danmaku_client 6)\<lparr>dc_running := True\<rparr>) [''wss://a:443/sub'']))) \<le> 1"
proof -
  let ?dc = "(new_danmaku_client 6)\<lparr>dc_running := True\<rparr>"
  let ?s = "connect_loop ?dc [''wss://a:443/sub'']"
  have "cn_phase ?s = Connecting ''wss://a:443/sub'' \<and> cn_open ?s = []"
    by (simp add: connect_loop_def loop_top_def new_danmaku_client_def Let_def)
  then have "connection_reachable codec_witness 9 ?s (connected 7 ?s)"
    by (intro reachable_step Connects) simp_all
  from connect_loop_invariant [OF _ _ _ _ this] show ?thesis by (simp add: new_danmaku_client_def)
qed

text \<open>
  A rejected token is final: once \<open>_fatal_error\<close> is set the loop has ended, and no later step of
  the system dials again or publishes a socket.
\<close>

theorem fatal_rejection_is_final:
  assumes "ws_urls \<noteq> []" and "dc_ws dc = None" and "dc_fatal_error dc = None" and "dc_metrics dc = new_metrics"
    and "connection_reachable C stack (connect_loop dc ws_urls) s" and "dc_fatal_error (cn_client s) \<noteq> None"
    and "connection_reachable C stack s s'"
  shows "cn_phase s' = LoopEnded \<and> cn_dialed s' = cn_dialed s \<and> dc_ws (cn_client s') = None"
proof -
  have inv: "connection_inv ws_urls (dc_reconnect_max_attempts dc) s"
    using assms(5) connect_loop_inv [OF assms(1-4)] by (rule reachable_inv)
  then have "cn_phase s = LoopEnded" using assms(6) by (auto simp: connection_inv_def)
  then have "cn_phase s' = LoopEnded \<and> cn_dialed s' = cn_dialed s"
    by (rule ended_reachable [OF assms(7)])
  moreover have "connection_inv ws_urls (dc_reconnect_max_attempts dc) s'"
    using assms(7) inv by (rule reachable_inv)
  ultimately show ?thesis by (auto simp: connection_inv_def)
qed

text \<open>A codec whose only document is the refusal \<open>{"code": -101}\<close>, and the frame that carries it.\<close>

definition refusal_codec :: codec where
  "refusal_codec =
     \<lparr>loads = (\<lambda>p. if p = [45] then Loaded (JDict [(''code'', JInt (- 101))]) else DecodeError),
      zlib_decompress = (\<lambda>p. None), brotli_decompress = (\<lambda>p. None)\<rparr>"

definition refusal_frame :: frame where
  "refusal_frame = packed_frame [45] op_AUTH_RSP ver_RAW"

lemma refusal_outcome: "auth_outcome refusal_codec (Suc n) (AuthFrame (frame_bytes refusal_frame)) = (False, True)"
proof -
  have "frame_fits refusal_frame"
    by (simp add: frame_fits_def refusal_frame_def packed_frame_def protocol_constants)
  then have "unpack_data refusal_codec (Suc n) (concat (map frame_bytes [refusal_frame]) @ [])
      = collect_messages (map (frame_messages refusal_codec (unpack_data refusal_codec n)) [refusal_frame])"
    by (intro unpack_data_frames) (simp_all add: unreadable_def)
  also have "\<dots> = Inr [[(''code'', JInt (- 101))]]"
    by (simp add: refusal_frame_def frame_messages_packed decompress_def dispatch_packet_def parse_json_def
        refusal_codec_def protocol_constants)
  finally show ?thesis by (simp add: auth_outcome_def jget_def del: unpack_data.simps)
qed

lemma fatal_rejection_is_final_witness:
  "cn_dialed (stop_loop (authenticated refusal_codec 1 (AuthFrame (frame_bytes refusal_frame)) 7
     (connected 7 (connect_loop ((new_danmaku_client 6)\<lparr>dc_running := True\<rparr>) [''a''])))) = [''a'']"
proof -
  let ?dc = "(new_danmaku_client 6)\<lparr>dc_running := True\<rparr>"
  let ?init = "connect_loop ?dc [''a'']"
  let ?s = "authenticated refusal_codec 1 (AuthFrame (frame_bytes refusal_frame)) 7 (connected 7 ?init)"
  have top: "cn_phase ?init = Connecting ''a'' \<and> cn_open ?init = [] \<and> cn_dialed ?init = [''a'']"
    by (simp add: connect_loop_def loop_top_def new_danmaku_client_def Let_def)
  then have "connection_reachable refusal_codec 1 ?init (connected 7 ?init)"
    by (intro reachable_step Connects) simp_all
  then have "connection_reachable refusal_codec 1 ?init ?s"
    by (rule connection_reachable.Step) (rule AuthReply, simp add: connected_def)
  moreover have "connection_reachable refusal_codec 1 ?s (stop_loop ?s)"
    by (intro reachable_step Stops)
  moreover have "dc_fatal_error (cn_client ?s) \<noteq> None \<and> cn_dialed ?s = [''a'']"
    using refusal_outcome [of 0] top by (simp add: authenticated_def close_socket_def connected_def)
  ultimately show ?thesis
    using fatal_rejection_is_final [of "[''a'']" ?dc refusal_codec 1 ?s "stop_loop ?s"]
    by (simp add: new_danmaku_client_def)
qed

text \<open>
  C19. Against an upstream that accepts no connection the loop ends after exactly the configured
  number of dials, on rotating endpoints, having slept the scheduled delay after each, the last
  one of the schedule once it is used up. It ends with \<open>running\<close> still set and no error recorded.
\<close>

theorem connect_loop_gives_up:
  assumes "ws_urls \<noteq> []" and "dc_running dc" and "dc_fatal_error dc = None" and "dc_reconnect_delays dc \<noteq> []"
  shows "(let n = dc_reconnect_max_attempts dc; s = failing_run (2 * n) (connect_loop dc ws_urls) in
    cn_phase s = LoopEnded \<and>
    cn_dialed s = map (\<lambda>i. ws_urls ! (i mod length ws_urls)) [0 ..< n] \<and>
    cn_slept s = map (\<lambda>k. dc_reconnect_delays dc ! min (k - 1) (length (dc_reconnect_delays dc) - 1)) [1 ..< Suc n] \<and>
    dc_running (cn_client s) \<and> dc_fatal_error (cn_client s) = None)"
proof -
  let ?s = "\<lparr>cn_client = dc, cn_urls = ws_urls, cn_attempts = 0, cn_cursor = 0, cn_phase = LoopEnded,
               cn_open = [], cn_dialed = [], cn_slept = []\<rparr> :: connection"
  have "failed_times ws_urls dc 0 ?s"
    using assms by (simp add: failed_times_def rotation_def delays_slept_def)
  then obtain s' where s': "failed_times ws_urls dc (dc_reconnect_max_attempts dc) s'"
    and run: "failing_run (2 * dc_reconnect_max_attempts dc) (loop_top ?s) = s'\<lparr>cn_phase := LoopEnded\<rparr>"
    using failing_rounds [OF assms(4), of ws_urls 0 ?s] by auto
  have "connect_loop dc ws_urls = loop_top ?s" using assms(1) by (simp add: connect_loop_def)
  with s' run show ?thesis
    by (simp add: Let_def failed_times_def rotation_def delays_slept_def backoff_delay_def [abs_def] del: upt_Suc)
qed

lemma connect_loop_gives_up_witness:
  "cn_slept (failing_run 12 (connect_loop ((new_danmaku_client 6)\<lparr>dc_running := True\<rparr>) [''a'', ''b''])) = [1, 2, 4, 8, 16, 30]"
proof -
  let ?dc = "(new_danmaku_client 6)\<lparr>dc_running := True\<rparr>"
  have n: "dc_reconnect_max_attempts ?dc = 6" "dc_reconnect_delays ?dc = [1, 2, 4, 8, 16, 30]"
    by (simp_all add: new_danmaku_client_def)
  have "cn_slept (failing_run (2 * 6) (connect_loop ?dc [''a'', ''b'']))
      = map (\<lambda>k. [1, 2, 4, 8, 16, 30] ! min (k - 1) (length [1, 2, 4, 8, 16, 30 :: rat] - 1)) [1 ..< Suc 6]"
    using connect_loop_gives_up [of "[''a'', ''b'']" ?dc] unfolding Let_def n by (simp add: new_danmaku_client_def)
  then show ?thesis by (simp add: upt_rec)
qed



end
