(* ===== verification/Py_Float.thy ===== *)
theory Py_Float
  imports Py_Prelude "HOL-Library.Log_Nat"
begin

section \<open>Python floats read from text\<close>

text \<open>
  \<open>float(s)\<close> of a string: the decimal literals of Python with surrounding whitespace, an optional
  sign, single underscores between digits, an exponent, and the names of the infinities and of
  NaN, rounded to the nearest binary64 number, ties to even. \<open>None\<close> is \<open>ValueError\<close>.
\<close>

definition round_even :: "rat \<Rightarrow> int" where
  "round_even x =
     (let f = \<lfloor>x\<rfloor>; r = x - of_int f in
      if r < 1 / 2 then f else if r > 1 / 2 then f + 1 else if even f then f else f + 1)"

text \<open>A positive rational \<open>p / q\<close>: the exponent makes a significand of 53 bits, or is the least one.\<close>

definition nearest_double :: "nat \<Rightarrow> nat \<Rightarrow> pyfloat" where
  "nearest_double p q =
     (let x = of_nat p / of_nat q :: rat;
          k = int (floorlog 2 p) - int (floorlog 2 q) - 53;
          k' = (if x < 2 powi (k + 53) then k else k + 1);
          e = max k' (- 1074);
          m = round_even (x / 2 powi e)
      in if of_int m * 2 powi e \<ge> (2 :: rat) ^ 1024 then FInf False else FFin m e)"

definition negate_float :: "pyfloat \<Rightarrow> pyfloat" where
  "negate_float f = (case f of FFin m e \<Rightarrow> FFin (- m) e | FInf neg \<Rightarrow> FInf (\<not> neg) | FNaN \<Rightarrow> FNaN)"

text \<open>Digits with single underscores between them: the digits, or None.\<close>

fun underscored :: "string \<Rightarrow> string option" where
  "underscored [] = Some []"
| "underscored [c] = (if is_digit c then Some [c] else None)"
| "underscored (c # d # s) =
     (if \<not> is_digit c then None
      else if d = CHR ''_'' then (if s = [] then None else map_option ((#) c) (underscored s))
      else map_option ((#) c) (underscored (d # s)))"

definition split_at :: "(char \<Rightarrow> bool) \<Rightarrow> string \<Rightarrow> string \<times> string option" where
  "split_at p s =
     (takeWhile (\<lambda>c. \<not> p c) s, (case dropWhile (\<lambda>c. \<not> p c) s of [] \<Rightarrow> None | c # rest \<Rightarrow> Some rest))"

definition signed_int :: "string \<Rightarrow> int option" where
  "signed_int s =
     (let neg = (s \<noteq> [] \<and> hd s = CHR ''-'');
          ds = (if s \<noteq> [] \<and> (hd s = CHR ''-'' \<or> hd s = CHR ''+'') then tl s else s)
      in if ds = [] then None
         else map_option (\<lambda>d. if neg then - int (digits_value d) else int (digits_value d)) (underscored ds))"

text \<open>An unsigned decimal literal; the point may lack digits on one side only.\<close>

definition decimal_float :: "string \<Rightarrow> pyfloat option" where
  "decimal_float s =
     (let (mantissa, exponent) = split_at (\<lambda>c. c = CHR ''e'' \<or> c = CHR ''E'') s;
          (whole, fraction) = split_at (\<lambda>c. c = CHR ''.'') mantissa
      in case (underscored whole,
               (case fraction of None \<Rightarrow> Some [] | Some f \<Rightarrow> underscored f),
               (case exponent of None \<Rightarrow> Some 0 | Some x \<Rightarrow> signed_int x)) of
           (Some w, Some f, Some x) \<Rightarrow>
             (if w = [] \<and> f = [] then None
              else let n = digits_value (w @ f); e = x - int (length f) in
                if n = 0 then Some (FFin 0 0)
                else if 0 \<le> e then Some (nearest_double (n * 10 ^ nat e) 1)
                else Some (nearest_double n (10 ^ nat (- e))))
         | _ \<Rightarrow> None)"

definition float_of_string :: "string \<Rightarrow> pyfloat option" where
  "float_of_string s0 =
     (let s = py_strip s0;
          neg = (s \<noteq> [] \<and> hd s = CHR ''-'');
          u = (if s \<noteq> [] \<and> (hd s = CHR ''-'' \<or> hd s = CHR ''+'') then tl s else s);
          l = map lower_char u;
          r = (if l = ''inf'' \<or> l = ''infinity'' then Some (FInf False)
               else if l = ''nan'' then Some FNaN
               else decimal_float u)
      in map_option (\<lambda>f. if neg then negate_float f else f) r)"

end
