(* ===== verification/Room_Events.thy ===== *)
theory Room_Events
  imports Py_Float "HOL-Library.Word"
begin

section \<open>Typed events and their normalisation (\<open>room/events.py\<close>, \<open>room/session.py\<close>)\<close>

text \<open>
  The typed events of the bridge and the functions of \<open>RoomSession\<close> that build them from the raw
  dictionaries of the live socket. A function that can raise returns a sum; the only exceptions
  are those of \<open>int(x)\<close> on a float that is not finite.
\<close>

subsection \<open>Events\<close>

record medal =
  md_name :: string
  md_level :: int

record danmaku_event =
  de_uid :: int
  de_uname :: string
  de_text :: string
  de_ts :: int
  de_guard_level :: int
  de_medal :: "medal option"

record super_chat_event =
  sc_uid :: int
  sc_uname :: string
  sc_text :: string
  sc_price :: int
  sc_ts :: int
  sc_id :: string
  sc_end_ts :: int
  sc_duration :: int
  sc_guard_level :: int
  sc_medal :: "medal option"
  sc_background_color :: string
  sc_background_bottom_color :: string
  sc_background_price_color :: string
  sc_message_font_color :: string

datatype room_status = Connected | Disconnected | Reconnecting | ErrorStatus

datatype bridge_event =
    Danmaku danmaku_event
  | SuperChat super_chat_event
  | SuperChatDelete "string list"
  | RoomStatus room_status

subsection \<open>Coercions\<close>

text \<open>\<open>x if isinstance(x, int) else 0\<close> and its kin; a \<open>bool\<close> becomes 0 or 1 in the event.\<close>

definition int_or_zero :: "json \<Rightarrow> int" where
  "int_or_zero v = (case int_instance v of Some i \<Rightarrow> i | None \<Rightarrow> 0)"

definition text_or_empty :: "json \<Rightarrow> string" where
  "text_or_empty v = (case v of JStr s \<Rightarrow> s | _ \<Rightarrow> [])"

text \<open>\<open>RoomSession._as_int\<close>.\<close>

fun as_int :: "json \<Rightarrow> py_exn + int" where
  "as_int (JBool b) = Inr 0"
| "as_int (JInt i) = Inr i"
| "as_int (JFloat f) = int_of_float f"
| "as_int (JStr s) =
     (case float_of_string s of
        None \<Rightarrow> Inr 0
      | Some f \<Rightarrow> (case int_of_float f of Inl ValueError \<Rightarrow> Inr 0 | r \<Rightarrow> r))"
| "as_int _ = Inr 0"

fun as_id :: "json \<Rightarrow> string" where
  "as_id (JInt i) = str_int i"
| "as_id (JStr s) = s"
| "as_id _ = []"

definition is_hex :: "char \<Rightarrow> bool" where
  "is_hex c \<longleftrightarrow>
     (let n = (of_char c :: nat) in (48 \<le> n \<and> n \<le> 57) \<or> (97 \<le> n \<and> n \<le> 102) \<or> (65 \<le> n \<and> n \<le> 70))"

definition as_color :: "json \<Rightarrow> string" where
  "as_color v =
     (case v of
        JStr s \<Rightarrow> if s \<noteq> [] \<and> hd s = CHR ''#'' \<and> list_all is_hex (tl s) \<and> length s \<in> {7, 9} then s else []
      | _ \<Rightarrow> [])"

subsection \<open>Chat messages\<close>

definition MILLISECONDS_EPOCH_THRESHOLD :: int where
  "MILLISECONDS_EPOCH_THRESHOLD = 100000000000"

definition danmaku_ts :: "json \<Rightarrow> int" where
  "danmaku_ts head =
     (case head of
        JList h \<Rightarrow>
          (if 4 < length h then
             (case int_instance (h ! 4) of
                Some ts \<Rightarrow> if ts \<ge> MILLISECONDS_EPOCH_THRESHOLD then ts div 1000 else ts
              | None \<Rightarrow> 0)
           else 0)
      | _ \<Rightarrow> 0)"

definition danmaku_medal :: "json list \<Rightarrow> medal option" where
  "danmaku_medal info =
     (if 3 < length info \<and> truthy (info ! 3) then
        (case info ! 3 of
           JList (level # name # rest) \<Rightarrow> Some \<lparr>md_name = text_or_empty name, md_level = int_or_zero level\<rparr>
         | _ \<Rightarrow> None)
      else None)"

definition normalize_danmu :: "message \<Rightarrow> danmaku_event option" where
  "normalize_danmu raw =
     (case jget raw ''info'' of
        JList info \<Rightarrow>
          (if length info < 3 then None
           else case info ! 2 of
             JList (uid # uname # rest) \<Rightarrow>
               Some \<lparr>de_uid = int_or_zero uid, de_uname = text_or_empty uname,
                     de_text = text_or_empty (info ! 1), de_ts = danmaku_ts (info ! 0),
                     de_guard_level = (if 7 < length info then int_or_zero (info ! 7) else 0),
                     de_medal = danmaku_medal info\<rparr>
           | _ \<Rightarrow> None)
      | _ \<Rightarrow> None)"

subsection \<open>Paid messages\<close>

text \<open>\<open>x.get(k)\<close> guarded by \<open>isinstance(x, dict)\<close>.\<close>

definition opt_get :: "json \<Rightarrow> string \<Rightarrow> json" where
  "opt_get v k = (case v of JDict d \<Rightarrow> jget d k | _ \<Rightarrow> JNull)"

definition super_chat_uname :: "message \<Rightarrow> string" where
  "super_chat_uname data =
     (let a = text_or_empty (opt_get (jget data ''user_info'') ''uname'');
          base = opt_get (jget data ''uinfo'') ''base'';
          b = (if a = [] then text_or_empty (py_or (opt_get base ''name'') (opt_get base ''uname'')) else a)
      in if b = [] then text_or_empty (jget data ''uname'') else b)"

text \<open>The duration and the end: a message always ends after it starts.\<close>

definition super_chat_window :: "int \<Rightarrow> int \<Rightarrow> int \<Rightarrow> int \<times> int" where
  "super_chat_window ts duration end_ts =
     (let duration1 = (if duration \<le> 0 \<and> end_ts > ts then end_ts - ts else duration) in
      if end_ts \<le> ts then
        (let duration2 = (if duration1 > 0 then duration1 else 60) in (duration2, ts + duration2))
      else (duration1, end_ts))"

text \<open>\<open>f"{uid}:{ts}:{price}"\<close> stands in for a missing id.\<close>

definition super_chat_id :: "message \<Rightarrow> int \<Rightarrow> int \<Rightarrow> int \<Rightarrow> string" where
  "super_chat_id data uid ts price =
     (let i = as_id (py_or (jget data ''id'') (jget data ''message_id'')) in
      if i = [] then str_int uid @ '':'' @ str_int ts @ '':'' @ str_int price else i)"

definition super_chat_guard :: "message \<Rightarrow> py_exn + int" where
  "super_chat_guard data =
     bind_res (case jget data ''user_info'' of JDict u \<Rightarrow> as_int (jget u ''guard_level'') | _ \<Rightarrow> Inr 0) (\<lambda>a.
     bind_res (if a = 0 then as_int (jget data ''guard_level'') else Inr a) (\<lambda>b.
     if b = 0 then
       (case opt_get (jget data ''uinfo'') ''guard'' of JDict g \<Rightarrow> as_int (jget g ''level'') | _ \<Rightarrow> Inr b)
     else Inr b))"

definition named_medal :: "json \<Rightarrow> json \<Rightarrow> py_exn + medal option" where
  "named_medal name level =
     (case name of
        JStr (c # cs) \<Rightarrow> bind_res (as_int level) (\<lambda>n. Inr (Some \<lparr>md_name = c # cs, md_level = n\<rparr>))
      | _ \<Rightarrow> Inr None)"

definition super_chat_medal :: "message \<Rightarrow> py_exn + medal option" where
  "super_chat_medal data =
     bind_res
       (case jget data ''medal_info'' of
          JDict m \<Rightarrow>
            bind_res (as_int (jget m ''medal_level'')) (\<lambda>level.
            Inr (case jget m ''medal_name'' of
                   JStr (c # cs) \<Rightarrow> Some \<lparr>md_name = c # cs, md_level = level\<rparr>
                 | _ \<Rightarrow> None))
        | _ \<Rightarrow> Inr None) (\<lambda>legacy.
     bind_res
       (if legacy = None then
          (case opt_get (jget data ''uinfo'') ''medal'' of
             JDict m \<Rightarrow> named_medal (jget m ''name'') (jget m ''level'')
           | _ \<Rightarrow> Inr None)
        else Inr legacy) (\<lambda>modern.
     if modern = None then named_medal (jget data ''fans_medal_name'') (jget data ''fans_medal_level'')
     else Inr modern))"

definition normalize_super_chat :: "message \<Rightarrow> py_exn + super_chat_event option" where
  "normalize_super_chat raw =
     (case jget raw ''data'' of
        JDict data \<Rightarrow>
          bind_res (as_int (jget data ''uid'')) (\<lambda>uid.
          bind_res (as_int (py_or (jget data ''price'') (jget data ''rmb''))) (\<lambda>price.
          bind_res (as_int (py_or (jget data ''start_time'') (jget data ''ts''))) (\<lambda>ts.
          bind_res (as_int (jget data ''time'')) (\<lambda>time.
          bind_res (as_int (jget data ''end_time'')) (\<lambda>end_time.
          bind_res (super_chat_guard data) (\<lambda>guard_level.
          bind_res (super_chat_medal data) (\<lambda>medal.
          let (duration, end_ts) = super_chat_window ts time end_time in
          Inr (Some \<lparr>sc_uid = uid, sc_uname = super_chat_uname data, sc_text = text_or_empty (jget data ''message''),
                sc_price = price, sc_ts = ts, sc_id = super_chat_id data uid ts price, sc_end_ts = end_ts,
                sc_duration = duration, sc_guard_level = guard_level, sc_medal = medal,
                sc_background_color = as_color (jget data ''background_color''),
                sc_background_bottom_color = as_color (jget data ''background_bottom_color''),
                sc_background_price_color = as_color (jget data ''background_price_color''),
                sc_message_font_color = as_color (jget data ''message_font_color'')\<rparr>))))))))
      | _ \<Rightarrow> Inr None)"

definition normalize_super_chat_delete :: "message \<Rightarrow> string list option" where
  "normalize_super_chat_delete raw =
     (case jget raw ''data'' of
        JDict data \<Rightarrow>
          (case py_or (jget data ''ids'') (jget data ''message_ids'') of
             JList items \<Rightarrow>
               (let ids = filter (\<lambda>i. i \<noteq> []) (map as_id items) in if ids = [] then None else Some ids)
           | _ \<Rightarrow> None)
      | _ \<Rightarrow> None)"

subsection \<open>Dispatch on the command\<close>

definition normalize :: "message \<Rightarrow> py_exn + bridge_event option" where
  "normalize raw =
     (case jget raw ''cmd'' of
        JStr (c # cs) \<Rightarrow>
          (let cmd = before_char (CHR '':'') (c # cs) in
           if cmd = ''DANMU_MSG'' then Inr (map_option Danmaku (normalize_danmu raw))
           else if cmd = ''SUPER_CHAT_MESSAGE'' \<or> cmd = ''SUPER_CHAT_MESSAGE_JPN'' then
             bind_res (normalize_super_chat raw) (\<lambda>e. Inr (map_option SuperChat e))
           else if cmd = ''SUPER_CHAT_MESSAGE_DELETE'' then
             Inr (map_option SuperChatDelete (normalize_super_chat_delete raw))
           else Inr None)
      | _ \<Rightarrow> Inr None)"

end
