(* ===== verification/Room_Session.thy ===== *)
theory Room_Session
  imports Danmaku_Ws Room_Events
begin

section \<open>The active room (\<open>room/session.py\<close>)\<close>

text \<open>
  \<open>RoomSession\<close> owns at most one socket client, drops repeated chat messages by a ring of recent
  ids, and fans every typed event out to its callbacks. A callback has an identity \<open>'cb\<close>; calling
  it is the parameter \<open>invoke\<close>. \<open>start\<close>, the outcome of \<open>DanmakuClient(real_id).start()\<close>, is a
  parameter of \<open>connect\<close>: it is the client when it connects (None for False). What it may be is
  described by \<open>Danmaku_Ws\<close>.
\<close>

subsection \<open>State\<close>

record 'cb room_session =
  se_dedup_size :: int
  se_client :: "danmaku_client option"
  se_callbacks :: "'cb list"
  se_seen_ids :: "string list"
  se_seen_id_set :: "string set"
  se_initial_super_chats :: "super_chat_event list"
  se_room_id :: "int option"
  se_status :: room_status

definition new_session :: "int \<Rightarrow> 'cb room_session" where
  "new_session dedup_size =
     \<lparr>se_dedup_size = dedup_size, se_client = None, se_callbacks = [], se_seen_ids = [], se_seen_id_set = {},
      se_initial_super_chats = [], se_room_id = None, se_status = Disconnected\<rparr>"

definition add_callback :: "'cb \<Rightarrow> 'cb room_session \<Rightarrow> 'cb room_session" where
  "add_callback cb s = s\<lparr>se_callbacks := se_callbacks s @ [cb]\<rparr>"

definition remove_callback :: "'cb \<Rightarrow> 'cb room_session \<Rightarrow> 'cb room_session" where
  "remove_callback cb s = s\<lparr>se_callbacks := remove1 cb (se_callbacks s)\<rparr>"

subsection \<open>Fan-out\<close>

text \<open>The loop over the snapshot of the callbacks; what one raises is logged.\<close>

fun broadcast_to :: "('cb \<Rightarrow> 'm \<Rightarrow> 'w \<Rightarrow> (py_exn + unit) \<times> 'w) \<Rightarrow> 'cb list \<Rightarrow> 'm \<Rightarrow> 'w \<Rightarrow> 'w" where
  "broadcast_to invoke [] event w = w"
| "broadcast_to invoke (cb # cbs) event w =
     (case invoke cb event w of
        (Inl e, w') \<Rightarrow> broadcast_to invoke cbs event w'
      | (Inr _, w') \<Rightarrow> broadcast_to invoke cbs event w')"

interpretation session_fanout: isolating_fanout broadcast_to
  by unfold_locales (auto split: prod.split sum.split)

definition session_broadcast ::
    "('cb \<Rightarrow> bridge_event \<Rightarrow> 'w \<Rightarrow> (py_exn + unit) \<times> 'w) \<Rightarrow> bridge_event \<Rightarrow> 'cb room_session \<Rightarrow> 'w \<Rightarrow> 'w" where
  "session_broadcast invoke event s w = broadcast_to invoke (se_callbacks s) event w"

subsection \<open>Ingestion\<close>

text \<open>The ring of recent ids: whether the id is new, and the state with it recorded.\<close>

definition remember_id :: "string \<Rightarrow> 'cb room_session \<Rightarrow> bool \<times> 'cb room_session" where
  "remember_id msg_id s =
     (if msg_id \<in> se_seen_id_set s then (False, s)
      else if 0 < se_dedup_size s then
        (let s' = (if int (length (se_seen_ids s)) \<ge> se_dedup_size s then
                     s\<lparr>se_seen_ids := tl (se_seen_ids s),
                       se_seen_id_set := se_seen_id_set s - {hd (se_seen_ids s)}\<rparr>
                   else s)
         in (True, s'\<lparr>se_seen_ids := se_seen_ids s' @ [msg_id],
                      se_seen_id_set := insert msg_id (se_seen_id_set s')\<rparr>))
      else (True, s))"

text \<open>The event to broadcast for a raw message, if any.\<close>

definition ingest :: "message \<Rightarrow> 'cb room_session \<Rightarrow> py_exn + bridge_event option \<times> 'cb room_session" where
  "ingest raw s =
     (case normalize raw of
        Inl e \<Rightarrow> Inl e
      | Inr None \<Rightarrow> Inr (None, s)
      | Inr (Some (Danmaku e)) \<Rightarrow>
          (let msg_id = text_or_empty (jget raw ''dm_v2'') in
           if msg_id \<noteq> [] then
             (case remember_id msg_id s of (new, s') \<Rightarrow> Inr (if new then Some (Danmaku e) else None, s'))
           else Inr (Some (Danmaku e), s))
      | Inr (Some event) \<Rightarrow> Inr (Some event, s))"

definition on_raw_message ::
    "('cb \<Rightarrow> bridge_event \<Rightarrow> 'w \<Rightarrow> (py_exn + unit) \<times> 'w) \<Rightarrow> message \<Rightarrow> ('cb room_session \<times> 'w, py_exn, unit) io" where
  "on_raw_message invoke raw = (\<lambda>(s, w).
     case ingest raw s of
       Inl e \<Rightarrow> (Inl e, (s, w))
     | Inr (None, s') \<Rightarrow> (Inr (), (s', w))
     | Inr (Some event, s') \<Rightarrow> (Inr (), (s', session_broadcast invoke event s' w)))"

subsection \<open>Connecting\<close>

text \<open>\<open>RoomSession._resolve_room_id\<close> never raises.\<close>

definition session_resolve :: "'w env \<Rightarrow> int \<Rightarrow> ('w, int) client_io" where
  "session_resolve E room_id =
     catch_io
       (bind_io (get_room_init E (JInt room_id)) (\<lambda>data. return_io
          (case data of
             None \<Rightarrow> room_id
           | Some d \<Rightarrow>
               (case int_instance (jget d ''room_id'') of
                  Some resolved \<Rightarrow> if resolved \<noteq> 0 then resolved else room_id
                | None \<Rightarrow> room_id))))
       (\<lambda>e. return_io room_id)"

text \<open>The loop over the bootstrap payloads, which lies outside of the \<open>try\<close>.\<close>

fun bootstrap_events :: "rat \<Rightarrow> message list \<Rightarrow> py_exn + super_chat_event list" where
  "bootstrap_events now [] = Inr []"
| "bootstrap_events now (payload # payloads) =
     bind_res (normalize_super_chat [(''cmd'', JStr ''SUPER_CHAT_MESSAGE''), (''data'', JDict payload)]) (\<lambda>event.
     bind_res (bootstrap_events now payloads) (\<lambda>rest.
     Inr (case event of
            Some e \<Rightarrow> if sc_end_ts e > trunc_rat now then e # rest else rest
          | None \<Rightarrow> rest)))"

definition load_active_super_chats ::
    "'w env \<Rightarrow> (string \<Rightarrow> string) \<Rightarrow> int \<Rightarrow> ('w, super_chat_event list) client_io" where
  "load_active_super_chats E md5_hex room_id =
     bind_io
       (catch_io (bind_io (get_active_super_chats E md5_hex room_id) (\<lambda>p. return_io (Some p)))
          (\<lambda>e. return_io None)) (\<lambda>payloads.
     case payloads of
       None \<Rightarrow> return_io []
     | Some ps \<Rightarrow> (\<lambda>(c, w). (py_res (bootstrap_events (clock E w) ps), (c, w))))"

text \<open>
  \<open>connect\<close>: every suspension point of the coroutine is a call of a parameter or of the client, and
  the session is returned as it is when the coroutine returns or raises.
\<close>

definition connect ::
    "'w env \<Rightarrow> (string \<Rightarrow> string) \<Rightarrow> (int \<Rightarrow> ('w, danmaku_client option) client_io)
      \<Rightarrow> ('cb \<Rightarrow> bridge_event \<Rightarrow> bili_client \<times> 'w \<Rightarrow> (py_exn + unit) \<times> (bili_client \<times> 'w))
      \<Rightarrow> int \<Rightarrow> 'cb room_session \<Rightarrow> bili_client \<times> 'w
      \<Rightarrow> (exn + bool) \<times> 'cb room_session \<times> (bili_client \<times> 'w)" where
  "connect E md5_hex start invoke room_id s cw =
     (let s1 = s\<lparr>se_client := None\<rparr> in
      case session_resolve E room_id cw of
        (Inl e, cw1) \<Rightarrow> (Inl e, s1, cw1)
      | (Inr real_room_id, cw1) \<Rightarrow>
          (let s2 = s1\<lparr>se_client := Some (new_danmaku_client real_room_id)\<rparr> in
           case start real_room_id cw1 of
             (Inl e, cw2) \<Rightarrow> (Inl e, s2, cw2)
           | (Inr (Some client), cw2) \<Rightarrow>
               (let s3 = s2\<lparr>se_client := Some client, se_room_id := Some real_room_id, se_status := Connected\<rparr> in
                case load_active_super_chats E md5_hex real_room_id cw2 of
                  (Inl e, cw3) \<Rightarrow> (Inl e, s3, cw3)
                | (Inr scs, cw3) \<Rightarrow>
                    (let s4 = s3\<lparr>se_initial_super_chats := scs\<rparr> in
                     (Inr True, s4, session_broadcast invoke (RoomStatus Connected) s4 cw3)))
           | (Inr None, cw2) \<Rightarrow>
               (let s3 = s2\<lparr>se_room_id := None, se_client := None, se_initial_super_chats := [],
                             se_status := ErrorStatus\<rparr>
                in (Inr False, s3, session_broadcast invoke (RoomStatus ErrorStatus) s3 cw2))))"

definition disconnect ::
    "('cb \<Rightarrow> bridge_event \<Rightarrow> 'w \<Rightarrow> (py_exn + unit) \<times> 'w) \<Rightarrow> 'cb room_session \<Rightarrow> 'w \<Rightarrow> 'cb room_session \<times> 'w" where
  "disconnect invoke s w =
     (if se_client s = None then (s, w)
      else let s' = s\<lparr>se_client := None, se_status := Disconnected, se_seen_ids := [], se_seen_id_set := {},
                       se_initial_super_chats := [], se_room_id := None\<rparr>
        in (s', session_broadcast invoke (RoomStatus Disconnected) s' w))"

definition session_metrics :: "'cb room_session \<Rightarrow> (string \<times> metric) list" where
  "session_metrics s = (case se_client s of None \<Rightarrow> [] | Some dc \<Rightarrow> metrics_snapshot dc)"

subsection \<open>The ring of recent ids\<close>

text \<open>A stream of chat ids: those that are emitted, and the state after.\<close>

fun remember_all :: "string list \<Rightarrow> 'cb room_session \<Rightarrow> string list \<times> 'cb room_session" where
  "remember_all [] s = ([], s)"
| "remember_all (i # ids) s =
     (case remember_id i s of (new, s1) \<Rightarrow>
      case remember_all ids s1 of (emitted, s2) \<Rightarrow> (if new then i # emitted else emitted, s2))"

text \<open>The ring holds the last \<open>n\<close> of the ids \<open>past\<close> emitted so far.\<close>

definition ring_of :: "nat \<Rightarrow> string list \<Rightarrow> 'cb room_session \<Rightarrow> bool" where
  "ring_of n past s \<longleftrightarrow>
     se_dedup_size s = int n \<and> se_seen_ids s = drop (length past - n) past \<and>
     se_seen_id_set s = set (se_seen_ids s) \<and> distinct (se_seen_ids s)"

lemma remember_id_ring:
  assumes "ring_of n past s" and "0 < n" and "remember_id i s = (new, s')"
  shows "new \<longleftrightarrow> i \<notin> set (drop (length past - n) past)"
    and "ring_of n (if new then past @ [i] else past) s'"
    and "se_callbacks s' = se_callbacks s"
proof -
  let ?ring = "drop (length past - n) past"
  from assms(1) have ring: "se_seen_ids s = ?ring" "se_seen_id_set s = set ?ring" "distinct ?ring"
    and size: "se_dedup_size s = int n"
    by (auto simp: ring_of_def)
  show new: "new \<longleftrightarrow> i \<notin> set ?ring"
    using assms(2,3) ring size by (auto simp: remember_id_def Let_def split: if_splits)
  show "se_callbacks s' = se_callbacks s"
    using assms(2,3) by (auto simp: remember_id_def Let_def split: if_splits)
  show "ring_of n (if new then past @ [i] else past) s'"
  proof (cases new)
    case False
    then have "s' = s" using assms(2,3) size by (auto simp: remember_id_def Let_def split: if_splits)
    with False assms(1) show ?thesis by simp
  next
    case True
    have fresh: "i \<notin> set ?ring" using new True by simp
    show ?thesis
    proof (cases "length past \<ge> n")
      case full: True
      then have len: "int (length ?ring) \<ge> int n" by simp
      have s': "s' = s\<lparr>se_seen_ids := tl ?ring @ [i], se_seen_id_set := insert i (set ?ring - {hd ?ring})\<rparr>"
        using assms(2,3) fresh len unfolding remember_id_def ring size by simp
      obtain x xs where ring_Cons: "?ring = x # xs"
        using assms(2) full by (cases ?ring) auto
      have "drop (length (past @ [i]) - n) (past @ [i]) = tl ?ring @ [i]"
        using full assms(2) by (simp add: drop_Suc Suc_diff_le flip: tl_drop)
      moreover have "set ?ring - {hd ?ring} = set (tl ?ring)" and "distinct (tl ?ring)"
        using ring(3) unfolding ring_Cons by auto
      moreover have "i \<notin> set (tl ?ring)" using fresh unfolding ring_Cons by auto
      ultimately show ?thesis
        unfolding s' ring_of_def using True size by simp
    next
      case False
      then have "?ring = past" and len: "\<not> int (length ?ring) \<ge> int n" by simp_all
      have s': "s' = s\<lparr>se_seen_ids := ?ring @ [i], se_seen_id_set := insert i (set ?ring)\<rparr>"
        using assms(2,3) fresh len False unfolding remember_id_def ring size by (auto simp: Let_def ring)
      show ?thesis
        unfolding s' ring_of_def using True size False fresh ring(3) \<open>?ring = past\<close> by simp
    qed
  qed
qed

lemma remember_all_ring:
  assumes "0 < n"
  shows "ring_of n past s \<Longrightarrow> remember_all ids s = (emitted, s') \<Longrightarrow>
    ring_of n (past @ emitted) s' \<and> set emitted \<subseteq> set ids \<and> set ids \<subseteq> set (past @ emitted) \<and>
    (\<forall>j < length emitted. emitted ! j \<notin> set (drop (length past + j - n) (take (length past + j) (past @ emitted))))"
proof (induction ids arbitrary: past s emitted)
  case Nil
  then show ?case by simp
next
  case (Cons i ids)
  obtain new s1 where r1: "remember_id i s = (new, s1)" by force
  obtain em1 where r2: "remember_all ids s1 = (em1, s')" and em: "emitted = (if new then i # em1 else em1)"
    using Cons.prems(2) r1 by (auto split: prod.splits if_splits)
  note step = remember_id_ring [OF Cons.prems(1) assms r1]
  show ?case
  proof (cases new)
    case False
    then have "i \<in> set past" using step(1) by (auto dest: in_set_dropD)
    with Cons.IH [OF _ r2, of past] step(2) False em show ?thesis by auto
  next
    case True
    have IH: "ring_of n ((past @ [i]) @ em1) s' \<and> set em1 \<subseteq> set ids \<and> set ids \<subseteq> set ((past @ [i]) @ em1) \<and>
      (\<forall>j < length em1. em1 ! j \<notin> set (drop (length (past @ [i]) + j - n) (take (length (past @ [i]) + j) ((past @ [i]) @ em1))))"
      using step(2) True r2 by (intro Cons.IH) simp_all
    have "emitted ! j \<notin> set (drop (length past + j - n) (take (length past + j) (past @ emitted)))"
      if "j < length emitted" for j
    proof (cases j)
      case 0
      then show ?thesis using step(1) True em by simp
    next
      case (Suc k)
      then have "k < length em1" and "emitted ! j = em1 ! k" using that em True by simp_all
      with IH Suc em True show ?thesis by simp
    qed
    with IH em True show ?thesis by auto
  qed
qed

subsection \<open>Normalised paid messages\<close>

lemma super_chat_window_ends:
  "super_chat_window ts time end_time = (duration, end_ts) \<Longrightarrow> ts < end_ts \<and> 0 < duration"
  by (auto simp: super_chat_window_def Let_def split: if_splits)

lemma str_int_not_Nil [simp]: "str_int i \<noteq> []"
  by (simp add: str_int_def)

lemma super_chat_id_not_Nil: "super_chat_id data uid ts price \<noteq> []"
  by (simp add: super_chat_id_def Let_def)

lemma normalize_super_chat_event:
  assumes "normalize_super_chat raw = Inr (Some e)"
  shows "sc_ts e < sc_end_ts e \<and> 0 < sc_duration e \<and> sc_id e \<noteq> []"
proof -
  from assms obtain data where data: "jget raw ''data'' = JDict data"
    by (auto simp: normalize_super_chat_def split: json.splits)
  from assms obtain uid price ts time end_time guard med where e:
    "e = (let (duration, end_ts) = super_chat_window ts time end_time in
      \<lparr>sc_uid = uid, sc_uname = super_chat_uname data, sc_text = text_or_empty (jget data ''message''),
                sc_price = price, sc_ts = ts, sc_id = super_chat_id data uid ts price, sc_end_ts = end_ts,
                sc_duration = duration, sc_guard_level = guard, sc_medal = med,
                sc_background_color = as_color (jget data ''background_color''),
                sc_background_bottom_color = as_color (jget data ''background_bottom_color''),
                sc_background_price_color = as_color (jget data ''background_price_color''),
                sc_message_font_color = as_color (jget data ''message_font_color'')\<rparr>)"
    unfolding normalize_super_chat_def data by (auto simp: bind_res_Inr_iff case_prod_beta Let_def)
  obtain duration end_ts where w: "super_chat_window ts time end_time = (duration, end_ts)" by force
  from super_chat_window_ends [OF w] show ?thesis
    unfolding e w by (simp add: super_chat_id_not_Nil)
qed

lemma as_int_error: "as_int v = Inl e \<Longrightarrow> e = OverflowError \<or> e = ValueError"
  by (induction v rule: as_int.induct)
     (auto elim!: int_of_float.elims split: option.splits sum.splits py_exn.splits)

lemma normalize_error:
  assumes "normalize raw = Inl e"
  shows "(e = OverflowError \<or> e = ValueError) \<and>
    before_char (CHR '':'') (text_or_empty (jget raw ''cmd'')) \<in> {''SUPER_CHAT_MESSAGE'', ''SUPER_CHAT_MESSAGE_JPN''}"
proof -
  have medal: "named_medal a b = Inl e \<Longrightarrow> e = OverflowError \<or> e = ValueError" for a b
    by (auto simp: named_medal_def bind_res_Inl_iff split: json.splits list.splits dest: as_int_error)
  have "super_chat_medal d = Inl e \<Longrightarrow> e = OverflowError \<or> e = ValueError" for d
    by (auto simp: super_chat_medal_def bind_res_Inl_iff split: json.splits if_splits dest: as_int_error medal)
  moreover have "super_chat_guard d = Inl e \<Longrightarrow> e = OverflowError \<or> e = ValueError" for d
    by (cases "jget d ''user_info''"; cases "opt_get (jget d ''uinfo'') ''guard''")
       (auto simp: super_chat_guard_def bind_res_Inl_iff split: if_splits dest: as_int_error)
  ultimately have "normalize_super_chat r = Inl e \<Longrightarrow> e = OverflowError \<or> e = ValueError" for r
    by (auto simp: normalize_super_chat_def bind_res_Inl_iff case_prod_beta Let_def split: json.splits dest: as_int_error)
  then show ?thesis
    using assms
    by (auto simp: normalize_def bind_res_Inl_iff text_or_empty_def Let_def split: json.splits list.splits if_splits)
qed

subsection \<open>What the session promises\<close>

text \<open>
  C21. Repeated chat messages are dropped within the window: of a stream of ids handed to a fresh
  session every id is emitted at least once, an id is emitted again only after at least as many
  others as the ring holds, and the ring is always the last \<open>n\<close> emitted ids.
\<close>

theorem chat_ids_deduplicated:
  assumes "0 < n" and "remember_all ids (new_session (int n)) = (emitted, s)"
  shows "set emitted = set ids \<and>
    (\<forall>i j. i < j \<and> j < length emitted \<and> emitted ! i = emitted ! j \<longrightarrow> n < j - i) \<and>
    se_seen_ids s = drop (length emitted - n) emitted \<and> se_seen_id_set s = set (se_seen_ids s)"
proof -
  have "ring_of n [] (new_session (int n) :: 'a room_session)"
    by (simp add: ring_of_def new_session_def)
  then have *: "ring_of n emitted s \<and> set emitted \<subseteq> set ids \<and> set ids \<subseteq> set emitted \<and>
    (\<forall>j < length emitted. emitted ! j \<notin> set (drop (j - n) (take j emitted)))"
    using remember_all_ring [OF assms(1) _ assms(2), of "[]"] by simp
  have "n < j - i" if "i < j" "j < length emitted" "emitted ! i = emitted ! j" for i j
  proof (rule ccontr)
    assume "\<not> n < j - i"
    then have "drop (j - n) (take j emitted) ! (i - (j - n)) = emitted ! i" and "i - (j - n) < length (drop (j - n) (take j emitted))"
      using that by auto
    then have "emitted ! i \<in> set (drop (j - n) (take j emitted))" by (metis nth_mem)
    then show False using * that by simp
  qed
  with * show ?thesis by (auto simp: ring_of_def)
qed

lemma chat_ids_deduplicated_witness:
  "\<exists>emitted s. remember_all [''a'', ''a'', ''b'', ''a''] (new_session (int 2) :: nat room_session) = (emitted, s) \<and>
     set emitted = {''a'', ''b''}"
proof -
  obtain emitted s where r: "remember_all [''a'', ''a'', ''b'', ''a''] (new_session (int 2) :: nat room_session) = (emitted, s)"
    by force
  from chat_ids_deduplicated [OF _ r] have "set emitted = {''a'', ''b''}" by auto
  with r show ?thesis by blast
qed

text \<open>
  A raw message that normalises to a new event reaches every registered callback exactly once,
  in registration order, with that one event, whichever of the callbacks raise; the coroutine
  itself returns normally.
\<close>

theorem on_raw_message_reaches_every_callback:
  assumes "ingest raw s = Inr (Some event, s')"
    and "\<And>cb w. calls (snd (invoke cb event w)) = calls w @ [(cb, event)]"
  shows "fst (on_raw_message invoke raw (s, w)) = Inr () \<and>
    calls (snd (snd (on_raw_message invoke raw (s, w)))) = calls w @ map (\<lambda>cb. (cb, event)) (se_callbacks s')"
  using assms(1) session_fanout.dispatch_log [of calls invoke event, OF assms(2)]
  by (simp add: on_raw_message_def session_broadcast_def)

definition chat_witness :: message where
  "chat_witness =
     [(''cmd'', JStr ''DANMU_MSG:4:0:2:2:2:0''), (''dm_v2'', JStr ''id1''),
      (''info'', JList [JList [JInt 0, JInt 1, JInt 25, JInt 0, JInt 1700000000123],
                        JStr ''hi'', JList [JInt 42, JStr ''bob''], JList [JInt 21, JStr ''fan'']])]"

lemma ingest_chat_witness:
  "ingest chat_witness (new_session 5) =
     Inr (Some (Danmaku \<lparr>de_uid = 42, de_uname = ''bob'', de_text = ''hi'', de_ts = 1700000000, de_guard_level = 0,
       de_medal = Some \<lparr>md_name = ''fan'', md_level = 21\<rparr>\<rparr>),
       (new_session 5)\<lparr>se_seen_ids := [''id1''], se_seen_id_set := {''id1''}\<rparr>)"
  by (simp add: ingest_def chat_witness_def normalize_def jget_def before_char_def normalize_danmu_def
      text_or_empty_def int_or_zero_def danmaku_ts_def danmaku_medal_def MILLISECONDS_EPOCH_THRESHOLD_def
      remember_id_def new_session_def Let_def)

lemma on_raw_message_reaches_every_callback_witness:
  "fst (on_raw_message (logging_invoke (\<lambda>cb. cb = (1::nat))) chat_witness (new_session 5, [])) = Inr ()"
  using on_raw_message_reaches_every_callback
    [OF ingest_chat_witness, of "\<lambda>w. w" "logging_invoke (\<lambda>cb. cb = (1::nat))"] by simp

text \<open>
  Every paid message that is emitted has a non-empty id and ends after it starts, so that the
  replay of active paid messages can address it and drops it at a finite time, however partial or
  contradictory the times of the payload are.
\<close>

theorem paid_message_expires:
  assumes "ingest raw s = Inr (Some (SuperChat e), s')"
  shows "sc_ts e < sc_end_ts e \<and> 0 < sc_duration e \<and> sc_id e \<noteq> [] \<and> s' = s"
proof -
  have n: "normalize raw = Inr (Some (SuperChat e))" and "s' = s"
    using assms by (auto simp: ingest_def Let_def split: sum.splits option.splits bridge_event.splits if_splits prod.splits)
  from n have "normalize_super_chat raw = Inr (Some e)"
    by (auto simp: normalize_def bind_res_Inr_iff Let_def split: json.splits list.splits if_splits)
  from normalize_super_chat_event [OF this] \<open>s' = s\<close> show ?thesis by simp
qed

definition paid_witness :: message where
  "paid_witness = [(''cmd'', JStr ''SUPER_CHAT_MESSAGE''), (''data'', JDict [(''start_time'', JInt 9), (''end_time'', JInt 3)])]"

lemma paid_message_expires_witness:
  "\<exists>e s'. ingest paid_witness (new_session 5 :: nat room_session) = Inr (Some (SuperChat e), s') \<and> sc_ts e < sc_end_ts e"
proof -
  have "\<exists>e. ingest paid_witness (new_session 5 :: nat room_session) = Inr (Some (SuperChat e), new_session 5)"
    by (simp add: ingest_def paid_witness_def normalize_def before_char_def normalize_super_chat_def jget_def py_or_def
        super_chat_guard_def super_chat_medal_def opt_get_def named_medal_def super_chat_window_def Let_def)
  then show ?thesis using paid_message_expires by blast
qed

text \<open>
  Normalisation raises only for paid messages, and only the two exceptions of \<open>int\<close> on a float
  that is not finite; a price of \<open>1e999\<close> does raise \<open>OverflowError\<close> out of it.
\<close>

theorem normalize_raises_only_on_infinite_numbers:
  "(\<forall>raw e. normalize raw = Inl e \<longrightarrow>
      (e = OverflowError \<or> e = ValueError) \<and>
      before_char (CHR '':'') (text_or_empty (jget raw ''cmd'')) \<in> {''SUPER_CHAT_MESSAGE'', ''SUPER_CHAT_MESSAGE_JPN''}) \<and>
   normalize [(''cmd'', JStr ''SUPER_CHAT_MESSAGE''), (''data'', JDict [(''price'', JFloat (FInf False))])] = Inl OverflowError"
proof -
  have "normalize [(''cmd'', JStr ''SUPER_CHAT_MESSAGE''), (''data'', JDict [(''price'', JFloat (FInf False))])] = Inl OverflowError"
    by (simp add: normalize_def before_char_def normalize_super_chat_def jget_def py_or_def Let_def)
  then show ?thesis using normalize_error by blast
qed

lemma normalize_raises_only_on_infinite_numbers_witness:
  "(OverflowError = OverflowError \<or> OverflowError = ValueError) \<and>
   normalize [(''cmd'', JStr ''SUPER_CHAT_MESSAGE''), (''data'', JDict [(''price'', JFloat (FInf False))])] = Inl OverflowError"
  using normalize_raises_only_on_infinite_numbers by blast

text \<open>
  When the start of the new client raises, as it does on an expired login, \<open>connect\<close> leaves the
  session inconsistent: the previous client is gone, a client that never started is installed, and
  the published room and status are still those of the previous connection.
\<close>

theorem connect_raising_keeps_stale_status:
  assumes "session_resolve E room_id cw = (Inr real_room_id, cw1)" and "start real_room_id cw1 = (Inl e, cw2)"
  shows "connect E md5_hex start invoke room_id s cw =
    (Inl e, s\<lparr>se_client := Some (new_danmaku_client real_room_id)\<rparr>, cw2)"
  using assms by (simp add: connect_def Let_def)

lemma connect_raising_keeps_stale_status_witness:
  "se_status (fst (snd (connect (table_net (\<lambda>rq. ok_response [(''room_id'', JInt 60)])) id
     (\<lambda>r cw. (Inl (Bili (AuthExpiredError (SourceText ''auth expired''))), cw))
     (\<lambda>cb ev w. (Inr (), w)) 6
     ((new_session 5 :: nat room_session)\<lparr>se_room_id := Some 1, se_status := Connected\<rparr>) (client_witness, [])))) = Connected"
proof -
  let ?E = "table_net (\<lambda>rq. ok_response [(''room_id'', JInt 60)])"
  obtain cw1 where "session_resolve ?E 6 (client_witness, []) = (Inr 60, cw1)"
    by (simp add: session_resolve_def catch_io_def bind_io_def get_room_init_def get_data_def http_get_apply
        parse_body_def ok_response_def json_response_def extract_data_or_none_def body_code_def jget_def jget_default_def)
  note stale = connect_raising_keeps_stale_status
      [where start = "\<lambda>r cw. (Inl (Bili (AuthExpiredError (SourceText ''auth expired''))), cw)", OF this refl]
  show ?thesis by (simp add: stale)
qed

end
