(* ===== verification/Room_Bridge.thy ===== *)
theory Room_Bridge
  imports Room_Events Bounded_Buffer "HOL-Library.Sublist"
begin

section \<open>The bridge between the room and the browsers (\<open>room/bridge.py\<close>)\<close>

text \<open>
  \<open>RoomBridge\<close> keeps the last events and the active paid messages, and gives every browser
  (\<open>'ws\<close>) a bounded queue of its own with a sender task. \<open>register_ws\<close> creates a queue object and
  the task that reads it together, so the two are one \<open>channel\<close>; the dictionaries
  \<open>_client_queues\<close> and \<open>_sender_tasks\<close> hold references to channels, and a channel lives on after
  the dictionaries dropped it. The critical sections contain no suspension point: each is one
  function here, and the interleaving of the tasks is the relation \<open>bridge_run\<close>. The iteration
  order of the set of clients is the parameter \<open>order\<close>.
\<close>

subsection \<open>The wire format: \<open>model_dump\<close>\<close>

definition dump_medal :: "medal option \<Rightarrow> json" where
  "dump_medal md =
     (case md of None \<Rightarrow> JNull | Some x \<Rightarrow> JDict [(''name'', JStr (md_name x)), (''level'', JInt (md_level x))])"

fun status_text :: "room_status \<Rightarrow> string" where
  "status_text Connected = ''connected''"
| "status_text Disconnected = ''disconnected''"
| "status_text Reconnecting = ''reconnecting''"
| "status_text ErrorStatus = ''error''"

fun model_dump :: "bridge_event \<Rightarrow> message" where
  "model_dump (Danmaku e) =
     [(''type'', JStr ''danmaku''), (''uid'', JInt (de_uid e)), (''uname'', JStr (de_uname e)),
      (''text'', JStr (de_text e)), (''ts'', JInt (de_ts e)), (''guard_level'', JInt (de_guard_level e)),
      (''medal'', dump_medal (de_medal e))]"
| "model_dump (SuperChat e) =
     [(''type'', JStr ''sc''), (''uid'', JInt (sc_uid e)), (''uname'', JStr (sc_uname e)),
      (''text'', JStr (sc_text e)), (''price'', JInt (sc_price e)), (''ts'', JInt (sc_ts e)),
      (''id'', JStr (sc_id e)), (''end_ts'', JInt (sc_end_ts e)), (''duration'', JInt (sc_duration e)),
      (''guard_level'', JInt (sc_guard_level e)), (''medal'', dump_medal (sc_medal e)),
      (''background_color'', JStr (sc_background_color e)),
      (''background_bottom_color'', JStr (sc_background_bottom_color e)),
      (''background_price_color'', JStr (sc_background_price_color e)),
      (''message_font_color'', JStr (sc_message_font_color e))]"
| "model_dump (SuperChatDelete ids) = [(''type'', JStr ''sc_delete''), (''ids'', JList (map JStr ids))]"
| "model_dump (RoomStatus st) = [(''type'', JStr ''room_status''), (''status'', JStr (status_text st))]"

subsection \<open>Channels\<close>

definition MAX_HISTORY :: nat where "MAX_HISTORY = 100"
definition MAX_SNAPSHOT :: nat where "MAX_SNAPSHOT = 50"
definition CLIENT_QUEUE_MAXSIZE :: int where "CLIENT_QUEUE_MAXSIZE = 2000"

text \<open>
  A queue and its sender: what is queued (None is the sentinel that ends the sender), the payload
  whose \<open>send_json\<close> is pending, and, for the statements, what was sent completely.
\<close>

record 'ws channel =
  ch_ws :: 'ws
  ch_maxsize :: int
  ch_items :: "message option list"
  ch_sending :: "message option"
  ch_sent :: "message list"
  ch_done :: bool

text \<open>\<open>asyncio.Queue.put_nowait\<close> (None is \<open>QueueFull\<close>) and \<open>get_nowait\<close> (None is \<open>QueueEmpty\<close>).\<close>

definition queue_put :: "message option \<Rightarrow> 'ws channel \<Rightarrow> 'ws channel option" where
  "queue_put x ch =
     (if 0 < ch_maxsize ch \<and> ch_maxsize ch \<le> int (length (ch_items ch)) then None
      else Some (ch\<lparr>ch_items := ch_items ch @ [x]\<rparr>))"

definition queue_get :: "'ws channel \<Rightarrow> (message option \<times> 'ws channel) option" where
  "queue_get ch = (case ch_items ch of [] \<Rightarrow> None | x # xs \<Rightarrow> Some (x, ch\<lparr>ch_items := xs\<rparr>))"

text \<open>\<open>_signal_sender_stop\<close>: drain, then store the sentinel; a drained queue has room for it.\<close>

definition signal_stop :: "'ws channel \<Rightarrow> 'ws channel" where
  "signal_stop ch = (let drained = ch\<lparr>ch_items := []\<rparr> in
     case queue_put None drained of Some ch' \<Rightarrow> ch' | None \<Rightarrow> drained)"

subsection \<open>State\<close>

record bridge_metrics =
  bm_events_received :: nat
  bm_deliveries_enqueued :: nat
  bm_deliveries_sent :: nat
  bm_send_failures :: nat
  bm_slow_clients_dropped :: nat
  bm_client_queue_peak :: nat

record 'ws bridge =
  br_history :: "bridge_event list"
  br_active :: "(string \<times> super_chat_event) list"
  br_clients :: "'ws set"
  br_queues :: "('ws \<times> nat) list"
  br_senders :: "('ws \<times> nat) list"
  br_channels :: "nat \<Rightarrow> 'ws channel option"
  br_next :: nat
  br_cleanup :: "nat set"
  br_closes :: "'ws list" \<comment> \<open>the sockets \<open>close()\<close> was scheduled for\<close>
  br_queue_maxsize :: int
  br_closed :: bool
  br_metrics :: bridge_metrics

text \<open>\<open>__init__\<close>; None is the \<open>ValueError\<close>.\<close>

definition new_bridge :: "int \<Rightarrow> int \<Rightarrow> super_chat_event list \<Rightarrow> 'ws bridge option" where
  "new_bridge maxsize now initial_super_chats =
     (if maxsize \<le> 0 then None
      else Some
        \<lparr>br_history = [],
         br_active = fold (\<lambda>e d. AList.update (sc_id e) e d)
                       (filter (\<lambda>e. sc_id e \<noteq> [] \<and> sc_end_ts e > now) initial_super_chats) [],
         br_clients = {}, br_queues = [], br_senders = [], br_channels = Map.empty, br_next = 0,
         br_cleanup = {}, br_closes = [], br_queue_maxsize = maxsize, br_closed = False,
         br_metrics = \<lparr>bm_events_received = 0, bm_deliveries_enqueued = 0, bm_deliveries_sent = 0,
                       bm_send_failures = 0, bm_slow_clients_dropped = 0, bm_client_queue_peak = 0\<rparr>\<rparr>)"

definition update_channel :: "nat \<Rightarrow> ('ws channel \<Rightarrow> 'ws channel) \<Rightarrow> 'ws bridge \<Rightarrow> 'ws bridge" where
  "update_channel t f s = s\<lparr>br_channels := (br_channels s)(t := map_option f (br_channels s t))\<rparr>"

subsection \<open>Replay\<close>

text \<open>The last \<open>n\<close> items of a list, as a bounded \<open>deque\<close> and the slice \<open>[-n:]\<close> have them.\<close>

definition keep_last :: "nat \<Rightarrow> 'a list \<Rightarrow> 'a list" where
  "keep_last n xs = drop (length xs - n) xs"

definition history_snapshot :: "'ws bridge \<Rightarrow> bridge_event list" where
  "history_snapshot s = keep_last MAX_SNAPSHOT (br_history s)"

definition prune_expired_super_chats :: "int \<Rightarrow> 'ws bridge \<Rightarrow> 'ws bridge" where
  "prune_expired_super_chats now s =
     (let expired = map fst (filter (\<lambda>(i, e). sc_end_ts e \<le> now) (br_active s))
      in s\<lparr>br_active := fold AList.delete expired (br_active s)\<rparr>)"

definition active_super_chats :: "int \<Rightarrow> 'ws bridge \<Rightarrow> super_chat_event list" where
  "active_super_chats now s = dict_values (br_active (prune_expired_super_chats now s))"

definition history_sc_ids :: "bridge_event list \<Rightarrow> string list" where
  "history_sc_ids events =
     concat (map (\<lambda>ev. case ev of SuperChat e \<Rightarrow> if sc_id e \<noteq> [] then [sc_id e] else [] | _ \<Rightarrow> []) events)"

definition replay_snapshot :: "int \<Rightarrow> 'ws bridge \<Rightarrow> bridge_event list" where
  "replay_snapshot now s =
     (let history = history_snapshot s;
          pinned = filter (\<lambda>e. sc_id e \<notin> set (history_sc_ids history)) (active_super_chats now s)
      in map SuperChat pinned @ history)"

subsection \<open>Clients\<close>

text \<open>
  \<open>_detach_client\<close>: \<open>current\<close> is the sender task that runs it, if one does. The wait for the other
  sender to finish is not part of the step.
\<close>

definition detach_client :: "nat option \<Rightarrow> 'ws \<Rightarrow> 'ws bridge \<Rightarrow> 'ws bridge" where
  "detach_client current ws s =
     (let queue = map_of (br_queues s) ws; sender = map_of (br_senders s) ws;
          s' = s\<lparr>br_clients := br_clients s - {ws}, br_queues := AList.delete ws (br_queues s),
                 br_senders := AList.delete ws (br_senders s)\<rparr>
      in case sender of
           None \<Rightarrow> s'
         | Some t \<Rightarrow>
             (if current = Some t then s'
              else case queue of
                Some q \<Rightarrow> update_channel q signal_stop s'
              | None \<Rightarrow> update_channel t (\<lambda>ch. ch\<lparr>ch_done := True\<rparr>) s'))"

text \<open>
  \<open>register_ws\<close> after the wait for the previous registration; the queue is larger than the snapshot,
  so storing it cannot fail.
\<close>

definition register_ws :: "int \<Rightarrow> 'ws \<Rightarrow> 'ws bridge \<Rightarrow> 'ws bridge" where
  "register_ws now ws s =
     (if br_closed s then s
      else
        (let snapshot = replay_snapshot now s;
             queue_size = max (br_queue_maxsize s) (int (length snapshot) + 1);
             ch = \<lparr>ch_ws = ws, ch_maxsize = queue_size, ch_items = map (Some \<circ> model_dump) snapshot,
                   ch_sending = None, ch_sent = [], ch_done = False\<rparr>;
             t = br_next s; mt = br_metrics s
         in (prune_expired_super_chats now s)
             \<lparr>br_clients := insert ws (br_clients s), br_queues := AList.update ws t (br_queues s),
              br_senders := AList.update ws t (br_senders s), br_channels := (br_channels s)(t \<mapsto> ch),
              br_next := Suc t,
              br_metrics := mt\<lparr>bm_deliveries_enqueued := bm_deliveries_enqueued mt + length snapshot,
                               bm_client_queue_peak := max (bm_client_queue_peak mt) (length (ch_items ch))\<rparr>\<rparr>))"

subsection \<open>Events\<close>

text \<open>What an event does to the active paid messages.\<close>

fun track_active :: "int \<Rightarrow> bridge_event \<Rightarrow> (string \<times> super_chat_event) list \<Rightarrow> (string \<times> super_chat_event) list" where
  "track_active now (SuperChat e) active =
     (if sc_id e \<noteq> [] \<and> sc_end_ts e > now then AList.update (sc_id e) e active else active)"
| "track_active now (SuperChatDelete ids) active = fold AList.delete ids active"
| "track_active now _ active = active"

text \<open>
  The loop body of \<open>_on_event\<close> for one client: the bridge, and the clients found to be slow, with
  their queue and sender.
\<close>

type_synonym 'ws slow_client = "'ws \<times> nat option \<times> nat option"

definition offer ::
    "message \<Rightarrow> 'ws \<Rightarrow> 'ws bridge \<times> 'ws slow_client list \<Rightarrow> 'ws bridge \<times> 'ws slow_client list" where
  "offer payload ws = (\<lambda>(s, slow).
     case map_of (br_queues s) ws of
       None \<Rightarrow>
         (s\<lparr>br_senders := AList.delete ws (br_senders s), br_clients := br_clients s - {ws}\<rparr>,
          slow @ [(ws, None, map_of (br_senders s) ws)])
     | Some q \<Rightarrow>
         (case Option.bind (br_channels s q) (queue_put (Some payload)) of
            None \<Rightarrow>
              (s\<lparr>br_senders := AList.delete ws (br_senders s), br_clients := br_clients s - {ws},
                 br_queues := AList.delete ws (br_queues s)\<rparr>,
               slow @ [(ws, Some q, map_of (br_senders s) ws)])
          | Some ch \<Rightarrow>
              (let mt = br_metrics s in
               (s\<lparr>br_channels := (br_channels s)(q \<mapsto> ch),
                  br_metrics := mt\<lparr>bm_deliveries_enqueued := bm_deliveries_enqueued mt + 1,
                                   bm_client_queue_peak := max (bm_client_queue_peak mt) (length (ch_items ch))\<rparr>\<rparr>,
                slow))))"

text \<open>The loop over the slow clients: end the sender, schedule the close.\<close>

definition drop_slow :: "'ws slow_client \<Rightarrow> 'ws bridge \<Rightarrow> 'ws bridge" where
  "drop_slow = (\<lambda>(ws, queue, sender) s.
     let s1 = (case queue of
                 Some q \<Rightarrow> update_channel q signal_stop s
               | None \<Rightarrow> (case sender of
                            Some t \<Rightarrow> update_channel t (\<lambda>ch. ch\<lparr>ch_done := True\<rparr>) s
                          | None \<Rightarrow> s))
     in s1\<lparr>br_cleanup := br_cleanup s1 \<union> set_option sender, br_closes := br_closes s1 @ [ws]\<rparr>)"

definition record_event :: "int \<Rightarrow> bridge_event \<Rightarrow> 'ws bridge \<Rightarrow> 'ws bridge" where
  "record_event now event s =
     (let s1 = prune_expired_super_chats now
                 (s\<lparr>br_metrics := (br_metrics s)\<lparr>bm_events_received := bm_events_received (br_metrics s) + 1\<rparr>\<rparr>)
      in s1\<lparr>br_active := track_active now event (br_active s1),
            br_history := keep_last MAX_HISTORY (br_history s1 @ [event])\<rparr>)"

definition on_event :: "('ws set \<Rightarrow> 'ws list) \<Rightarrow> int \<Rightarrow> bridge_event \<Rightarrow> 'ws bridge \<Rightarrow> 'ws bridge" where
  "on_event order now event s =
     (let s1 = record_event now event s in
      case fold (offer (model_dump event)) (order (br_clients s1)) (s1, []) of
        (s2, slow) \<Rightarrow>
          fold drop_slow slow
            (s2\<lparr>br_metrics := (br_metrics s2)
                  \<lparr>bm_slow_clients_dropped := bm_slow_clients_dropped (br_metrics s2) + length slow\<rparr>\<rparr>))"

definition broadcast_status :: "('ws set \<Rightarrow> 'ws list) \<Rightarrow> int \<Rightarrow> room_status \<Rightarrow> 'ws bridge \<Rightarrow> 'ws bridge" where
  "broadcast_status order now st s = on_event order now (RoomStatus st) s"

subsection \<open>The sender task and \<open>close\<close>\<close>

text \<open>
  \<open>_client_sender\<close>, cut at its suspension points: it takes an item (the sentinel ends it), its
  \<open>send_json\<close> completes, or it fails or times out, which drops the client.
\<close>

definition finish_sender :: "nat \<Rightarrow> 'ws bridge \<Rightarrow> 'ws bridge" where
  "finish_sender t s =
     (update_channel t (\<lambda>ch. ch\<lparr>ch_sending := None, ch_done := True\<rparr>) s)\<lparr>br_cleanup := br_cleanup s - {t}\<rparr>"

definition sender_takes :: "nat \<Rightarrow> 'ws bridge \<Rightarrow> 'ws bridge" where
  "sender_takes t s =
     (case Option.bind (br_channels s t) queue_get of
        None \<Rightarrow> s
      | Some (None, ch) \<Rightarrow> finish_sender t (s\<lparr>br_channels := (br_channels s)(t \<mapsto> ch)\<rparr>)
      | Some (Some p, ch) \<Rightarrow> s\<lparr>br_channels := (br_channels s)(t \<mapsto> ch\<lparr>ch_sending := Some p\<rparr>)\<rparr>)"

definition sender_sent :: "nat \<Rightarrow> 'ws bridge \<Rightarrow> 'ws bridge" where
  "sender_sent t s =
     (update_channel t
        (\<lambda>ch. ch\<lparr>ch_sent := ch_sent ch @ (case ch_sending ch of Some p \<Rightarrow> [p] | None \<Rightarrow> []), ch_sending := None\<rparr>) s)
        \<lparr>br_metrics := (br_metrics s)\<lparr>bm_deliveries_sent := bm_deliveries_sent (br_metrics s) + 1\<rparr>\<rparr>"

definition sender_fails :: "nat \<Rightarrow> 'ws \<Rightarrow> 'ws bridge \<Rightarrow> 'ws bridge" where
  "sender_fails t ws s =
     (let s1 = s\<lparr>br_metrics := (br_metrics s)\<lparr>bm_send_failures := bm_send_failures (br_metrics s) + 1\<rparr>\<rparr>;
          s2 = detach_client (Some t) ws s1
      in finish_sender t (s2\<lparr>br_closes := br_closes s2 @ [ws]\<rparr>))"

text \<open>\<open>close\<close>, up to the waits for the tasks.\<close>

definition close_bridge :: "('ws set \<Rightarrow> 'ws list) \<Rightarrow> 'ws bridge \<Rightarrow> 'ws bridge" where
  "close_bridge order s =
     (if br_closed s then s
      else
        (let s1 = s\<lparr>br_closed := True, br_clients := {}, br_queues := [], br_senders := []\<rparr>;
             s2 = fold (\<lambda>q. update_channel q signal_stop) (dict_values (br_queues s)) s1
         in s2\<lparr>br_closes := br_closes s2 @ order (br_clients s)\<rparr>))"

definition bridge_metrics_snapshot :: "'ws bridge \<Rightarrow> (string \<times> nat) list" where
  "bridge_metrics_snapshot s =
     (let mt = br_metrics s in
      [(''events_received'', bm_events_received mt), (''deliveries_enqueued'', bm_deliveries_enqueued mt),
       (''deliveries_sent'', bm_deliveries_sent mt), (''send_failures'', bm_send_failures mt),
       (''slow_clients_dropped'', bm_slow_clients_dropped mt), (''client_queue_peak'', bm_client_queue_peak mt),
       (''client_count'', card (br_clients s))])"

subsection \<open>Interleavings\<close>

text \<open>The steps of the tasks that are not the room's callback.\<close>

inductive bridge_step :: "('ws set \<Rightarrow> 'ws list) \<Rightarrow> 'ws bridge \<Rightarrow> 'ws bridge \<Rightarrow> bool" for order where
  Leaves: "bridge_step order s (detach_client None ws s)"
| Takes: "br_channels s t = Some ch \<Longrightarrow> \<not> ch_done ch \<Longrightarrow> ch_sending ch = None \<Longrightarrow> bridge_step order s (sender_takes t s)"
| Sends: "br_channels s t = Some ch \<Longrightarrow> \<not> ch_done ch \<Longrightarrow> ch_sending ch \<noteq> None \<Longrightarrow> bridge_step order s (sender_sent t s)"
| SendFails: "br_channels s t = Some ch \<Longrightarrow> \<not> ch_done ch \<Longrightarrow> ch_sending ch \<noteq> None \<Longrightarrow>
    bridge_step order s (sender_fails t (ch_ws ch) s)"
| Closes: "bridge_step order s (close_bridge order s)"

text \<open>A run: the clock, the events handled so far, and the state.\<close>

inductive bridge_run ::
    "('ws set \<Rightarrow> 'ws list) \<Rightarrow> 'ws bridge \<Rightarrow> int \<Rightarrow> bridge_event list \<Rightarrow> 'ws bridge \<Rightarrow> bool" for order s0 where
  Start: "bridge_run order s0 now [] s0"
| Event: "bridge_run order s0 now es s \<Longrightarrow> now \<le> now' \<Longrightarrow> bridge_run order s0 now' (es @ [e]) (on_event order now' e s)"
| Joins: "bridge_run order s0 now es s \<Longrightarrow> now \<le> now' \<Longrightarrow> bridge_run order s0 now' es (register_ws now' ws s)"
| Task: "bridge_run order s0 now es s \<Longrightarrow> bridge_step order s s' \<Longrightarrow> bridge_run order s0 now es s'"

inductive_cases bridge_stepE: "bridge_step order s s'"

subsection \<open>The well-formed bridge\<close>

definition valid_order :: "('ws set \<Rightarrow> 'ws list) \<Rightarrow> bool" where
  "valid_order order \<longleftrightarrow> (\<forall>A. finite A \<longrightarrow> set (order A) = A \<and> distinct (order A))"

definition full :: "'ws channel \<Rightarrow> bool" where
  "full ch \<longleftrightarrow> 0 < ch_maxsize ch \<and> ch_maxsize ch \<le> int (length (ch_items ch))"

text \<open>A channel that is registered: its client can be offered events.\<close>

definition registered :: "'ws bridge \<Rightarrow> nat \<Rightarrow> 'ws channel \<Rightarrow> bool" where
  "registered s t ch \<longleftrightarrow> map_of (br_queues s) (ch_ws ch) = Some t"

definition channel_ok :: "'ws channel \<Rightarrow> bool" where
  "channel_ok ch \<longleftrightarrow> 1 \<le> ch_maxsize ch \<and> int (length (ch_items ch)) \<le> ch_maxsize ch \<and>
     (None \<in> set (ch_items ch) \<longrightarrow> ch_items ch = [None])"

definition bridge_ok :: "'ws bridge \<Rightarrow> bool" where
  "bridge_ok s \<longleftrightarrow>
     wf_dict (br_queues s) \<and> wf_dict (br_senders s) \<and> wf_dict (br_active s) \<and>
     map_of (br_senders s) = map_of (br_queues s) \<and> br_clients s = dom (map_of (br_queues s)) \<and>
     length (br_history s) \<le> MAX_HISTORY \<and> 0 < br_queue_maxsize s \<and>
     (\<forall>ws t. map_of (br_queues s) ws = Some t \<longrightarrow>
        (\<exists>ch. br_channels s t = Some ch \<and> ch_ws ch = ws \<and> \<not> ch_done ch \<and> None \<notin> set (ch_items ch))) \<and>
     (\<forall>t ch. br_channels s t = Some ch \<longrightarrow> t < br_next s \<and> channel_ok ch)"

lemma bridge_ok_registered:
  "bridge_ok s \<Longrightarrow> map_of (br_queues s) ws = Some t \<Longrightarrow>
   \<exists>ch. br_channels s t = Some ch \<and> ch_ws ch = ws \<and> \<not> ch_done ch \<and> None \<notin> set (ch_items ch)"
  by (simp add: bridge_ok_def)

lemma bridge_ok_channel: "bridge_ok s \<Longrightarrow> br_channels s t = Some ch \<Longrightarrow> t < br_next s \<and> channel_ok ch"
  by (simp add: bridge_ok_def)

lemma queue_put_full: "queue_put x ch = (if full ch then None else Some (ch\<lparr>ch_items := ch_items ch @ [x]\<rparr>))"
  by (simp add: queue_put_def full_def)

lemma signal_stop_eq: "signal_stop ch = ch\<lparr>ch_items := [None]\<rparr>"
  by (simp add: signal_stop_def Let_def queue_put_def)

lemma update_channel_simps [simp]:
  "br_channels (update_channel t f s) = (br_channels s)(t := map_option f (br_channels s t))"
  "br_history (update_channel t f s) = br_history s" "br_active (update_channel t f s) = br_active s"
  "br_clients (update_channel t f s) = br_clients s" "br_queues (update_channel t f s) = br_queues s"
  "br_senders (update_channel t f s) = br_senders s" "br_next (update_channel t f s) = br_next s"
  "br_queue_maxsize (update_channel t f s) = br_queue_maxsize s" "br_closed (update_channel t f s) = br_closed s"
  "br_closes (update_channel t f s) = br_closes s" "br_metrics (update_channel t f s) = br_metrics s"
  "br_cleanup (update_channel t f s) = br_cleanup s"
  by (simp_all add: update_channel_def)

lemma prune_simps [simp]:
  "br_channels (prune_expired_super_chats now s) = br_channels s" "br_history (prune_expired_super_chats now s) = br_history s"
  "br_clients (prune_expired_super_chats now s) = br_clients s" "br_queues (prune_expired_super_chats now s) = br_queues s"
  "br_senders (prune_expired_super_chats now s) = br_senders s" "br_next (prune_expired_super_chats now s) = br_next s"
  "br_queue_maxsize (prune_expired_super_chats now s) = br_queue_maxsize s"
  "br_closed (prune_expired_super_chats now s) = br_closed s" "br_closes (prune_expired_super_chats now s) = br_closes s"
  "br_metrics (prune_expired_super_chats now s) = br_metrics s"
  by (simp_all add: prune_expired_super_chats_def Let_def)

lemma record_event_simps [simp]:
  "br_channels (record_event now e s) = br_channels s" "br_clients (record_event now e s) = br_clients s"
  "br_queues (record_event now e s) = br_queues s" "br_senders (record_event now e s) = br_senders s"
  "br_next (record_event now e s) = br_next s" "br_queue_maxsize (record_event now e s) = br_queue_maxsize s"
  "br_closed (record_event now e s) = br_closed s" "br_closes (record_event now e s) = br_closes s"
  "br_history (record_event now e s) = keep_last MAX_HISTORY (br_history s @ [e])"
  "br_active (record_event now e s) = track_active now e (br_active (prune_expired_super_chats now s))"
  by (simp_all add: record_event_def Let_def prune_expired_super_chats_def)

subsection \<open>One event at all clients\<close>

definition lagging :: "'ws bridge \<Rightarrow> 'ws \<Rightarrow> bool" where
  "lagging s ws \<longleftrightarrow>
     (case Option.bind (map_of (br_queues s) ws) (br_channels s) of Some ch \<Rightarrow> full ch | None \<Rightarrow> True)"

definition offered :: "message \<Rightarrow> 'ws set \<Rightarrow> 'ws bridge \<Rightarrow> nat \<Rightarrow> 'ws channel option" where
  "offered p A s t = map_option
     (\<lambda>ch. if registered s t ch \<and> ch_ws ch \<in> A \<and> \<not> full ch then ch\<lparr>ch_items := ch_items ch @ [Some p]\<rparr> else ch)
     (br_channels s t)"

text \<open>The fields no client loop touches.\<close>

definition same_core :: "'ws bridge \<Rightarrow> 'ws bridge \<Rightarrow> bool" where
  "same_core s s' \<longleftrightarrow> br_history s' = br_history s \<and> br_active s' = br_active s \<and> br_next s' = br_next s \<and>
     br_queue_maxsize s' = br_queue_maxsize s \<and> br_closed s' = br_closed s"

definition has_channels :: "'ws bridge \<Rightarrow> 'ws set \<Rightarrow> bool" where
  "has_channels s A \<longleftrightarrow> (\<forall>ws\<in>A. \<exists>t ch. map_of (br_queues s) ws = Some t \<and> br_channels s t = Some ch \<and> ch_ws ch = ws)"

lemma offer_one:
  assumes "map_of (br_queues s) ws = Some t" and "br_channels s t = Some ch" and "ch_ws ch = ws"
  shows "offer p ws (s, slow) =
    (if full ch then
       (s\<lparr>br_senders := AList.delete ws (br_senders s), br_clients := br_clients s - {ws},
          br_queues := AList.delete ws (br_queues s)\<rparr>, slow @ [(ws, Some t, map_of (br_senders s) ws)])
     else
       (s\<lparr>br_channels := offered p {ws} s,
          br_metrics := (br_metrics s)
            \<lparr>bm_deliveries_enqueued := bm_deliveries_enqueued (br_metrics s) + 1,
             bm_client_queue_peak := max (bm_client_queue_peak (br_metrics s)) (Suc (length (ch_items ch)))\<rparr>\<rparr>, slow))"
proof -
  have "(br_channels s)(t \<mapsto> ch\<lparr>ch_items := ch_items ch @ [Some p]\<rparr>) = offered p {ws} s" if "\<not> full ch"
    using assms that by (auto simp: offered_def registered_def fun_eq_iff map_option_case split: option.split)
  then show ?thesis
    using assms by (simp add: offer_def queue_put_full Let_def)
qed

lemma offer_all:
  assumes "distinct L" and "has_channels s (set L)" and "fold (offer p) L (s, slow) = (s', slow')"
  shows "br_channels s' = offered p (set L) s
    \<and> (\<forall>ws. map_of (br_queues s') ws = (if ws \<in> set L \<and> lagging s ws then None else map_of (br_queues s) ws))
    \<and> (\<forall>ws. map_of (br_senders s') ws = (if ws \<in> set L \<and> lagging s ws then None else map_of (br_senders s) ws))
    \<and> br_clients s' = br_clients s - {ws \<in> set L. lagging s ws}
    \<and> slow' = slow @ map (\<lambda>ws. (ws, map_of (br_queues s) ws, map_of (br_senders s) ws)) (filter (lagging s) L)
    \<and> same_core s s' \<and> (wf_dict (br_queues s) \<longrightarrow> wf_dict (br_queues s')) \<and> (wf_dict (br_senders s) \<longrightarrow> wf_dict (br_senders s'))
    \<and> br_closes s' = br_closes s"
  using assms
proof (induction L arbitrary: s slow)
  case Nil
  have "offered p {} s = br_channels s" by (simp add: offered_def fun_eq_iff option.map_ident)
  with Nil show ?case by (simp add: same_core_def)
next
  case (Cons ws L)
  from Cons.prems(2) obtain t ch where reg: "map_of (br_queues s) ws = Some t" "br_channels s t = Some ch" "ch_ws ch = ws"
    by (auto simp: has_channels_def)
  obtain s1 slow1 where one: "offer p ws (s, slow) = (s1, slow1)" by (metis surj_pair)
  with Cons.prems(3) have rest: "fold (offer p) L (s1, slow1) = (s', slow')" by simp
  have fresh: "ws \<notin> set L" and dist: "distinct L" using Cons.prems(1) by auto
  have lag: "lagging s ws = full ch" using reg by (simp add: lagging_def)
  have others: "map_of (br_queues s1) w = map_of (br_queues s) w \<and> map_of (br_senders s1) w = map_of (br_senders s) w
      \<and> lagging s1 w = lagging s w" if "w \<in> set L" for w
  proof -
    from Cons.prems(2) that obtain t' ch' where w: "map_of (br_queues s) w = Some t'" "br_channels s t' = Some ch'" "ch_ws ch' = w"
      by (auto simp: has_channels_def)
    with reg fresh that have "t' \<noteq> t" "w \<noteq> ws" by auto
    with w reg one show ?thesis
      by (auto simp: offer_one [OF reg] lagging_def offered_def registered_def split: if_splits)
  qed
  have chans: "has_channels s1 (set L)"
    unfolding has_channels_def
  proof
    fix w assume w: "w \<in> set L"
    from Cons.prems(2) w obtain t' ch' where w': "map_of (br_queues s) w = Some t'" "br_channels s t' = Some ch'" "ch_ws ch' = w"
      by (auto simp: has_channels_def)
    have "\<exists>ch. br_channels s1 t' = Some ch \<and> ch_ws ch = w"
      using one w' by (auto simp: offer_one [OF reg] offered_def split: if_splits)
    with others [OF w] w' show "\<exists>t ch. map_of (br_queues s1) w = Some t \<and> br_channels s1 t = Some ch \<and> ch_ws ch = w"
      by auto
  qed
  note IH = Cons.IH [OF dist chans rest]
  have filt: "filter (lagging s1) L = filter (lagging s) L" using others by (auto intro: filter_cong)
  have same: "{w \<in> set L. lagging s1 w} = {w \<in> set L. lagging s w}" using others by auto
  have q1: "br_queues s1 = (if full ch then AList.delete ws (br_queues s) else br_queues s)"
    and c1: "br_channels s1 = (if full ch then br_channels s else offered p {ws} s)"
    using one by (auto simp: offer_one [OF reg] split: if_splits)
  have off: "offered p (set L) s1 = offered p (set (ws # L)) s"
  proof
    fix t'
    show "offered p (set L) s1 t' = offered p (set (ws # L)) s t'"
    proof (cases "br_channels s t'")
      case None
      then show ?thesis by (simp add: c1 offered_def)
    next
      case (Some c)
      then have "registered s t' c \<Longrightarrow> ch_ws c = ws \<Longrightarrow> c = ch" using reg by (simp add: registered_def)
      then show ?thesis
        using Some fresh by (cases "full ch"; cases "ch_ws c = ws"; cases "registered s t' c")
          (simp_all add: q1 c1 offered_def registered_def)
    qed
  qed
  have rest1: "br_senders s1 = (if full ch then AList.delete ws (br_senders s) else br_senders s)"
    "br_clients s1 = (if full ch then br_clients s - {ws} else br_clients s)" "br_closes s1 = br_closes s"
    "slow1 = (if full ch then slow @ [(ws, Some t, map_of (br_senders s) ws)] else slow)" "same_core s s1"
    using one by (auto simp: offer_one [OF reg] same_core_def split: if_splits)
  have lags: "w \<in> set L \<Longrightarrow> lagging s1 w = lagging s w" for w using others by blast
  have "map_of (br_queues s') w = (if w \<in> set (ws # L) \<and> lagging s w then None else map_of (br_queues s) w)" for w
    using IH lag fresh by (cases "w = ws") (auto simp: q1 lags)
  moreover have "map_of (br_senders s') w = (if w \<in> set (ws # L) \<and> lagging s w then None else map_of (br_senders s) w)" for w
    using IH lag fresh by (cases "w = ws") (auto simp: rest1 lags)
  moreover have "br_clients s' = br_clients s - {w \<in> set (ws # L). lagging s w}"
    using IH same lag by (auto simp: rest1)
  moreover have "map (\<lambda>w. (w, map_of (br_queues s1) w, map_of (br_senders s1) w)) (filter (lagging s) L)
      = map (\<lambda>w. (w, map_of (br_queues s) w, map_of (br_senders s) w)) (filter (lagging s) L)"
    using others by (intro map_cong) auto
  then have "slow' = slow @ map (\<lambda>w. (w, map_of (br_queues s) w, map_of (br_senders s) w)) (filter (lagging s) (ws # L))"
    using IH filt lag reg rest1(4) by simp
  moreover have "same_core s s'" using IH rest1(5) by (simp add: same_core_def)
  moreover have "wf_dict (br_queues s) \<longrightarrow> wf_dict (br_queues s')" and "wf_dict (br_senders s) \<longrightarrow> wf_dict (br_senders s')"
    using IH by (simp_all add: q1 rest1)
  moreover have "br_closes s' = br_closes s" using IH rest1(3) by simp
  ultimately show ?case using IH off by simp
qed

lemma drop_all:
  assumes "\<forall>x\<in>set slow. fst (snd x) \<noteq> None" and "fold drop_slow slow s = s'"
  shows "br_channels s' = (\<lambda>t. if \<exists>x\<in>set slow. fst (snd x) = Some t then map_option signal_stop (br_channels s t) else br_channels s t)
    \<and> br_queues s' = br_queues s \<and> br_senders s' = br_senders s \<and> br_clients s' = br_clients s \<and> same_core s s'
    \<and> br_closes s' = br_closes s @ map fst slow"
  using assms
proof (induction slow arbitrary: s)
  case Nil
  then show ?case by (simp add: same_core_def)
next
  case (Cons x slow)
  obtain ws q sender where x: "x = (ws, q, sender)" by (metis surj_pair)
  with Cons.prems(1) obtain t where q: "q = Some t" by auto
  have "map_option signal_stop (map_option signal_stop c) = map_option signal_stop c" for c :: "'a channel option"
    by (cases c) (simp_all add: signal_stop_eq)
  moreover have "fold drop_slow slow (drop_slow x s) = s'" using Cons.prems(2) by simp
  note IH = Cons.IH [OF _ this]
  ultimately show ?case
    using IH Cons.prems(1) by (auto simp: x q drop_slow_def same_core_def fun_eq_iff)
qed

definition after_event :: "bridge_event \<Rightarrow> 'ws bridge \<Rightarrow> nat \<Rightarrow> 'ws channel \<Rightarrow> 'ws channel" where
  "after_event e s t ch =
     (if \<not> registered s t ch then ch else if full ch then signal_stop ch
      else ch\<lparr>ch_items := ch_items ch @ [Some (model_dump e)]\<rparr>)"

lemma on_event_effect:
  assumes ok: "bridge_ok s" and order: "valid_order order" and s': "on_event order now e s = s'"
  shows "br_channels s' = (\<lambda>t. map_option (after_event e s t) (br_channels s t))"
    and "map_of (br_queues s') = (\<lambda>ws. if lagging s ws then None else map_of (br_queues s) ws)"
    and "map_of (br_senders s') = map_of (br_queues s')"
    and "br_clients s' = {ws \<in> br_clients s. \<not> lagging s ws}"
    and "same_core (record_event now e s) s'"
    and "wf_dict (br_queues s') \<and> wf_dict (br_senders s')"
    and "set (br_closes s') = set (br_closes s) \<union> {ws \<in> br_clients s. lagging s ws}"
proof -
  let ?s1 = "record_event now e s" and ?L = "order (br_clients s)"
  have fin: "finite (br_clients s)" using ok by (simp add: bridge_ok_def finite_dom_map_of)
  then have L: "set ?L = br_clients s" "distinct ?L" using order by (auto simp: valid_order_def)
  have clients: "ws \<in> br_clients s \<longleftrightarrow> map_of (br_queues s) ws \<noteq> None" for ws using ok by (auto simp: bridge_ok_def)
  have chans: "has_channels ?s1 (set ?L)"
    unfolding has_channels_def
  proof
    fix ws assume "ws \<in> set ?L"
    then obtain t where t: "map_of (br_queues s) ws = Some t" using clients [of ws] by (auto simp: L)
    from bridge_ok_registered [OF ok t] t
    show "\<exists>t ch. map_of (br_queues ?s1) ws = Some t \<and> br_channels ?s1 t = Some ch \<and> ch_ws ch = ws" by auto
  qed
  have lag: "lagging ?s1 = lagging s" by (simp add: lagging_def fun_eq_iff)
  obtain s2 slow where f: "fold (offer (model_dump e)) ?L (?s1, []) = (s2, slow)" by (metis surj_pair)
  note off = offer_all [OF L(2) chans f]
  let ?s3 = "s2\<lparr>br_metrics := (br_metrics s2)\<lparr>bm_slow_clients_dropped := bm_slow_clients_dropped (br_metrics s2) + length slow\<rparr>\<rparr>"
  have slow: "slow = map (\<lambda>ws. (ws, map_of (br_queues s) ws, map_of (br_senders s) ws)) (filter (lagging s) ?L)"
    using off by (simp add: lag)
  have all: "\<forall>x\<in>set slow. fst (snd x) \<noteq> None" using clients by (auto simp: slow L)
  have "fold drop_slow slow ?s3 = s'" using s' f by (simp add: on_event_def Let_def)
  note dr = drop_all [OF all this]
  have hit: "(\<exists>x\<in>set slow. fst (snd x) = Some t) \<longleftrightarrow> registered s t ch \<and> full ch" if "br_channels s t = Some ch" for t ch
    using that clients bridge_ok_registered [OF ok] by (fastforce simp: slow L registered_def lagging_def)
  show "br_channels s' = (\<lambda>t. map_option (after_event e s t) (br_channels s t))"
  proof
    fix t
    show "br_channels s' t = map_option (after_event e s t) (br_channels s t)"
    proof (cases "br_channels s t")
      case None
      then show ?thesis using dr off by (simp add: offered_def)
    next
      case (Some ch)
      have "registered s t ch \<Longrightarrow> ch_ws ch \<in> br_clients s" using clients by (simp add: registered_def)
      moreover have "registered ?s1 t ch = registered s t ch" by (simp add: registered_def)
      ultimately show ?thesis
        using Some dr off hit [OF Some] by (auto simp: offered_def after_event_def L)
    qed
  qed
  show q: "map_of (br_queues s') = (\<lambda>ws. if lagging s ws then None else map_of (br_queues s) ws)"
    using dr off clients by (auto simp: fun_eq_iff L lag)
  have "map_of (br_senders s) = map_of (br_queues s)" using ok by (simp add: bridge_ok_def)
  then show "map_of (br_senders s') = map_of (br_queues s')"
    using dr off by (simp add: fun_eq_iff)
  show "br_clients s' = {ws \<in> br_clients s. \<not> lagging s ws}"
    using dr off by (auto simp: L lag)
  show "same_core ?s1 s'" using dr off by (simp add: same_core_def)
  show "wf_dict (br_queues s') \<and> wf_dict (br_senders s')"
    using dr off ok by (simp add: bridge_ok_def)
  show "set (br_closes s') = set (br_closes s) \<union> {ws \<in> br_clients s. lagging s ws}"
    using dr off by (auto simp: slow L)
qed

lemma wf_prune: "wf_dict (br_active s) \<Longrightarrow> wf_dict (br_active (prune_expired_super_chats now s))"
  by (simp add: prune_expired_super_chats_def Let_def wf_fold_delete)

lemma wf_track_active: "wf_dict a \<Longrightarrow> wf_dict (track_active now e a)"
  by (induction now e a rule: track_active.induct) (simp_all add: wf_fold_delete)

lemma length_keep_last [simp]: "length (keep_last n xs) = min n (length xs)"
  by (simp add: keep_last_def)

lemma channel_ok_after_event:
  assumes "channel_ok ch" and "registered s t ch \<Longrightarrow> None \<notin> set (ch_items ch)"
  shows "channel_ok (after_event e s t ch)"
  using assms by (auto simp: channel_ok_def after_event_def signal_stop_eq full_def)

lemma bridge_ok_on_event:
  assumes ok: "bridge_ok s" and order: "valid_order order"
  shows "bridge_ok (on_event order now e s)"
proof -
  note eff = on_event_effect [OF ok order refl, of now e]
  let ?s' = "on_event order now e s"
  have reg: "registered s t ch \<Longrightarrow> br_channels s t = Some ch \<Longrightarrow> None \<notin> set (ch_items ch)" for t ch
    using bridge_ok_registered [OF ok] by (fastforce simp: registered_def)
  have "br_clients s = dom (map_of (br_queues s))" using ok by (simp add: bridge_ok_def)
  then have "br_clients ?s' = dom (map_of (br_queues ?s'))" by (auto simp: eff(2,4) split: if_splits)
  moreover have "\<exists>ch. br_channels ?s' t = Some ch \<and> ch_ws ch = ws \<and> \<not> ch_done ch \<and> None \<notin> set (ch_items ch)"
    if "map_of (br_queues ?s') ws = Some t" for ws t
  proof -
    from that have notlag: "\<not> lagging s ws" and q: "map_of (br_queues s) ws = Some t" by (auto simp: eff(2) split: if_splits)
    from bridge_ok_registered [OF ok q] obtain ch where
      ch: "br_channels s t = Some ch" "ch_ws ch = ws" "\<not> ch_done ch" "None \<notin> set (ch_items ch)" by auto
    with notlag q have "\<not> full ch" by (simp add: lagging_def)
    with ch q show ?thesis by (simp add: eff(1) after_event_def registered_def)
  qed
  moreover have "t < br_next ?s' \<and> channel_ok ch'" if "br_channels ?s' t = Some ch'" for t ch'
  proof -
    from that obtain ch where ch: "br_channels s t = Some ch" and ch': "ch' = after_event e s t ch" by (auto simp: eff(1))
    with bridge_ok_channel [OF ok ch] reg [of t ch] eff(5) show ?thesis
      by (auto simp: same_core_def intro: channel_ok_after_event)
  qed
  ultimately show ?thesis
    using eff(3,5,6) ok unfolding bridge_ok_def by (auto simp: same_core_def wf_track_active wf_prune)
qed

subsection \<open>The other steps keep the bridge well formed\<close>

lemma bridge_ok_bookkeeping [simp]:
  "bridge_ok (s\<lparr>br_metrics := mt\<rparr>) = bridge_ok s" "bridge_ok (s\<lparr>br_cleanup := c\<rparr>) = bridge_ok s"
  "bridge_ok (s\<lparr>br_closes := cs\<rparr>) = bridge_ok s" "bridge_ok (s\<lparr>br_closed := b\<rparr>) = bridge_ok s"
  by (simp_all add: bridge_ok_def)

lemma bridge_ok_set_channel:
  assumes "bridge_ok s" and "br_channels s t = Some ch" and "channel_ok ch'" and "ch_ws ch' = ch_ws ch"
    and "registered s t ch \<Longrightarrow> \<not> ch_done ch' \<and> None \<notin> set (ch_items ch')"
  shows "bridge_ok (s\<lparr>br_channels := (br_channels s)(t \<mapsto> ch')\<rparr>)"
proof -
  have "\<exists>c. ((br_channels s)(t \<mapsto> ch')) q = Some c \<and> ch_ws c = ws \<and> \<not> ch_done c \<and> None \<notin> set (ch_items c)"
    if "map_of (br_queues s) ws = Some q" for ws q
    using bridge_ok_registered [OF assms(1) that] that assms by (auto simp: registered_def)
  then show ?thesis
    using assms by (simp add: bridge_ok_def)
qed

lemma bridge_ok_forget:
  assumes "bridge_ok s"
  shows "bridge_ok (s\<lparr>br_clients := br_clients s - {ws}, br_queues := AList.delete ws (br_queues s),
                     br_senders := AList.delete ws (br_senders s)\<rparr>)"
  using assms by (auto simp: bridge_ok_def)

lemma channel_ok_signal_stop [simp]: "channel_ok ch \<Longrightarrow> channel_ok (signal_stop ch)"
  by (simp add: channel_ok_def signal_stop_eq)

lemma bridge_ok_update_unregistered:
  assumes "bridge_ok s" and "\<And>ch. br_channels s t = Some ch \<Longrightarrow> \<not> registered s t ch"
    and "\<And>ch. channel_ok ch \<Longrightarrow> channel_ok (f ch)" and "\<And>ch. ch_ws (f ch) = ch_ws ch"
  shows "bridge_ok (update_channel t f s)"
proof (cases "br_channels s t")
  case None
  then have "update_channel t f s = s" by (simp add: update_channel_def fun_upd_idem)
  with assms(1) show ?thesis by simp
next
  case (Some ch)
  have "bridge_ok (s\<lparr>br_channels := (br_channels s)(t \<mapsto> f ch)\<rparr>)"
    using bridge_ok_channel [OF assms(1) Some] assms(2) [OF Some]
    by (intro bridge_ok_set_channel [OF assms(1) Some]) (simp_all add: assms(3,4))
  then show ?thesis by (simp add: update_channel_def Some)
qed

lemma detach_cases:
  assumes "bridge_ok s"
  shows "detach_client current ws s =
    (let s' = s\<lparr>br_clients := br_clients s - {ws}, br_queues := AList.delete ws (br_queues s),
                br_senders := AList.delete ws (br_senders s)\<rparr>
     in case map_of (br_queues s) ws of
          None \<Rightarrow> s'
        | Some t \<Rightarrow> if current = Some t then s' else update_channel t signal_stop s')"
  using assms by (simp add: detach_client_def bridge_ok_def Let_def split: option.split)

lemma bridge_ok_detach:
  assumes "bridge_ok s"
  shows "bridge_ok (detach_client current ws s)"
proof -
  let ?s' = "s\<lparr>br_clients := br_clients s - {ws}, br_queues := AList.delete ws (br_queues s),
                br_senders := AList.delete ws (br_senders s)\<rparr>"
  have "bridge_ok (update_channel t signal_stop ?s')" if "map_of (br_queues s) ws = Some t" for t
    using bridge_ok_registered [OF assms that]
    by (intro bridge_ok_update_unregistered bridge_ok_forget assms) (auto simp: registered_def signal_stop_eq channel_ok_def)
  then show ?thesis
    using bridge_ok_forget [OF assms] by (simp add: detach_cases [OF assms] Let_def split: option.split)
qed

lemma not_registered_after_detach:
  assumes "bridge_ok s" and "br_channels (detach_client current (ch_ws ch) s) t = Some ch'" and "br_channels s t = Some ch"
  shows "\<not> registered (detach_client current (ch_ws ch) s) t ch'"
  using assms by (auto simp: detach_cases [OF assms(1)] Let_def registered_def signal_stop_eq split: option.splits if_splits)

lemma bridge_ok_finish:
  assumes "bridge_ok s" and "\<And>ch. br_channels s t = Some ch \<Longrightarrow> \<not> registered s t ch"
  shows "bridge_ok (finish_sender t s)"
proof -
  have "bridge_ok (update_channel t (\<lambda>ch. ch\<lparr>ch_sending := None, ch_done := True\<rparr>) s)"
    by (rule bridge_ok_update_unregistered) (use assms in \<open>simp_all add: channel_ok_def\<close>)
  then show ?thesis by (simp add: finish_sender_def)
qed

lemma bridge_ok_sender_fails:
  assumes "bridge_ok s" and "br_channels s t = Some ch"
  shows "bridge_ok (sender_fails t (ch_ws ch) s)"
proof -
  let ?s1 = "s\<lparr>br_metrics := (br_metrics s)\<lparr>bm_send_failures := bm_send_failures (br_metrics s) + 1\<rparr>\<rparr>"
  have ok1: "bridge_ok ?s1" using assms(1) by simp
  have "\<not> registered (detach_client (Some t) (ch_ws ch) ?s1) t c"
    if "br_channels (detach_client (Some t) (ch_ws ch) ?s1) t = Some c" for c
    using not_registered_after_detach [OF ok1 that] assms(2) by simp
  then show ?thesis
    unfolding sender_fails_def Let_def
    using bridge_ok_detach [OF ok1] by (intro bridge_ok_finish) (simp_all add: registered_def)
qed

lemma bridge_ok_sender_takes:
  assumes ok: "bridge_ok s" and ch: "br_channels s t = Some ch" and live: "\<not> ch_done ch"
  shows "bridge_ok (sender_takes t s)"
proof (cases "ch_items ch")
  case Nil
  with ch ok show ?thesis by (simp add: sender_takes_def queue_get_def)
next
  case (Cons x xs)
  have okch: "channel_ok ch" using bridge_ok_channel [OF ok ch] by simp
  have reg: "registered s t ch \<Longrightarrow> None \<notin> set (ch_items ch)"
    using bridge_ok_registered [OF ok] ch by (fastforce simp: registered_def)
  show ?thesis
  proof (cases x)
    case None
    have "xs = []" using okch Cons None by (simp add: channel_ok_def)
    let ?s1 = "s\<lparr>br_channels := (br_channels s)(t \<mapsto> ch\<lparr>ch_items := xs\<rparr>)\<rparr>"
    have "\<not> registered s t ch" using reg Cons None by auto
    then have "bridge_ok ?s1" "\<not> registered ?s1 t (ch\<lparr>ch_items := xs\<rparr>)"
      using ok ch okch \<open>xs = []\<close> by (auto simp: channel_ok_def registered_def intro!: bridge_ok_set_channel)
    then have "bridge_ok (finish_sender t ?s1)" by (intro bridge_ok_finish) auto
    then show ?thesis using ch Cons None by (simp add: sender_takes_def queue_get_def)
  next
    case (Some p)
    have "bridge_ok (s\<lparr>br_channels := (br_channels s)(t \<mapsto> ch\<lparr>ch_items := xs, ch_sending := Some p\<rparr>)\<rparr>)"
      using okch Cons Some reg live by (intro bridge_ok_set_channel [OF ok ch]) (auto simp: channel_ok_def)
    then show ?thesis using ch Cons Some by (simp add: sender_takes_def queue_get_def)
  qed
qed

lemma bridge_ok_sender_sent:
  assumes ok: "bridge_ok s" and ch: "br_channels s t = Some ch" and live: "\<not> ch_done ch"
  shows "bridge_ok (sender_sent t s)"
proof -
  have "registered s t ch \<Longrightarrow> None \<notin> set (ch_items ch)"
    using bridge_ok_registered [OF ok] ch by (fastforce simp: registered_def)
  with bridge_ok_channel [OF ok ch] live show ?thesis
    by (auto simp: sender_sent_def update_channel_def ch channel_ok_def intro!: bridge_ok_set_channel [OF ok ch])
qed

lemma bridge_ok_register:
  assumes "bridge_ok s"
  shows "bridge_ok (register_ws now ws s)"
proof (cases "br_closed s")
  case True
  with assms show ?thesis by (simp add: register_ws_def)
next
  case False
  have fresh: "br_channels s t = Some ch \<Longrightarrow> t < br_next s" for t ch using bridge_ok_channel [OF assms] by blast
  have "br_clients s = dom (map_of (br_queues s))" using assms by (simp add: bridge_ok_def)
  moreover have "t < br_next s" if "map_of (br_queues s) w = Some t" for w t
    using bridge_ok_registered [OF assms that] fresh by auto
  then have "map_of (br_queues s) w \<noteq> Some (br_next s)" for w by fastforce
  ultimately show ?thesis
    using assms False fresh
    by (auto simp: register_ws_def bridge_ok_def Let_def wf_prune channel_ok_def less_Suc_eq)
qed

lemma fold_update_channel:
  "fold (\<lambda>q. update_channel q signal_stop) qs s =
     s\<lparr>br_channels := (\<lambda>t. if t \<in> set qs then map_option signal_stop (br_channels s t) else br_channels s t)\<rparr>"
proof (induction qs arbitrary: s)
  case Nil
  show ?case by simp
next
  case (Cons q qs)
  have "map_option signal_stop (map_option signal_stop c) = map_option signal_stop c" for c :: "'a channel option"
    by (cases c) (simp_all add: signal_stop_eq)
  then have "(\<lambda>t. if t \<in> set qs then map_option signal_stop (br_channels (update_channel q signal_stop s) t)
        else br_channels (update_channel q signal_stop s) t)
      = (\<lambda>t. if t \<in> set (q # qs) then map_option signal_stop (br_channels s t) else br_channels s t)"
    by (simp add: fun_eq_iff)
  moreover have "fold (\<lambda>q. update_channel q signal_stop) (q # qs) s =
      fold (\<lambda>q. update_channel q signal_stop) qs (update_channel q signal_stop s)" by simp
  ultimately show ?case
    unfolding Cons.IH by (simp only:) (simp add: update_channel_def)
qed

lemma close_bridge_eq:
  "close_bridge order s =
     (if br_closed s then s
      else s\<lparr>br_closed := True, br_clients := {}, br_queues := [], br_senders := [],
             br_channels := (\<lambda>t. if t \<in> snd ` set (br_queues s) then map_option signal_stop (br_channels s t) else br_channels s t),
             br_closes := br_closes s @ order (br_clients s)\<rparr>)"
  by (simp add: close_bridge_def Let_def fold_update_channel dict_values_def cong: if_cong)

lemma bridge_ok_close:
  assumes "bridge_ok s"
  shows "bridge_ok (close_bridge order s)"
  using assms by (auto simp: close_bridge_eq bridge_ok_def)

lemma bridge_ok_step: "bridge_step order s s' \<Longrightarrow> bridge_ok s \<Longrightarrow> bridge_ok s'"
  by (induction rule: bridge_step.induct)
     (simp_all add: bridge_ok_detach bridge_ok_sender_takes bridge_ok_sender_sent bridge_ok_sender_fails bridge_ok_close)

lemma bridge_ok_new: "new_bridge maxsize now scs = Some s \<Longrightarrow> bridge_ok s"
proof -
  have "wf_dict (fold (\<lambda>e d. AList.update (sc_id e) e d) es d)" if "wf_dict d" for es and d :: "(string \<times> super_chat_event) list"
    using that by (induction es arbitrary: d) simp_all
  then show "new_bridge maxsize now scs = Some s \<Longrightarrow> bridge_ok s"
    by (auto simp: new_bridge_def bridge_ok_def split: if_splits)
qed

lemma bridge_ok_run: "bridge_run order s0 now es s \<Longrightarrow> bridge_ok s0 \<Longrightarrow> valid_order order \<Longrightarrow> bridge_ok s"
  by (induction rule: bridge_run.induct)
     (simp_all add: bridge_ok_on_event bridge_ok_register bridge_ok_step)

subsection \<open>What a client is sent\<close>

text \<open>What was sent, and what still will be as long as the sender lives.\<close>

fun before_sentinel :: "message option list \<Rightarrow> message list" where
  "before_sentinel [] = []"
| "before_sentinel (None # xs) = []"
| "before_sentinel (Some p # xs) = p # before_sentinel xs"

lemma before_sentinel_append: "None \<notin> set xs \<Longrightarrow> before_sentinel (xs @ ys) = before_sentinel xs @ before_sentinel ys"
  by (induction xs rule: before_sentinel.induct) auto

lemma before_sentinel_map_Some [simp]: "before_sentinel (map (Some \<circ> f) xs) = map f xs"
  by (induction xs) simp_all

definition ch_stream :: "'ws channel \<Rightarrow> message list" where
  "ch_stream ch = ch_sent ch @
     (if ch_done ch then []
      else (case ch_sending ch of Some p \<Rightarrow> [p] | None \<Rightarrow> []) @ before_sentinel (ch_items ch))"

text \<open>A step that adds nothing to any stream, and keeps the stream of a client it does not detach.\<close>

definition quiet :: "'ws bridge \<Rightarrow> 'ws bridge \<Rightarrow> bool" where
  "quiet s s' \<longleftrightarrow> (\<forall>t ch. br_channels s t = Some ch \<longrightarrow>
     (\<exists>ch'. br_channels s' t = Some ch' \<and> ch_ws ch' = ch_ws ch \<and> prefix (ch_stream ch') (ch_stream ch) \<and>
            (registered s' t ch' \<longrightarrow> registered s t ch \<and> ch_stream ch' = ch_stream ch)))"

lemma quiet_refl: "br_channels s' = br_channels s \<Longrightarrow> map_of (br_queues s') = map_of (br_queues s) \<Longrightarrow> quiet s s'"
  by (auto simp: quiet_def registered_def)

lemma quietD:
  "quiet s s' \<Longrightarrow> br_channels s t = Some ch \<Longrightarrow>
   \<exists>ch'. br_channels s' t = Some ch' \<and> ch_ws ch' = ch_ws ch \<and> prefix (ch_stream ch') (ch_stream ch) \<and>
         (registered s' t ch' \<longrightarrow> registered s t ch \<and> ch_stream ch' = ch_stream ch)"
  by (simp add: quiet_def)

lemma quiet_trans:
  assumes "quiet s1 s2" and "quiet s2 s3"
  shows "quiet s1 s3"
  unfolding quiet_def
proof (intro allI impI)
  fix t c1 assume c1: "br_channels s1 t = Some c1"
  obtain c2 where c2: "br_channels s2 t = Some c2" "ch_ws c2 = ch_ws c1" "prefix (ch_stream c2) (ch_stream c1)"
    "registered s2 t c2 \<longrightarrow> registered s1 t c1 \<and> ch_stream c2 = ch_stream c1"
    using quietD [OF assms(1) c1] by blast
  obtain c3 where "br_channels s3 t = Some c3" "ch_ws c3 = ch_ws c2" "prefix (ch_stream c3) (ch_stream c2)"
    "registered s3 t c3 \<longrightarrow> registered s2 t c2 \<and> ch_stream c3 = ch_stream c2"
    using quietD [OF assms(2) c2(1)] by blast
  with c2 show "\<exists>c. br_channels s3 t = Some c \<and> ch_ws c = ch_ws c1 \<and> prefix (ch_stream c) (ch_stream c1) \<and>
      (registered s3 t c \<longrightarrow> registered s1 t c1 \<and> ch_stream c = ch_stream c1)"
    by (intro exI [of _ c3]) (auto intro: prefix_order.trans)
qed

lemma quiet_update:
  assumes "\<And>ch. br_channels s t = Some ch \<Longrightarrow> ch_ws (f ch) = ch_ws ch \<and> prefix (ch_stream (f ch)) (ch_stream ch) \<and>
      (registered s t ch \<longrightarrow> ch_stream (f ch) = ch_stream ch)"
  shows "quiet s (update_channel t f s)"
  using assms by (auto simp: quiet_def registered_def)

lemma prefix_signal_stop: "prefix (ch_stream (signal_stop ch)) (ch_stream ch)"
  by (simp add: ch_stream_def signal_stop_eq)

lemma quiet_forget:
  "quiet s (s\<lparr>br_clients := c, br_queues := AList.delete ws (br_queues s), br_senders := sn\<rparr>)"
  by (auto simp: quiet_def registered_def split: if_splits)

lemma quiet_detach:
  assumes "bridge_ok s"
  shows "quiet s (detach_client current ws s)"
proof -
  let ?s' = "s\<lparr>br_clients := br_clients s - {ws}, br_queues := AList.delete ws (br_queues s),
                br_senders := AList.delete ws (br_senders s)\<rparr>"
  have "quiet ?s' (update_channel t signal_stop ?s')" if "map_of (br_queues s) ws = Some t" for t
    using bridge_ok_registered [OF assms that]
    by (intro quiet_update) (auto simp: prefix_signal_stop registered_def, auto simp: signal_stop_eq)
  then show ?thesis
    using quiet_trans [OF quiet_forget]
    by (auto simp: detach_cases [OF assms] Let_def quiet_forget split: option.split)
qed

lemma quiet_finish:
  assumes "\<And>ch. br_channels s t = Some ch \<Longrightarrow> \<not> registered s t ch"
  shows "quiet s (finish_sender t s)"
proof -
  have "quiet s (update_channel t (\<lambda>ch. ch\<lparr>ch_sending := None, ch_done := True\<rparr>) s)"
    using assms by (intro quiet_update) (auto simp: ch_stream_def)
  then show ?thesis
    unfolding finish_sender_def by (rule quiet_trans) (simp add: quiet_refl)
qed

lemma quiet_sender_takes:
  assumes ok: "bridge_ok s" and ch: "br_channels s t = Some ch" and idle: "\<not> ch_done ch" "ch_sending ch = None"
  shows "quiet s (sender_takes t s)"
proof (cases "ch_items ch")
  case Nil
  with ch show ?thesis by (simp add: sender_takes_def queue_get_def quiet_refl)
next
  case (Cons x xs)
  show ?thesis
  proof (cases x)
    case None
    let ?s1 = "s\<lparr>br_channels := (br_channels s)(t \<mapsto> ch\<lparr>ch_items := xs\<rparr>)\<rparr>"
    have un: "\<not> registered s t ch"
      using bridge_ok_registered [OF ok] ch Cons None by (fastforce simp: registered_def)
    have "xs = []" using bridge_ok_channel [OF ok ch] Cons None by (simp add: channel_ok_def)
    have "quiet s (update_channel t (\<lambda>_. ch\<lparr>ch_items := xs\<rparr>) s)"
      using ch un \<open>xs = []\<close> by (intro quiet_update) (auto simp: ch_stream_def)
    then have "quiet s ?s1" using ch by (simp add: update_channel_def)
    moreover have "quiet ?s1 (finish_sender t ?s1)" using un by (intro quiet_finish) (auto simp: registered_def)
    ultimately have "quiet s (finish_sender t ?s1)" by (rule quiet_trans)
    then show ?thesis using ch Cons None by (simp add: sender_takes_def queue_get_def)
  next
    case (Some p)
    have "quiet s (update_channel t (\<lambda>_. ch\<lparr>ch_items := xs, ch_sending := Some p\<rparr>) s)"
      using ch Cons Some idle by (intro quiet_update) (auto simp: ch_stream_def)
    then show ?thesis using ch Cons Some by (simp add: sender_takes_def queue_get_def update_channel_def)
  qed
qed

lemma quiet_sender_sent:
  assumes "br_channels s t = Some ch" and "\<not> ch_done ch"
  shows "quiet s (sender_sent t s)"
proof -
  let ?f = "\<lambda>ch. ch\<lparr>ch_sent := ch_sent ch @ (case ch_sending ch of Some p \<Rightarrow> [p] | None \<Rightarrow> []), ch_sending := None\<rparr>"
  have "quiet s (update_channel t ?f s)"
    using assms by (intro quiet_update) (auto simp: ch_stream_def split: option.split)
  then show ?thesis unfolding sender_sent_def by (rule quiet_trans) (simp add: quiet_refl)
qed

lemma quiet_sender_fails:
  assumes "bridge_ok s" and ch: "br_channels s t = Some ch"
  shows "quiet s (sender_fails t (ch_ws ch) s)"
proof -
  let ?s1 = "s\<lparr>br_metrics := (br_metrics s)\<lparr>bm_send_failures := bm_send_failures (br_metrics s) + 1\<rparr>\<rparr>"
  let ?s2 = "detach_client (Some t) (ch_ws ch) ?s1"
  let ?s3 = "?s2\<lparr>br_closes := br_closes ?s2 @ [ch_ws ch]\<rparr>"
  have ok1: "bridge_ok ?s1" using assms(1) by simp
  have "quiet s ?s1" by (simp add: quiet_refl)
  moreover have "quiet ?s1 ?s2" by (rule quiet_detach [OF ok1])
  moreover have "quiet ?s2 ?s3" by (simp add: quiet_refl)
  moreover have "quiet ?s3 (finish_sender t ?s3)"
    using not_registered_after_detach [OF ok1] ch by (intro quiet_finish) (simp add: registered_def)
  ultimately show ?thesis
    unfolding sender_fails_def Let_def by (meson quiet_trans)
qed

lemma quiet_close: "quiet s (close_bridge order s)"
  using prefix_signal_stop by (auto simp: close_bridge_eq quiet_def registered_def signal_stop_eq)

lemma quiet_step: "bridge_step order s s' \<Longrightarrow> bridge_ok s \<Longrightarrow> quiet s s'"
  by (induction rule: bridge_step.induct)
     (simp_all add: quiet_detach quiet_sender_takes quiet_sender_sent quiet_sender_fails quiet_close)

lemma same_core_trans: "same_core a b \<Longrightarrow> same_core b c \<Longrightarrow> same_core a c"
  by (simp add: same_core_def)

lemma detach_core [simp]:
  "br_history (detach_client current ws s) = br_history s" "br_active (detach_client current ws s) = br_active s"
  "br_next (detach_client current ws s) = br_next s" "br_closed (detach_client current ws s) = br_closed s"
  by (simp_all add: detach_client_def Let_def split: option.split)

lemma step_core:
  "bridge_step order s s' \<Longrightarrow> br_history s' = br_history s \<and> br_active s' = br_active s"
  by (induction rule: bridge_step.induct)
     (auto simp: sender_takes_def finish_sender_def sender_sent_def sender_fails_def close_bridge_eq Let_def
        split: option.split prod.split)

definition follows :: "'ws bridge \<Rightarrow> nat \<Rightarrow> message list \<Rightarrow> bool" where
  "follows s t X \<longleftrightarrow> (\<exists>ch. br_channels s t = Some ch \<and> prefix (ch_stream ch) X \<and> (registered s t ch \<longrightarrow> ch_stream ch = X))"

lemma follows_quiet: "quiet s s' \<Longrightarrow> follows s t X \<Longrightarrow> follows s' t X"
  unfolding follows_def by (elim exE conjE, drule (1) quietD) (auto intro: prefix_order.trans)

lemma follows_event:
  assumes ok: "bridge_ok s" and order: "valid_order order" and "follows s t X"
  shows "follows (on_event order now e s) t (X @ [model_dump e])"
proof -
  note eff = on_event_effect [OF ok order refl, of now e]
  from assms(3) obtain ch where ch: "br_channels s t = Some ch" "prefix (ch_stream ch) X" "registered s t ch \<longrightarrow> ch_stream ch = X"
    by (auto simp: follows_def)
  have ch': "br_channels (on_event order now e s) t = Some (after_event e s t ch)" by (simp add: eff(1) ch)
  show ?thesis
  proof (cases "registered s t ch \<and> \<not> full ch")
    case True
    have "\<not> ch_done ch" "None \<notin> set (ch_items ch)"
      using bridge_ok_registered [OF ok] ch True by (fastforce simp: registered_def)+
    then have "ch_stream (after_event e s t ch) = X @ [model_dump e]"
      using True ch(3) by (auto simp: after_event_def ch_stream_def before_sentinel_append)
    with ch' show ?thesis by (simp add: follows_def)
  next
    case False
    have "lagging s (ch_ws ch)" if "registered s t ch"
      using that False ch by (simp add: lagging_def registered_def)
    then have "\<not> registered (on_event order now e s) t (after_event e s t ch)"
      using False by (auto simp: registered_def eff(2) after_event_def signal_stop_eq)
    moreover have "prefix (ch_stream (after_event e s t ch)) X"
      using False ch(2) prefix_signal_stop by (auto simp: after_event_def intro: prefix_order.trans)
    ultimately show ?thesis using ch' by (auto simp: follows_def)
  qed
qed

lemma quiet_register:
  assumes "bridge_ok s"
  shows "quiet s (register_ws now ws s)"
proof -
  have "br_channels s t = Some ch \<Longrightarrow> t < br_next s" for t ch using bridge_ok_channel [OF assms] by blast
  then show ?thesis
    by (force simp: quiet_def register_ws_def Let_def registered_def split: if_splits)
qed

lemma follows_run:
  "bridge_run order s0 now es s \<Longrightarrow> bridge_ok s0 \<Longrightarrow> valid_order order \<Longrightarrow> follows s0 t X \<Longrightarrow>
   follows s t (X @ map model_dump es)"
proof (induction rule: bridge_run.induct)
  case (Start now)
  then show ?case by simp
next
  case (Event now es s now' e)
  from Event have "bridge_ok s" by (blast intro: bridge_ok_run)
  with Event follows_event [of s order t "X @ map model_dump es" now' e] show ?case by simp
next
  case (Joins now es s now' ws)
  then show ?case using quiet_register [of s now' ws] bridge_ok_run [of order s0 now es s] follows_quiet by blast
next
  case (Task now es s s')
  then show ?case using quiet_step [of order s s'] bridge_ok_run [of order s0 now es s] follows_quiet by blast
qed

lemma follows_register:
  assumes "\<not> br_closed s"
  shows "follows (register_ws now ws s) (br_next s) (map model_dump (replay_snapshot now s))"
  using assms by (simp add: follows_def register_ws_def Let_def ch_stream_def del: comp_apply)

subsection \<open>The active paid messages\<close>

text \<open>What an event does to the message with id \<open>x\<close>, as long as that one has not expired.\<close>

fun effect :: "string \<Rightarrow> bridge_event \<Rightarrow> super_chat_event option \<Rightarrow> super_chat_event option" where
  "effect x (SuperChat e) v = (if sc_id e = x then Some e else v)"
| "effect x (SuperChatDelete ids) v = (if x \<in> set ids then None else v)"
| "effect x _ v = v"

lemma track_active_effect:
  "x \<noteq> [] \<Longrightarrow> (\<And>e. ev = SuperChat e \<Longrightarrow> sc_id e = x \<Longrightarrow> now < sc_end_ts e) \<Longrightarrow>
   map_of (track_active now ev a) x = effect x ev (map_of a x)"
  by (cases ev) (auto simp: map_of_fold_delete)

lemma track_active_expired:
  "(\<And>e. ev = SuperChat e \<Longrightarrow> sc_id e = x \<Longrightarrow> x = [] \<or> sc_end_ts e \<le> now) \<Longrightarrow> map_of a x = None \<Longrightarrow>
   map_of (track_active now ev a) x = None"
  by (cases ev) (auto simp: map_of_fold_delete)

lemma fold_track_effect:
  "x \<noteq> [] \<Longrightarrow> (\<And>e. SuperChat e \<in> set evs \<Longrightarrow> sc_id e = x \<Longrightarrow> now < sc_end_ts e) \<Longrightarrow>
   map_of (fold (track_active now) evs a) x = fold (effect x) evs (map_of a x)"
  by (induction evs arbitrary: a) (simp_all add: track_active_effect)

lemma fold_track_expired:
  "(\<And>e. SuperChat e \<in> set evs \<Longrightarrow> sc_id e = x \<Longrightarrow> x = [] \<or> sc_end_ts e \<le> now) \<Longrightarrow> map_of a x = None \<Longrightarrow>
   map_of (fold (track_active now) evs a) x = None"
  by (induction evs arbitrary: a) (simp_all add: track_active_expired)

lemma history_sc_ids_set: "x \<in> set (history_sc_ids evs) \<longleftrightarrow> x \<noteq> [] \<and> (\<exists>e. SuperChat e \<in> set evs \<and> sc_id e = x)"
  by (induction evs) (auto simp: history_sc_ids_def split: bridge_event.splits)

text \<open>A window that mentions a message forgets what was known of it; any other is idempotent.\<close>

lemma effect_mentioned: "\<exists>e. SuperChat e \<in> set evs \<and> sc_id e = x \<Longrightarrow> fold (effect x) evs v = fold (effect x) evs v'"
proof (induction evs arbitrary: v v')
  case Nil
  then show ?case by simp
next
  case (Cons ev evs)
  show ?case
  proof (cases "\<exists>e. SuperChat e \<in> set evs \<and> sc_id e = x")
    case True
    then show ?thesis by (simp add: Cons.IH [OF True, of "effect x ev v" "effect x ev v'"])
  next
    case False
    with Cons.prems obtain e where "ev = SuperChat e" "sc_id e = x" by auto
    then show ?thesis by simp
  qed
qed

lemma effect_unmentioned:
  "\<not> (\<exists>e. SuperChat e \<in> set evs \<and> sc_id e = x) \<Longrightarrow>
   (\<forall>v. fold (effect x) evs v = v) \<or> (\<forall>v. fold (effect x) evs v = None)"
proof (induction evs)
  case Nil
  then show ?case by simp
next
  case (Cons ev evs)
  from Cons.prems have "\<not> (\<exists>e. SuperChat e \<in> set evs \<and> sc_id e = x)" by auto
  note IH = Cons.IH [OF this]
  have "(\<forall>v. effect x ev v = v) \<or> (\<forall>v. effect x ev v = None)"
    using Cons.prems by (cases ev) auto
  with IH show ?case by (elim disjE) simp_all
qed

lemma map_of_prune:
  assumes "wf_dict (br_active s)"
  shows "map_of (br_active (prune_expired_super_chats now s)) x =
    (case map_of (br_active s) x of Some e \<Rightarrow> if now < sc_end_ts e then Some e else None | None \<Rightarrow> None)"
proof -
  have "x \<in> fst ` {p \<in> set (br_active s). case p of (i, e) \<Rightarrow> sc_end_ts e \<le> now} \<longleftrightarrow>
      (\<exists>e. map_of (br_active s) x = Some e \<and> sc_end_ts e \<le> now)"
    using in_set_map_of [OF assms] by force
  then show ?thesis
    by (auto simp: prune_expired_super_chats_def Let_def map_of_fold_delete split: option.split)
qed

lemma fold_effect_pinned:
  "wf_dict d \<Longrightarrow> (\<And>k e. (k, e) \<in> set d \<Longrightarrow> sc_id e = k) \<Longrightarrow>
   fold (effect x) (map SuperChat (filter P (map snd d))) v =
     (case map_of d x of Some e \<Rightarrow> if P e then Some e else v | None \<Rightarrow> v)"
proof (induction d arbitrary: v)
  case Nil
  then show ?case by simp
next
  case (Cons p d)
  obtain k e where p: "p = (k, e)" by force
  have wf: "wf_dict d" and k: "map_of d k = None" using Cons.prems(1) by (auto simp: p wf_dict_def map_of_eq_None_iff)
  have "sc_id e = k" using Cons.prems(2) by (simp add: p)
  moreover have "\<And>k e. (k, e) \<in> set d \<Longrightarrow> sc_id e = k" using Cons.prems(2) by (simp add: p)
  ultimately show ?case
    using Cons.IH [OF wf] k by (auto simp: p split: option.split)
qed

definition active_ok :: "(string \<Rightarrow> int) \<Rightarrow> (string \<times> super_chat_event) list \<Rightarrow> int \<Rightarrow> bridge_event list \<Rightarrow> 'ws bridge \<Rightarrow> bool" where
  "active_ok expiry A0 now es s \<longleftrightarrow>
     (\<forall>x e. map_of (br_active s) x = Some e \<longrightarrow> x \<noteq> [] \<and> sc_id e = x \<and> sc_end_ts e = expiry x) \<and>
     (\<forall>x. x \<noteq> [] \<longrightarrow> now < expiry x \<longrightarrow> map_of (br_active s) x = fold (effect x) es (map_of A0 x)) \<and>
     br_history s = keep_last MAX_HISTORY es"

lemma active_ok_prune:
  assumes "active_ok expiry A0 now es s" and "wf_dict (br_active s)" and "now \<le> now'"
  shows "active_ok expiry A0 now' es (prune_expired_super_chats now' s)"
  using assms unfolding active_ok_def by (auto simp: map_of_prune [OF assms(2)] split: option.splits if_splits)

lemma active_ok_cong:
  "br_active s' = br_active s \<Longrightarrow> br_history s' = br_history s \<Longrightarrow> active_ok expiry A0 now es s \<Longrightarrow> active_ok expiry A0 now es s'"
  by (simp add: active_ok_def)

lemma active_ok_later: "active_ok expiry A0 now es s \<Longrightarrow> now \<le> now' \<Longrightarrow> active_ok expiry A0 now' es s"
  by (simp add: active_ok_def)

lemma keep_last_snoc: "0 < n \<Longrightarrow> keep_last n (keep_last n xs @ [x]) = keep_last n (xs @ [x])"
  by (cases "length xs < n") (auto simp: keep_last_def Suc_diff_le drop_Suc tl_drop)

lemma keep_last_keep_last:
  assumes "m \<le> n"
  shows "keep_last m (keep_last n xs) = keep_last m xs"
proof -
  have "length xs - (length xs - n) - m + (length xs - n) = length xs - m" using assms by arith
  then show ?thesis by (simp only: keep_last_def drop_drop length_drop)
qed

lemma active_ok_track:
  assumes a: "active_ok expiry A0 now es s" and e: "\<And>sc. e = SuperChat sc \<Longrightarrow> sc_id sc \<noteq> [] \<Longrightarrow> sc_end_ts sc = expiry (sc_id sc)"
    and s': "br_active s' = track_active now e (br_active s)" "br_history s' = keep_last MAX_HISTORY (br_history s @ [e])"
  shows "active_ok expiry A0 now (es @ [e]) s'"
proof -
  have "x \<noteq> [] \<and> sc_id sc = x \<and> sc_end_ts sc = expiry x" if "map_of (br_active s') x = Some sc" for x sc
  proof (cases "map_of (br_active s) x = Some sc")
    case True
    with a show ?thesis by (simp add: active_ok_def)
  next
    case False
    then have "e = SuperChat sc \<and> sc_id sc = x \<and> x \<noteq> []"
      using that unfolding s' by (cases e) (auto simp: map_of_fold_delete split: if_splits)
    with e show ?thesis by auto
  qed
  moreover have "map_of (br_active s') x = fold (effect x) (es @ [e]) (map_of A0 x)" if "x \<noteq> []" "now < expiry x" for x
  proof -
    have "map_of (br_active s') x = effect x e (map_of (br_active s) x)"
      using that e unfolding s' by (intro track_active_effect) auto
    with a that show ?thesis by (simp add: active_ok_def)
  qed
  moreover have "br_history s' = keep_last MAX_HISTORY (es @ [e])"
    using a by (simp add: active_ok_def s' keep_last_snoc MAX_HISTORY_def)
  ultimately show ?thesis unfolding active_ok_def by blast
qed

lemma active_ok_run:
  assumes "bridge_run order s0 now es s" and "bridge_ok s0" and "valid_order order"
    and "br_history s0 = []" and "\<And>x e. map_of (br_active s0) x = Some e \<Longrightarrow> x \<noteq> [] \<and> sc_id e = x \<and> sc_end_ts e = expiry x"
    and "\<And>e. SuperChat e \<in> set es \<Longrightarrow> sc_id e \<noteq> [] \<Longrightarrow> sc_end_ts e = expiry (sc_id e)"
  shows "active_ok expiry (br_active s0) now es s"
  using assms
proof (induction rule: bridge_run.induct)
  case (Start now)
  then show ?case by (auto simp: active_ok_def keep_last_def)
next
  case (Event now es s now' e)
  have ok: "bridge_ok s" using Event by (blast intro: bridge_ok_run)
  then have wf: "wf_dict (br_active s)" by (simp add: bridge_ok_def)
  have "active_ok expiry (br_active s0) now es s" using Event by simp
  from active_ok_prune [OF this wf] Event.hyps
  have "active_ok expiry (br_active s0) now' es (prune_expired_super_chats now' s)" by simp
  moreover have "sc_end_ts sc = expiry (sc_id sc)" if "e = SuperChat sc" "sc_id sc \<noteq> []" for sc
    using that by (intro Event.prems(5)) simp_all
  moreover have "br_active (on_event order now' e s) = track_active now' e (br_active (prune_expired_super_chats now' s))"
    and "br_history (on_event order now' e s) = keep_last MAX_HISTORY (br_history (prune_expired_super_chats now' s) @ [e])"
    using on_event_effect(5) [OF ok Event.prems(2) refl, of now' e] by (simp_all add: same_core_def)
  ultimately show ?case
    by (rule active_ok_track)
next
  case (Joins now es s now' ws)
  have wf: "wf_dict (br_active s)" using Joins bridge_ok_run [of order s0 now es s] by (simp add: bridge_ok_def)
  have a: "active_ok expiry (br_active s0) now es s" using Joins by simp
  from active_ok_prune [OF a wf] Joins.hyps
  have "active_ok expiry (br_active s0) now' es (prune_expired_super_chats now' s)" by simp
  moreover have "active_ok expiry (br_active s0) now' es s" by (rule active_ok_later [OF a Joins.hyps(2)])
  ultimately show ?case
    by (cases "br_closed s") (auto simp: register_ws_def Let_def elim: active_ok_cong [rotated -1])
next
  case (Task now es s s')
  then have "active_ok expiry (br_active s0) now es s" by simp
  with step_core [OF Task.hyps(2)] show ?case by (blast intro: active_ok_cong)
qed

lemma replay_active:
  assumes a: "active_ok expiry A0 now es s" and wf: "wf_dict (br_active s)"
    and con: "\<And>e. SuperChat e \<in> set es \<Longrightarrow> sc_id e \<noteq> [] \<Longrightarrow> sc_end_ts e = expiry (sc_id e)"
  shows "map_of (fold (track_active now) (replay_snapshot now s) []) = map_of (br_active (prune_expired_super_chats now s))"
proof
  fix x
  let ?A = "br_active (prune_expired_super_chats now s)" and ?W = "keep_last MAX_SNAPSHOT es"
  let ?seen = "\<exists>e. SuperChat e \<in> set ?W \<and> sc_id e = x"
  let ?P = "\<lambda>e. sc_id e \<notin> set (history_sc_ids ?W)"
  have A: "active_ok expiry A0 now es (prune_expired_super_chats now s)"
    by (rule active_ok_prune [OF a wf]) simp
  have wfA: "wf_dict ?A" using wf by (rule wf_prune)
  have W: "set ?W \<subseteq> set es" by (simp add: keep_last_def set_drop_subset)
  have hist: "history_snapshot s = ?W"
    using a by (simp add: history_snapshot_def active_ok_def keep_last_keep_last MAX_SNAPSHOT_def MAX_HISTORY_def)
  have R: "replay_snapshot now s = map SuperChat (filter ?P (map snd ?A)) @ ?W"
    by (simp add: replay_snapshot_def Let_def hist active_super_chats_def dict_values_def)
  have key: "(k, e) \<in> set ?A \<Longrightarrow> sc_id e = k \<and> k \<noteq> [] \<and> sc_end_ts e = expiry k" for k e
    using A in_set_map_of [OF wfA] by (auto simp: active_ok_def)
  have ends: "sc_end_ts e = expiry x" if "SuperChat e \<in> set (replay_snapshot now s)" "sc_id e = x" "x \<noteq> []" for e
    using that con W key by (auto simp: R)
  show "map_of (fold (track_active now) (replay_snapshot now s) []) x = map_of ?A x"
  proof (cases "x \<noteq> [] \<and> now < expiry x")
    case False
    then have "x = [] \<or> sc_end_ts e \<le> now" if "SuperChat e \<in> set (replay_snapshot now s)" "sc_id e = x" for e
      using ends [OF that] by fastforce
    then have "map_of (fold (track_active now) (replay_snapshot now s) []) x = None"
      by (rule fold_track_expired) simp_all
    moreover have "map_of ?A x = None"
    proof (rule ccontr)
      assume "map_of ?A x \<noteq> None"
      then obtain e where e: "map_of ?A x = Some e" by auto
      then have "x \<noteq> [] \<and> sc_end_ts e = expiry x" using A by (simp add: active_ok_def)
      moreover have "now < sc_end_ts e" using e by (auto simp: map_of_prune [OF wf] split: option.splits if_splits)
      ultimately show False using False by simp
    qed
    ultimately show ?thesis by simp
  next
    case True
    then have x: "x \<noteq> []" and live: "now < expiry x" by simp_all
    have "map_of (fold (track_active now) (replay_snapshot now s) []) x = fold (effect x) (replay_snapshot now s) None"
      using ends x live by (subst fold_track_effect) auto
    also have "\<dots> = fold (effect x) ?W (case map_of ?A x of Some e \<Rightarrow> if ?P e then Some e else None | None \<Rightarrow> None)"
      using fold_effect_pinned [OF wfA, of x ?P None] key by (simp add: R)
    also have "(case map_of ?A x of Some e \<Rightarrow> if ?P e then Some e else None | None \<Rightarrow> None) = (if ?seen then None else map_of ?A x)"
      using A x by (auto simp: history_sc_ids_set active_ok_def split: option.split)
    finally have client: "map_of (fold (track_active now) (replay_snapshot now s) []) x
        = fold (effect x) ?W (if ?seen then None else map_of ?A x)" .
    obtain v where bridge: "map_of ?A x = fold (effect x) ?W v"
    proof
      have "es = take (length es - MAX_SNAPSHOT) es @ ?W" by (simp add: keep_last_def)
      then have "fold (effect x) es (map_of A0 x)
          = fold (effect x) ?W (fold (effect x) (take (length es - MAX_SNAPSHOT) es) (map_of A0 x))"
        by (metis fold_append o_apply)
      then show "map_of ?A x = fold (effect x) ?W (fold (effect x) (take (length es - MAX_SNAPSHOT) es) (map_of A0 x))"
        using A x live by (simp add: active_ok_def)
    qed
    show ?thesis
    proof (cases ?seen)
      case True
      then have "fold (effect x) ?W None = fold (effect x) ?W v" by (rule effect_mentioned)
      with True client bridge show ?thesis by simp
    next
      case False
      from effect_unmentioned [OF False] have "fold (effect x) ?W (fold (effect x) ?W v) = fold (effect x) ?W v"
        by (elim disjE) simp_all
      moreover have "map_of (fold (track_active now) (replay_snapshot now s) []) x = fold (effect x) ?W (map_of ?A x)"
        unfolding client if_not_P [OF False] ..
      ultimately show ?thesis by (simp only: bridge)
    qed
  qed
qed

lemma new_bridge_active:
  assumes "new_bridge maxsize now scs = Some s" and "\<And>e. e \<in> set scs \<Longrightarrow> sc_id e \<noteq> [] \<Longrightarrow> sc_end_ts e = expiry (sc_id e)"
    and "map_of (br_active s) x = Some e"
  shows "x \<noteq> [] \<and> sc_id e = x \<and> sc_end_ts e = expiry x"
proof -
  have "map_of d x = Some e \<or> (e \<in> set es \<and> sc_id e = x)"
    if "map_of (fold (\<lambda>e d. AList.update (sc_id e) e d) es d) x = Some e" for es d
    using that
  proof (induction es arbitrary: d)
    case (Cons a es)
    then have "map_of (fold (\<lambda>e d. AList.update (sc_id e) e d) es (AList.update (sc_id a) a d)) x = Some e" by simp
    from Cons.IH [OF this] show ?case by (auto split: if_splits)
  qed simp
  from this [of "filter (\<lambda>e. sc_id e \<noteq> [] \<and> sc_end_ts e > now) scs" "[]"] assms(1,3)
  have "e \<in> set scs \<and> sc_id e \<noteq> [] \<and> sc_id e = x" by (auto simp: new_bridge_def split: if_splits)
  with assms(2) show ?thesis by auto
qed

subsection \<open>The client queue as a bounded buffer\<close>

definition offer_queue :: "message option \<Rightarrow> 'ws channel \<Rightarrow> message option option \<times> 'ws channel" where
  "offer_queue x ch = (case queue_put x ch of None \<Rightarrow> (Some x, ch) | Some ch' \<Rightarrow> (None, ch'))"

definition queue_inv :: "'ws channel \<Rightarrow> bool" where
  "queue_inv ch \<longleftrightarrow> 0 < ch_maxsize ch \<and> int (length (ch_items ch)) \<le> ch_maxsize ch"

definition queue_items :: "'ws channel \<Rightarrow> message option multiset" where
  "queue_items ch = mset (ch_items ch)"

interpretation client_queue: bounded_buffer queue_inv ch_maxsize queue_items offer_queue queue_get
proof unfold_locales
  fix b :: "'ws channel"
  show "queue_inv b \<Longrightarrow> int (size (queue_items b)) \<le> ch_maxsize b"
    by (simp add: queue_inv_def queue_items_def)
next
  fix b b' :: "'ws channel" and x d
  assume inv: "queue_inv b" and put: "offer_queue x b = (d, b')"
  then have "full b \<and> d = Some x \<and> b' = b \<or> \<not> full b \<and> d = None \<and> b' = b\<lparr>ch_items := ch_items b @ [x]\<rparr>"
    by (auto simp: offer_queue_def queue_put_full split: if_splits)
  then show "queue_inv b'" "ch_maxsize b' = ch_maxsize b"
    "queue_items b' + mset_set (set_option d) = add_mset x (queue_items b)"
    using inv by (auto simp: queue_inv_def queue_items_def full_def)
next
  fix b b' :: "'ws channel" and x
  assume "queue_inv b" and "queue_get b = Some (x, b')"
  then show "queue_inv b'" "ch_maxsize b' = ch_maxsize b" "queue_items b = add_mset x (queue_items b')"
    by (auto simp: queue_inv_def queue_items_def queue_get_def split: list.splits)
next
  fix b :: "'ws channel"
  show "queue_inv b \<Longrightarrow> (queue_get b = None) = (queue_items b = {#})"
    by (simp add: queue_get_def queue_items_def split: list.splits)
qed

lemma valid_order_sorted: "valid_order (sorted_list_of_set :: nat set \<Rightarrow> nat list)"
  by (simp add: valid_order_def)

text \<open>
  The sender of a closed client: it has ended, or the sentinel is all that is left in its queue, so it
  ends with the next item it takes, after the payload in flight if there is one, or with its failure.
\<close>

definition ending :: "'ws channel \<Rightarrow> bool" where
  "ending ch \<longleftrightarrow> ch_done ch \<or> ch_items ch = [None]"

lemma ending_step:
  assumes "bridge_step order s s'" and "br_queues s = []" and "br_closed s" and "bridge_ok s"
    and "br_channels s t = Some c" and "ending c"
  shows "\<exists>c'. br_channels s' t = Some c' \<and> ending c'"
proof -
  have "br_senders s = []" using assms(2,4) by (cases "br_senders s") (auto simp: bridge_ok_def fun_eq_iff split: if_splits)
  then show ?thesis
    using assms by (cases rule: bridge_stepE [OF assms(1)])
      (auto simp: detach_client_def sender_takes_def finish_sender_def sender_sent_def sender_fails_def close_bridge_def
        update_channel_def queue_get_def ending_def Let_def split: option.splits list.splits)
qed

lemma ending_sender:
  assumes "br_channels s t = Some ch" and "ending ch"
  shows "ch_done ch \<or>
    (\<exists>c. br_channels (sender_takes t (if ch_sending ch = None then s else sender_sent t s)) t = Some c \<and> ch_done c)"
    and "\<exists>c. br_channels (sender_fails t ws s) t = Some c \<and> ch_done c"
proof -
  show "ch_done ch \<or>
      (\<exists>c. br_channels (sender_takes t (if ch_sending ch = None then s else sender_sent t s)) t = Some c \<and> ch_done c)"
    using assms by (auto simp: ending_def sender_takes_def queue_get_def sender_sent_def update_channel_def finish_sender_def)
  show "\<exists>c. br_channels (sender_fails t ws s) t = Some c \<and> ch_done c"
    using assms(1) by (auto simp: sender_fails_def detach_client_def finish_sender_def update_channel_def Let_def
        split: option.split)
qed

lemma close_silences:
  assumes ok: "bridge_ok s" and ch: "br_channels s t = Some ch" and reg: "registered s t ch" and run: "bridge_run order (close_bridge order s) now es s'"
    and order: "valid_order order" and open_s: "\<not> br_closed s"
  shows "bridge_ok s' \<and> br_queues s' = [] \<and> (\<exists>ch'. br_channels s' t = Some ch' \<and> ending ch' \<and>
    prefix (ch_stream ch') (ch_sent ch @ (case ch_sending ch of Some p \<Rightarrow> [p] | None \<Rightarrow> [])))"
proof -
  let ?X = "ch_sent ch @ (case ch_sending ch of Some p \<Rightarrow> [p] | None \<Rightarrow> [])"
  have "(ch_ws ch, t) \<in> set (br_queues s)" using reg by (simp add: registered_def map_of_SomeD)
  then have "br_channels (close_bridge order s) t = Some (signal_stop ch)"
    using ch open_s by (force simp: close_bridge_eq)
  moreover have "prefix (ch_stream (signal_stop ch)) ?X" "ending (signal_stop ch)" by (simp_all add: ch_stream_def signal_stop_eq ending_def)
  moreover have "br_queues (close_bridge order s) = []" and "br_closed (close_bridge order s)" using open_s by (simp_all add: close_bridge_eq)
  moreover have "br_queues s' = [] \<and> br_closed s' \<and> (\<exists>ch'. br_channels s' t = Some ch' \<and> ending ch' \<and> prefix (ch_stream ch') ?X)"
    if "bridge_run order s0 now es s'" "bridge_ok s0" "br_queues s0 = []" "br_closed s0" "br_channels s0 t = Some c" "prefix (ch_stream c) ?X" "ending c" for s0 c
    using that
  proof (induction rule: bridge_run.induct)
    case (Start now)
    then show ?case by auto
  next
    case (Event now es s now' e)
    then have IH: "br_queues s = [] \<and> br_closed s \<and> (\<exists>ch'. br_channels s t = Some ch' \<and> ending ch' \<and> prefix (ch_stream ch') ?X)" by simp
    have ok1: "bridge_ok s" using Event.hyps(1) Event.prems(1) order by (rule bridge_ok_run)
    note eff = on_event_effect [OF ok1 order refl, of now' e]
    have "map_of (br_queues (on_event order now' e s)) = Map.empty" using IH by (simp add: eff(2) fun_eq_iff)
    moreover have "after_event e s u = (\<lambda>c. c)" for u
      using IH by (simp add: fun_eq_iff after_event_def registered_def)
    then have "br_channels (on_event order now' e s) = br_channels s"
      by (simp add: eff(1) option.map_ident)
    moreover have "br_closed (on_event order now' e s)" using eff(5) IH by (simp add: same_core_def)
    ultimately show ?case using IH by simp
  next
    case (Joins now es s now' ws)
    then show ?case by (simp add: register_ws_def)
  next
    case (Task now es s s'')
    then have IH: "br_queues s = [] \<and> br_closed s \<and> (\<exists>ch'. br_channels s t = Some ch' \<and> ending ch' \<and> prefix (ch_stream ch') ?X)" by simp
    have ok1: "bridge_ok s" using Task.hyps(1) Task.prems(1) order by (rule bridge_ok_run)
    have "br_queues s'' = [] \<and> br_closed s''"
      using Task.hyps(2) IH
      by (induction rule: bridge_step.induct)
         (auto simp: detach_cases [OF ok1] sender_takes_def finish_sender_def sender_sent_def sender_fails_def detach_client_def
            close_bridge_eq Let_def split: option.split prod.split)
    moreover obtain c where c: "br_channels s t = Some c" "prefix (ch_stream c) ?X" "ending c" using IH by blast
    then have "\<exists>ch'. br_channels s'' t = Some ch' \<and> ending ch' \<and> prefix (ch_stream ch') ?X"
      using quietD [OF quiet_step [OF Task.hyps(2) ok1] c(1)] ending_step [OF Task.hyps(2) _ _ ok1 c(1,3)] IH
      by (auto intro: prefix_order.trans)
    ultimately show ?case by simp
  qed
  ultimately show ?thesis using run bridge_ok_close [OF ok] bridge_ok_run [OF run _ order] by blast
qed

subsection \<open>Properties\<close>

text \<open>
  C1. A client that joins is sent exactly the replay followed by every later event, each once and in
  order: while it is registered, what was sent, is being sent and is queued is that sequence, and
  whatever happens (a slow client, a failed send, a close), what was sent is a prefix of it.
\<close>

theorem client_stream_exact:
  assumes "valid_order order" and "new_bridge maxsize now0 initial = Some b" and "bridge_run order b now es0 s0"
    and "\<not> br_closed s0" and "bridge_run order (register_ws now1 ws s0) now2 es s"
  shows "\<exists>ch. br_channels s (br_next s0) = Some ch \<and>
    prefix (ch_sent ch) (map model_dump (replay_snapshot now1 s0 @ es)) \<and>
    (map_of (br_queues s) (ch_ws ch) = Some (br_next s0) \<longrightarrow>
       ch_stream ch = map model_dump (replay_snapshot now1 s0 @ es))"
proof -
  have "bridge_ok s0" using assms(3) bridge_ok_new [OF assms(2)] assms(1) by (rule bridge_ok_run)
  from follows_run [OF assms(5) bridge_ok_register [OF this] assms(1) follows_register [OF assms(4)]]
  obtain ch where "br_channels s (br_next s0) = Some ch" "prefix (ch_stream ch) (map model_dump (replay_snapshot now1 s0 @ es))"
    "registered s (br_next s0) ch \<longrightarrow> ch_stream ch = map model_dump (replay_snapshot now1 s0 @ es)"
    by (auto simp: follows_def)
  moreover have "prefix (ch_sent ch) (ch_stream ch)" by (simp add: ch_stream_def)
  ultimately show ?thesis by (auto simp: registered_def intro: prefix_order.trans)
qed

definition bridge_witness :: "nat bridge" where
  "bridge_witness = the (new_bridge 1 0 [])"

lemma new_bridge_witness: "new_bridge 1 0 [] = Some bridge_witness"
  by (simp add: bridge_witness_def new_bridge_def)

lemma client_stream_exact_witness:
  "\<exists>ch. br_channels (on_event sorted_list_of_set 1 (RoomStatus Connected) (register_ws 0 7 bridge_witness)) 0 = Some ch \<and>
     prefix (ch_sent ch) [model_dump (RoomStatus Connected)]"
proof -
  have "bridge_run sorted_list_of_set bridge_witness 0 [] bridge_witness" by (rule bridge_run.Start)
  moreover have "\<not> br_closed bridge_witness" and n: "br_next bridge_witness = 0"
    by (simp_all add: bridge_witness_def new_bridge_def)
  moreover have "bridge_run sorted_list_of_set (register_ws 0 7 bridge_witness) 1 ([] @ [RoomStatus Connected])
      (on_event sorted_list_of_set 1 (RoomStatus Connected) (register_ws 0 7 bridge_witness))"
    by (rule bridge_run.Event [OF bridge_run.Start [of _ _ 0]]) simp
  moreover have "replay_snapshot 0 bridge_witness = []"
    by (simp add: bridge_witness_def new_bridge_def replay_snapshot_def history_snapshot_def keep_last_def
        active_super_chats_def prune_expired_super_chats_def dict_values_def)
  ultimately show ?thesis
    using client_stream_exact [OF valid_order_sorted new_bridge_witness,
        of 0 "[]" bridge_witness 0 7 1 "[RoomStatus Connected]"
           "on_event sorted_list_of_set 1 (RoomStatus Connected) (register_ws 0 7 bridge_witness)"] by auto
qed

text \<open>
  An event reaches every registered client that has room, in one step and without waiting: its
  queue grows by the payload. A client whose queue is full is unregistered, its queue is emptied but
  for the sentinel and its socket is scheduled for closing. No other channel changes.
\<close>

theorem on_event_isolates_clients:
  assumes "valid_order order" and "new_bridge maxsize now0 initial = Some b" and "bridge_run order b now es s"
    and "br_channels s t = Some ch"
  shows "let s' = on_event order now' e s; ws = ch_ws ch in
    if map_of (br_queues s) ws \<noteq> Some t then br_channels s' t = Some ch
    else if int (length (ch_items ch)) < ch_maxsize ch then
      ws \<in> br_clients s' \<and> map_of (br_queues s') ws = Some t \<and>
      br_channels s' t = Some (ch\<lparr>ch_items := ch_items ch @ [Some (model_dump e)]\<rparr>)
    else ws \<notin> br_clients s' \<and> map_of (br_queues s') ws = None \<and> ws \<in> set (br_closes s') \<and>
      br_channels s' t = Some (ch\<lparr>ch_items := [None]\<rparr>)"
proof -
  have ok: "bridge_ok s" using assms(3) bridge_ok_new [OF assms(2)] assms(1) by (rule bridge_ok_run)
  note eff = on_event_effect [OF ok assms(1) refl, of now' e]
  have "channel_ok ch" using bridge_ok_channel [OF ok assms(4)] by simp
  then have f: "full ch \<longleftrightarrow> \<not> int (length (ch_items ch)) < ch_maxsize ch" by (auto simp: full_def channel_ok_def)
  have c: "ch_ws ch \<in> br_clients s" if "map_of (br_queues s) (ch_ws ch) = Some t"
    using that ok by (auto simp: bridge_ok_def)
  show ?thesis
    using assms(4) f c
    by (cases "map_of (br_queues s) (ch_ws ch) = Some t"; cases "full ch")
       (simp_all add: Let_def eff(1,2,4,7) after_event_def registered_def lagging_def signal_stop_eq)
qed

lemma on_event_isolates_clients_witness:
  "7 \<notin> br_clients (on_event sorted_list_of_set 2 (RoomStatus Disconnected)
        (on_event sorted_list_of_set 1 (RoomStatus Connected) (register_ws 0 7 bridge_witness)))"
proof -
  let ?s1 = "register_ws 0 7 bridge_witness" and ?e = "RoomStatus Connected"
  let ?s2 = "on_event sorted_list_of_set 1 ?e ?s1"
  have r0: "bridge_run sorted_list_of_set bridge_witness 0 [] bridge_witness" by (rule bridge_run.Start)
  then have r1: "bridge_run sorted_list_of_set bridge_witness 0 [] ?s1" by (rule bridge_run.Joins) simp
  then have r2: "bridge_run sorted_list_of_set bridge_witness 1 ([] @ [?e]) ?s2" by (rule bridge_run.Event) simp
  have "replay_snapshot 0 bridge_witness = []"
    by (simp add: bridge_witness_def new_bridge_def replay_snapshot_def history_snapshot_def keep_last_def
        active_super_chats_def prune_expired_super_chats_def dict_values_def)
  then obtain ch where ch: "br_channels ?s1 0 = Some ch" "ch_ws ch = 7" "ch_items ch = []" "ch_maxsize ch = 1"
    and q: "map_of (br_queues ?s1) 7 = Some 0"
    by (simp add: register_ws_def Let_def bridge_witness_def new_bridge_def)
  from on_event_isolates_clients [OF valid_order_sorted new_bridge_witness r1 ch(1), of 1 ?e] ch q
  have "br_channels ?s2 0 = Some (ch\<lparr>ch_items := [Some (model_dump ?e)]\<rparr>)" and "map_of (br_queues ?s2) 7 = Some 0"
    by (simp_all add: Let_def)
  from on_event_isolates_clients [OF valid_order_sorted new_bridge_witness r2 this(1), of 2 "RoomStatus Disconnected"] ch this(2)
  show ?thesis by (simp add: Let_def)
qed

text \<open>
  C31. A late client can rebuild the active paid messages: when every paid message with an id keeps one
  expiry time, applying the rule of the bridge to the replay gives exactly the unexpired messages of
  the bridge, although the replay holds only the last 50 events and those messages that are not
  among them.
\<close>

theorem replay_restores_active:
  assumes "valid_order order" and "new_bridge maxsize now0 initial = Some b" and "bridge_run order b now es s"
    and "\<And>e. e \<in> set initial \<or> SuperChat e \<in> set es \<Longrightarrow> sc_id e \<noteq> [] \<Longrightarrow> sc_end_ts e = expiry (sc_id e)"
  shows "map_of (fold (track_active now) (replay_snapshot now s) []) = map_of (br_active (prune_expired_super_chats now s))"
proof -
  have ok: "bridge_ok b" by (rule bridge_ok_new [OF assms(2)])
  have "br_history b = []" using assms(2) by (auto simp: new_bridge_def split: if_splits)
  moreover have "x \<noteq> [] \<and> sc_id e = x \<and> sc_end_ts e = expiry x" if "map_of (br_active b) x = Some e" for x e
    using that assms(4) by (intro new_bridge_active [OF assms(2)]) blast+
  ultimately have "active_ok expiry (br_active b) now es s"
    using assms(4) by (intro active_ok_run [OF assms(3) ok assms(1)]) blast+
  moreover have "wf_dict (br_active s)" using bridge_ok_run [OF assms(3) ok assms(1)] by (simp add: bridge_ok_def)
  ultimately show ?thesis using assms(4) by (intro replay_active) blast+
qed

definition paid_witness :: super_chat_event where
  "paid_witness =
     \<lparr>sc_uid = 7, sc_uname = ''u'', sc_text = ''t'', sc_price = 30, sc_ts = 0, sc_id = ''a'', sc_end_ts = 60,
      sc_duration = 60, sc_guard_level = 0, sc_medal = None, sc_background_color = [], sc_background_bottom_color = [],
      sc_background_price_color = [], sc_message_font_color = []\<rparr>"

lemma replay_restores_active_witness:
  "map_of (fold (track_active 1) (replay_snapshot 1 (on_event sorted_list_of_set 1 (SuperChat paid_witness) bridge_witness)) [])
     ''a'' = Some paid_witness"
proof -
  let ?s = "on_event sorted_list_of_set 1 (SuperChat paid_witness) bridge_witness"
  have "bridge_run sorted_list_of_set bridge_witness 1 ([] @ [SuperChat paid_witness]) ?s"
    by (rule bridge_run.Event [OF bridge_run.Start [of _ _ 0]]) simp
  from replay_restores_active [OF valid_order_sorted new_bridge_witness this, of "\<lambda>_. 60"]
  have "map_of (fold (track_active 1) (replay_snapshot 1 ?s) []) = map_of (br_active (prune_expired_super_chats 1 ?s))"
    by (simp add: paid_witness_def)
  moreover have "br_active ?s = [(''a'', paid_witness)]"
    by (simp add: on_event_def record_event_def Let_def bridge_witness_def new_bridge_def prune_expired_super_chats_def paid_witness_def)
  ultimately show ?thesis
    by (simp add: prune_expired_super_chats_def paid_witness_def)
qed

text \<open>
  C22. Closing the bridge ends every client, whatever events, registrations and task steps follow: no
  client is registered then or later, a client is sent at most the payload that was in flight, and its
  sender, if it has not ended yet, ends with the next item it takes once the payload in flight is
  sent, or at once if that send fails.
\<close>

theorem close_releases_clients:
  assumes "valid_order order" and "new_bridge maxsize now0 initial = Some b" and "bridge_run order b now es s"
    and "\<not> br_closed s" and "br_channels s t = Some ch" and "map_of (br_queues s) (ch_ws ch) = Some t"
    and "bridge_run order (close_bridge order s) now' es' s'"
  shows "br_clients s' = {} \<and> br_queues s' = [] \<and>
    (\<exists>ch'. br_channels s' t = Some ch' \<and>
       prefix (ch_sent ch') (ch_sent ch @ (case ch_sending ch of Some p \<Rightarrow> [p] | None \<Rightarrow> [])) \<and>
       (ch_done ch' \<or>
        (\<exists>c. br_channels (sender_takes t (if ch_sending ch' = None then s' else sender_sent t s')) t = Some c \<and> ch_done c)) \<and>
       (\<exists>c. br_channels (sender_fails t (ch_ws ch') s') t = Some c \<and> ch_done c))"
proof -
  have ok: "bridge_ok s" using assms(3) bridge_ok_new [OF assms(2)] assms(1) by (rule bridge_ok_run)
  have reg: "registered s t ch" using assms(6) by (simp add: registered_def)
  from close_silences [OF ok assms(5) reg assms(7,1,4)] obtain ch' where ok': "bridge_ok s'" "br_queues s' = []"
    and ch': "br_channels s' t = Some ch'" "ending ch'"
      "prefix (ch_stream ch') (ch_sent ch @ (case ch_sending ch of Some p \<Rightarrow> [p] | None \<Rightarrow> []))" by blast
  have "prefix (ch_sent ch') (ch_stream ch')" by (simp add: ch_stream_def)
  then have "prefix (ch_sent ch') (ch_sent ch @ (case ch_sending ch of Some p \<Rightarrow> [p] | None \<Rightarrow> []))"
    using ch'(3) by (rule prefix_order.trans)
  moreover have "br_clients s' = {}" using ok' by (simp add: bridge_ok_def)
  ultimately show ?thesis using ok'(2) ch'(1) ending_sender [OF ch'(1,2)] by blast
qed

lemma close_releases_clients_witness:
  "br_clients (close_bridge sorted_list_of_set (register_ws 0 7 bridge_witness)) = {}"
proof -
  let ?s1 = "register_ws 0 7 bridge_witness"
  have "bridge_run sorted_list_of_set bridge_witness 0 [] bridge_witness" by (rule bridge_run.Start)
  then have r1: "bridge_run sorted_list_of_set bridge_witness 0 [] ?s1" by (rule bridge_run.Joins) simp
  obtain ch where ch: "br_channels ?s1 0 = Some ch" "map_of (br_queues ?s1) (ch_ws ch) = Some 0" and "\<not> br_closed ?s1"
    by (simp add: register_ws_def Let_def bridge_witness_def new_bridge_def)
  from close_releases_clients [OF valid_order_sorted new_bridge_witness r1 this(3) ch bridge_run.Start [of _ _ 0]]
  show ?thesis by simp
qed

end
