(* ===== verification/Ban_List.thy ===== *)
theory Ban_List
  imports Bili_Client Py_Float
begin

section \<open>The ban list of the active room (\<open>room/banlist.py\<close>)\<close>

text \<open>
  \<open>normalize_ban_entry\<close> maps the rows of the upstream to one shape; \<open>BanListManager\<close> keeps the rows
  of one room by uid, tells its subscribers about changes and reconciles with the upstream once a
  minute. \<open>datetime.fromisoformat\<close> is the parameter \<open>iso_diff\<close>: the seconds from one timestamp to
  another, None where parsing or subtracting raises \<open>ValueError\<close> or \<open>TypeError\<close>.
\<close>

subsection \<open>Entries\<close>

datatype ban_timestamp = TsInt int | TsStr string | TsNone

record ban_entry =
  be_block_id :: "int option"
  be_uid :: int
  be_uname :: string
  be_operator_uid :: "int option"
  be_operator_name :: string
  be_hour :: "int option"
  be_reason :: string
  be_created_at :: ban_timestamp
  be_expires_at :: ban_timestamp
  be_pending :: bool

fun ban_as_int :: "json \<Rightarrow> py_exn + int option" where
  "ban_as_int (JBool b) = Inr None"
| "ban_as_int (JInt i) = Inr (Some i)"
| "ban_as_int (JFloat (FFin m e)) = Inr (if float_is_integer (FFin m e) then Some (trunc_scaled m e) else None)"
| "ban_as_int (JFloat f) = Inr None"
| "ban_as_int (JStr s) =
     (let stripped = py_strip s in
      if all_digits (lstrip_by (\<lambda>c. c = CHR ''-'') stripped) then
        (case py_int stripped of None \<Rightarrow> Inl ValueError | Some i \<Rightarrow> Inr (Some i))
      else Inr None)"
| "ban_as_int _ = Inr None"

definition as_text :: "json \<Rightarrow> string" where
  "as_text v = (case v of JStr s \<Rightarrow> py_strip s | _ \<Rightarrow> [])"

definition as_timestamp :: "json \<Rightarrow> py_exn + ban_timestamp" where
  "as_timestamp v =
     bind_res (ban_as_int v) (\<lambda>numeric. Inr (case numeric of
         Some i \<Rightarrow> TsInt i
       | None \<Rightarrow> if as_text v = [] then TsNone else TsStr (as_text v)))"

text \<open>The two labels for a permanent ban and for one that lasts the session, in UTF-8.\<close>

definition label_permanent :: string where
  "label_permanent = [CHR 0xE6, CHR 0xB0, CHR 0xB8, CHR 0xE4, CHR 0xB9, CHR 0x85]"

definition label_session :: string where
  "label_session = [CHR 0xE6, CHR 0x9C, CHR 0xAC, CHR 0xE5, CHR 0x9C, CHR 0xBA]"

definition label_session_stream :: string where
  "label_session_stream = label_session @ [CHR 0xE7, CHR 0x9B, CHR 0xB4, CHR 0xE6, CHR 0x92, CHR 0xAD]"

text \<open>\<open>round(x / 3600)\<close> for a positive number: the float quotient, rounded half to even.\<close>

definition round_hours :: "rat \<Rightarrow> py_exn + int" where
  "round_hours seconds =
     (case quotient_of (seconds / 3600) of (p, q) \<Rightarrow>
        (case nearest_double (nat p) (nat q) of
           FFin m e \<Rightarrow> Inr (round_even (of_int m * 2 powi e))
         | _ \<Rightarrow> Inl OverflowError))"

definition duration_hours ::
    "(string \<Rightarrow> string \<Rightarrow> rat option) \<Rightarrow> ban_timestamp \<Rightarrow> ban_timestamp \<Rightarrow> py_exn + int option" where
  "duration_hours iso_diff created_at expires_at =
     (case expires_at of
        TsStr s \<Rightarrow> if py_strip s = label_permanent then Inr (Some (- 1))
          else if py_strip s = label_session \<or> py_strip s = label_session_stream then Inr (Some 0)
          else (case created_at of
            TsStr c \<Rightarrow> (case iso_diff c s of
                None \<Rightarrow> Inr None
              | Some seconds \<Rightarrow> if seconds \<le> 0 then Inr None
                  else bind_res (round_hours seconds) (\<lambda>h. Inr (Some (max 1 h))))
          | _ \<Rightarrow> Inr None)
      | TsInt x \<Rightarrow> (case created_at of
            TsInt c \<Rightarrow> if x - c \<le> 0 then Inr None
              else bind_res (round_hours (of_int (x - c))) (\<lambda>h. Inr (Some (max 1 h)))
          | _ \<Rightarrow> Inr None)
      | TsNone \<Rightarrow> Inr None)"

definition positive_or_none :: "int option \<Rightarrow> int option" where
  "positive_or_none v = (case v of Some i \<Rightarrow> if 0 < i then Some i else None | None \<Rightarrow> None)"

definition text_or :: "string \<Rightarrow> string \<Rightarrow> string" where
  "text_or a b = (if a = [] then b else a)"

text \<open>The first of some fields that is a timestamp.\<close>

fun first_timestamp :: "message \<Rightarrow> string list \<Rightarrow> py_exn + ban_timestamp" where
  "first_timestamp raw [] = Inr TsNone"
| "first_timestamp raw (k # ks) =
     bind_res (as_timestamp (jget raw k)) (\<lambda>t. if t = TsNone then first_timestamp raw ks else Inr t)"

definition ban_target :: "message \<Rightarrow> py_exn + int option \<times> bool" where
  "ban_target raw =
     bind_res (ban_as_int (jget raw ''tuid'')) (\<lambda>target.
     if positive_or_none target \<noteq> None then Inr (target, True)
     else bind_res (ban_as_int (jget raw ''uid'')) (\<lambda>uid. Inr (uid, False)))"

definition ban_operator :: "message \<Rightarrow> bool \<Rightarrow> py_exn + int option \<times> string" where
  "ban_operator raw has_target =
     bind_res (ban_as_int (jget raw ''operator_uid'')) (\<lambda>op0.
     bind_res (if has_target \<and> op0 = None then ban_as_int (jget raw ''uid'') else Inr op0) (\<lambda>op1.
     Inr (positive_or_none op1,
          (let name = as_text (jget raw ''operator_name'') in
           if has_target then text_or name (as_text (jget raw ''name'')) else name))))"

definition ban_times ::
    "(string \<Rightarrow> string \<Rightarrow> rat option) \<Rightarrow> message \<Rightarrow> py_exn + int option \<times> ban_timestamp \<times> ban_timestamp" where
  "ban_times iso_diff raw =
     bind_res (ban_as_int (jget raw ''hour'')) (\<lambda>hour0.
     bind_res (as_timestamp (jget_default raw ''created_at'' (jget_default raw ''ctime'' (jget raw ''start_time'')))) (\<lambda>created_at.
     bind_res (first_timestamp raw [''expires_at'', ''expire_time'', ''end_time'', ''block_end_time'']) (\<lambda>expires_at.
     bind_res (if hour0 = None then duration_hours iso_diff created_at expires_at else Inr hour0) (\<lambda>hour.
     Inr (hour, created_at,
          (case (expires_at, created_at, hour) of
             (TsNone, TsInt c, Some h) \<Rightarrow> if 0 < h then TsInt (c + h * 3600) else TsNone
           | _ \<Rightarrow> expires_at))))))"

definition normalize_ban_entry ::
    "(string \<Rightarrow> string \<Rightarrow> rat option) \<Rightarrow> message \<Rightarrow> bool \<Rightarrow> py_exn + ban_entry option" where
  "normalize_ban_entry iso_diff raw pending =
     bind_res (ban_target raw) (\<lambda>(target, has_target).
     case positive_or_none target of
       None \<Rightarrow> Inr None
     | Some uid \<Rightarrow>
         bind_res (ban_as_int (jget raw ''block_id'')) (\<lambda>block0.
         bind_res (if block0 = None then ban_as_int (jget raw ''id'') else Inr block0) (\<lambda>block1.
         bind_res (ban_operator raw has_target) (\<lambda>(operator_uid, operator_name).
         bind_res (ban_times iso_diff raw) (\<lambda>(hour, created_at, expires_at).
         Inr (Some
           \<lparr>be_block_id = positive_or_none block1, be_uid = uid,
            be_uname = (if has_target then text_or (as_text (jget raw ''tname'')) (as_text (jget raw ''uname''))
                        else text_or (as_text (jget raw ''uname'')) (as_text (jget raw ''tname''))),
            be_operator_uid = operator_uid, be_operator_name = operator_name, be_hour = hour,
            be_reason = text_or (as_text (jget raw ''reason''))
                          (text_or (as_text (jget raw ''msg'')) (as_text (jget raw ''message''))),
            be_created_at = created_at, be_expires_at = expires_at,
            be_pending = (pending \<or> jget raw ''pending'' = JBool True)\<rparr>))))))"

subsection \<open>The manager\<close>

datatype ban_message = BanSnapshot "ban_entry list" | BanAdded ban_entry | BanRemoved int

text \<open>\<open>mg_room\<close> is the room with its \<open>is_running\<close> callback, set and cleared together.\<close>

record ('cb, 'w) ban_manager =
  mg_bans :: "(int \<times> ban_entry) list"
  mg_subscribers :: "'cb list"
  mg_reconciling :: bool \<comment> \<open>whether there is a reconcile task\<close>
  mg_room :: "(int \<times> ('w \<Rightarrow> bool)) option"

type_synonym 'w client_world = "bili_client \<times> 'w"

type_synonym ('cb, 'w) ban_invoke = "'cb \<Rightarrow> ban_message \<Rightarrow> 'w client_world \<Rightarrow> (py_exn + unit) \<times> 'w client_world"

definition new_ban_manager :: "('cb, 'w) ban_manager" where
  "new_ban_manager = \<lparr>mg_bans = [], mg_subscribers = [], mg_reconciling = False, mg_room = None\<rparr>"

definition safe_invoke :: "('cb \<Rightarrow> 'm \<Rightarrow> 'v \<Rightarrow> (py_exn + unit) \<times> 'v) \<Rightarrow> 'cb \<Rightarrow> 'm \<Rightarrow> 'v \<Rightarrow> 'v" where
  "safe_invoke invoke cb msg w = (case invoke cb msg w of (Inl e, w') \<Rightarrow> w' | (Inr _, w') \<Rightarrow> w')"

fun invoke_each :: "('cb \<Rightarrow> 'm \<Rightarrow> 'v \<Rightarrow> (py_exn + unit) \<times> 'v) \<Rightarrow> 'cb list \<Rightarrow> 'm \<Rightarrow> 'v \<Rightarrow> 'v" where
  "invoke_each invoke [] msg w = w"
| "invoke_each invoke (cb # cbs) msg w = invoke_each invoke cbs msg (safe_invoke invoke cb msg w)"

lemma safe_invoke_snd: "safe_invoke invoke cb msg w = snd (invoke cb msg w)"
  by (simp add: safe_invoke_def split: prod.split sum.split)

interpretation ban_fanout: isolating_fanout invoke_each
  by unfold_locales (simp_all add: safe_invoke_snd)

definition ban_broadcast ::
    "('cb, 'w) ban_invoke \<Rightarrow> ban_message \<Rightarrow> ('cb, 'w) ban_manager \<Rightarrow> 'w client_world \<Rightarrow> 'w client_world" where
  "ban_broadcast invoke msg mg cw = invoke_each invoke (mg_subscribers mg) msg cw"

subsection \<open>Fetching\<close>

fun normalize_rows :: "(string \<Rightarrow> string \<Rightarrow> rat option) \<Rightarrow> json list \<Rightarrow> py_exn + ban_entry list" where
  "normalize_rows iso_diff [] = Inr []"
| "normalize_rows iso_diff (JDict raw # rows) =
     bind_res (normalize_ban_entry iso_diff raw False) (\<lambda>entry.
     bind_res (normalize_rows iso_diff rows) (\<lambda>entries.
     Inr (case entry of None \<Rightarrow> entries | Some e \<Rightarrow> e # entries)))"
| "normalize_rows iso_diff (_ # rows) = normalize_rows iso_diff rows"

definition fetch_snapshot ::
    "'w env \<Rightarrow> (string \<Rightarrow> string \<Rightarrow> rat option) \<Rightarrow> ('cb, 'w) ban_manager \<Rightarrow> ('w, ban_entry list) client_io" where
  "fetch_snapshot E iso_diff mg =
     (case mg_room mg of
        None \<Rightarrow> return_io []
      | Some (room_id, is_running) \<Rightarrow>
          bind_io (get_ban_list E is_running room_id) (\<lambda>rows.
          lift_res (py_res (normalize_rows iso_diff rows))))"

text \<open>\<open>{entry["uid"]: entry for entry in entries}\<close> and the loop that keeps pending rows.\<close>

definition bans_by_uid :: "ban_entry list \<Rightarrow> (int \<times> ban_entry) list" where
  "bans_by_uid entries = fold (\<lambda>e d. AList.update (be_uid e) e d) entries []"

definition keep_pending ::
    "(int \<times> ban_entry) list \<Rightarrow> (int \<times> ban_entry) list \<Rightarrow> (int \<times> ban_entry) list" where
  "keep_pending old next_bans =
     fold (\<lambda>(uid, e) d. if be_pending e \<and> map_of d uid = None then AList.update uid e d else d) old next_bans"

definition refresh ::
    "'w env \<Rightarrow> (string \<Rightarrow> string \<Rightarrow> rat option) \<Rightarrow> ('cb, 'w) ban_invoke \<Rightarrow> bool \<Rightarrow> ('cb, 'w) ban_manager
      \<Rightarrow> 'w client_world \<Rightarrow> (exn + ban_entry list) \<times> ('cb, 'w) ban_manager \<times> 'w client_world" where
  "refresh E iso_diff invoke preserve_pending mg cw =
     (case fetch_snapshot E iso_diff mg cw of
        (Inl e, cw') \<Rightarrow> (Inl e, mg, cw')
      | (Inr entries, cw') \<Rightarrow>
          (let fetched = bans_by_uid entries;
               next_bans = (if preserve_pending then keep_pending (mg_bans mg) fetched else fetched);
               mg' = mg\<lparr>mg_bans := next_bans\<rparr>;
               snapshot = dict_values next_bans
           in (Inr snapshot, mg', ban_broadcast invoke (BanSnapshot snapshot) mg' cw')))"

subsection \<open>Lifecycle and subscribers\<close>

definition stop_bans :: "('cb, 'w) ban_manager \<Rightarrow> ('cb, 'w) ban_manager" where
  "stop_bans mg = mg\<lparr>mg_reconciling := False, mg_room := None, mg_bans := [], mg_subscribers := []\<rparr>"

definition start_bans ::
    "'w env \<Rightarrow> (string \<Rightarrow> string \<Rightarrow> rat option) \<Rightarrow> ('cb, 'w) ban_invoke \<Rightarrow> int \<Rightarrow> ('w \<Rightarrow> bool)
      \<Rightarrow> ('cb, 'w) ban_manager \<Rightarrow> 'w client_world \<Rightarrow> (exn + unit) \<times> ('cb, 'w) ban_manager \<times> 'w client_world" where
  "start_bans E iso_diff invoke room_id is_running mg cw =
     (let mg1 = (if mg_reconciling mg then stop_bans mg else mg);
          mg2 = mg1\<lparr>mg_room := Some (room_id, is_running)\<rparr>
      in case refresh E iso_diff invoke False mg2 cw of
           (Inl e, mg3, cw') \<Rightarrow> (Inl e, mg3, cw')
         | (Inr _, mg3, cw') \<Rightarrow> (Inr (), mg3\<lparr>mg_reconciling := True\<rparr>, cw'))"

definition subscribe ::
    "('cb, 'w) ban_invoke \<Rightarrow> 'cb \<Rightarrow> ('cb, 'w) ban_manager \<Rightarrow> 'w client_world \<Rightarrow> ('cb, 'w) ban_manager \<times> 'w client_world" where
  "subscribe invoke cb mg cw =
     (mg\<lparr>mg_subscribers := mg_subscribers mg @ [cb]\<rparr>,
      safe_invoke invoke cb (BanSnapshot (dict_values (mg_bans mg))) cw)"

definition unsubscribe :: "'cb \<Rightarrow> ('cb, 'w) ban_manager \<Rightarrow> ('cb, 'w) ban_manager" where
  "unsubscribe cb mg = mg\<lparr>mg_subscribers := remove1 cb (mg_subscribers mg)\<rparr>"

subsection \<open>Local changes\<close>

definition on_ban ::
    "(string \<Rightarrow> string \<Rightarrow> rat option) \<Rightarrow> ('cb, 'w) ban_invoke \<Rightarrow> int \<Rightarrow> message \<Rightarrow> ('cb, 'w) ban_manager
      \<Rightarrow> 'w client_world \<Rightarrow> (py_exn + unit) \<times> ('cb, 'w) ban_manager \<times> 'w client_world" where
  "on_ban iso_diff invoke uid ban mg cw =
     (case normalize_ban_entry iso_diff ban (jget ban ''pending'' = JBool True) of
        Inl e \<Rightarrow> (Inl e, mg, cw)
      | Inr None \<Rightarrow> (Inl ValueError, mg, cw)
      | Inr (Some entry) \<Rightarrow>
          if be_uid entry \<noteq> uid then (Inl ValueError, mg, cw)
          else let mg' = mg\<lparr>mg_bans := AList.update uid entry (mg_bans mg)\<rparr> in
            (Inr (), mg', ban_broadcast invoke (BanAdded entry) mg' cw))"

definition on_unban ::
    "('cb, 'w) ban_invoke \<Rightarrow> int \<Rightarrow> ('cb, 'w) ban_manager \<Rightarrow> 'w client_world \<Rightarrow> ('cb, 'w) ban_manager \<times> 'w client_world" where
  "on_unban invoke uid mg cw =
     (let mg' = mg\<lparr>mg_bans := AList.delete uid (mg_bans mg)\<rparr> in (mg', ban_broadcast invoke (BanRemoved uid) mg' cw))"

subsection \<open>Reconciliation\<close>

text \<open>
  The second half of a round, after a successful fetch, without an interruption by another task.
  The messages are listed in the order they are broadcast; the removals are broadcast in the order
  of a Python set, which the language leaves open: here it is the order of the dictionary.
\<close>

definition apply_entry :: "int set \<Rightarrow> ban_entry \<Rightarrow> (int \<times> ban_entry) list \<times> ban_message list
    \<Rightarrow> (int \<times> ban_entry) list \<times> ban_message list" where
  "apply_entry added e = (\<lambda>(bans, msgs).
     (AList.update (be_uid e) e bans, if be_uid e \<in> added then msgs @ [BanAdded e] else msgs))"

definition apply_removal :: "int \<Rightarrow> (int \<times> ban_entry) list \<times> ban_message list
    \<Rightarrow> (int \<times> ban_entry) list \<times> ban_message list" where
  "apply_removal uid = (\<lambda>(bans, msgs). (AList.delete uid bans, msgs @ [BanRemoved uid]))"

definition reconcile_with ::
    "ban_entry list \<Rightarrow> (int \<times> ban_entry) list \<Rightarrow> (int \<times> ban_entry) list \<times> ban_message list" where
  "reconcile_with new_entries bans =
     (let new_uids = be_uid ` set new_entries;
          existing_uids = fst ` set bans;
          pending_uids = fst ` set (filter (\<lambda>(uid, e). be_pending e) bans);
          added_uids = new_uids - existing_uids;
          removed = filter (\<lambda>uid. uid \<notin> new_uids \<and> uid \<notin> pending_uids) (dict_keys bans)
      in fold apply_removal removed (fold (apply_entry added_uids) new_entries (bans, [])))"

datatype reconcile_next = KeepReconciling | StopReconciling

definition reconcile_round ::
    "'w env \<Rightarrow> (string \<Rightarrow> string \<Rightarrow> rat option) \<Rightarrow> ('cb, 'w) ban_invoke
      \<Rightarrow> (('cb, 'w) ban_manager \<Rightarrow> 'w client_world \<Rightarrow> ('cb, 'w) ban_manager \<times> 'w client_world)
      \<Rightarrow> ('cb, 'w) ban_manager \<Rightarrow> 'w client_world \<Rightarrow> reconcile_next \<times> ('cb, 'w) ban_manager \<times> 'w client_world" where
  "reconcile_round E iso_diff invoke on_auth_expired mg cw =
     (if mg_room mg = None then (StopReconciling, mg, cw)
      else case fetch_snapshot E iso_diff mg cw of
        (Inl (Bili (AuthExpiredError _)), cw') \<Rightarrow> (StopReconciling, on_auth_expired mg cw')
      | (Inl _, cw') \<Rightarrow> (KeepReconciling, mg, cw')
      | (Inr new_entries, cw') \<Rightarrow>
          (case reconcile_with new_entries (mg_bans mg) of (bans, msgs) \<Rightarrow>
             let mg' = mg\<lparr>mg_bans := bans\<rparr> in
             (KeepReconciling, mg', fold (\<lambda>msg. ban_broadcast invoke msg mg') msgs cw')))"

subsection \<open>Well-formed entries\<close>

definition ts_ok :: "ban_timestamp \<Rightarrow> bool" where
  "ts_ok t \<longleftrightarrow> (\<forall>s. t = TsStr s \<longrightarrow> s \<noteq> [] \<and> py_strip s = s \<and> ban_as_int (JStr s) = Inr None)"

definition times_ok ::
    "(string \<Rightarrow> string \<Rightarrow> rat option) \<Rightarrow> int option \<Rightarrow> ban_timestamp \<Rightarrow> ban_timestamp \<Rightarrow> bool" where
  "times_ok iso_diff hour created_at expires_at \<longleftrightarrow>
     ts_ok created_at \<and> ts_ok expires_at \<and>
     (hour = None \<longrightarrow> duration_hours iso_diff created_at expires_at = Inr None) \<and>
     (\<forall>c h. expires_at = TsNone \<and> created_at = TsInt c \<and> hour = Some h \<longrightarrow> h \<le> 0)"

definition ban_entry_ok :: "(string \<Rightarrow> string \<Rightarrow> rat option) \<Rightarrow> ban_entry \<Rightarrow> bool" where
  "ban_entry_ok iso_diff e \<longleftrightarrow>
     0 < be_uid e \<and> (\<forall>b. be_block_id e = Some b \<longrightarrow> 0 < b) \<and> (\<forall>u. be_operator_uid e = Some u \<longrightarrow> 0 < u) \<and>
     py_strip (be_uname e) = be_uname e \<and> py_strip (be_operator_name e) = be_operator_name e \<and>
     py_strip (be_reason e) = be_reason e \<and> times_ok iso_diff (be_hour e) (be_created_at e) (be_expires_at e)"

lemma positive_or_none_Some [simp]: "positive_or_none v = Some i \<longleftrightarrow> v = Some i \<and> 0 < i"
  by (auto simp: positive_or_none_def split: option.splits if_splits)

lemma positive_or_none_simps [simp]:
  "positive_or_none (Some i) = (if 0 < i then Some i else None)" "positive_or_none None = None"
  by (simp_all add: positive_or_none_def)

lemma strip_as_text [simp]: "py_strip (as_text v) = as_text v"
  by (cases v) (simp_all add: as_text_def, simp_all add: py_strip_def)

lemma strip_text_or: "py_strip a = a \<Longrightarrow> py_strip b = b \<Longrightarrow> py_strip (text_or a b) = text_or a b"
  by (simp add: text_or_def)

lemma as_timestamp_ok: "as_timestamp v = Inr t \<Longrightarrow> ts_ok t"
proof -
  assume "as_timestamp v = Inr t"
  then obtain n where n: "ban_as_int v = Inr n"
    and t: "t = (case n of Some i \<Rightarrow> TsInt i | None \<Rightarrow> if as_text v = [] then TsNone else TsStr (as_text v))"
    by (auto simp: as_timestamp_def bind_res_Inr_iff)
  show "ts_ok t"
  proof (cases "n = None \<and> as_text v \<noteq> []")
    case True
    then obtain s where v: "v = JStr s" by (cases v) (auto simp: as_text_def)
    then have "ban_as_int (JStr (py_strip s)) = Inr None" using n True by simp
    with True t v show ?thesis by (auto simp: ts_ok_def as_text_def)
  next
    case False
    with t show ?thesis by (auto simp: ts_ok_def split: option.splits if_splits)
  qed
qed

lemma first_timestamp_ok: "first_timestamp raw ks = Inr t \<Longrightarrow> ts_ok t"
proof (induction ks)
  case Nil
  then show ?case by (auto simp: ts_ok_def)
next
  case (Cons k ks)
  then show ?case by (auto simp: bind_res_Inr_iff dest: as_timestamp_ok split: if_splits)
qed

lemma ban_times_ok:
  assumes "ban_times iso_diff raw = Inr (hour, created_at, expires_at)"
  shows "times_ok iso_diff hour created_at expires_at"
proof -
  from assms obtain hour0 expires0 where c: "ts_ok created_at" and e: "ts_ok expires0"
    and h: "(if hour0 = None then duration_hours iso_diff created_at expires0 else Inr hour0) = Inr hour"
    and x: "expires_at = (case (expires0, created_at, hour) of
             (TsNone, TsInt c, Some h) \<Rightarrow> if 0 < h then TsInt (c + h * 3600) else TsNone
           | _ \<Rightarrow> expires0)"
    unfolding ban_times_def bind_res_Inr_iff
    by (auto dest: as_timestamp_ok first_timestamp_ok simp del: first_timestamp.simps)
  show ?thesis
    using c e h x
    by (cases expires0; cases created_at; cases hour) (auto simp: times_ok_def ts_ok_def split: if_splits)
qed

lemma normalize_ban_entry_ok:
  assumes "normalize_ban_entry iso_diff raw pending = Inr (Some e)"
  shows "ban_entry_ok iso_diff e"
proof -
  from assms obtain target has_target uid block1 operator_uid operator_name hour created_at expires_at
    where uid: "positive_or_none target = Some uid"
    and op: "ban_operator raw has_target = Inr (operator_uid, operator_name)"
    and times: "ban_times iso_diff raw = Inr (hour, created_at, expires_at)"
    and e: "e = \<lparr>be_block_id = positive_or_none block1, be_uid = uid,
            be_uname = (if has_target then text_or (as_text (jget raw ''tname'')) (as_text (jget raw ''uname''))
                        else text_or (as_text (jget raw ''uname'')) (as_text (jget raw ''tname''))),
            be_operator_uid = operator_uid, be_operator_name = operator_name, be_hour = hour,
            be_reason = text_or (as_text (jget raw ''reason''))
                          (text_or (as_text (jget raw ''msg'')) (as_text (jget raw ''message''))),
            be_created_at = created_at, be_expires_at = expires_at,
            be_pending = (pending \<or> jget raw ''pending'' = JBool True)\<rparr>"
    unfolding normalize_ban_entry_def
    by (auto simp: bind_res_Inr_iff case_prod_beta split: option.splits)
  have "(\<forall>u. operator_uid = Some u \<longrightarrow> 0 < u) \<and> py_strip operator_name = operator_name"
    using op by (auto simp: ban_operator_def bind_res_Inr_iff strip_text_or Let_def split: if_splits)
  then show ?thesis
    using uid ban_times_ok [OF times] unfolding e by (simp add: ban_entry_ok_def strip_text_or)
qed

text \<open>A cached entry as the dictionary it is.\<close>

definition json_of_int :: "int option \<Rightarrow> json" where
  "json_of_int v = (case v of None \<Rightarrow> JNull | Some i \<Rightarrow> JInt i)"

fun json_of_ts :: "ban_timestamp \<Rightarrow> json" where
  "json_of_ts (TsInt i) = JInt i"
| "json_of_ts (TsStr s) = JStr s"
| "json_of_ts TsNone = JNull"

definition ban_row :: "ban_entry \<Rightarrow> message" where
  "ban_row e =
     [(''block_id'', json_of_int (be_block_id e)), (''uid'', JInt (be_uid e)), (''uname'', JStr (be_uname e)),
      (''operator_uid'', json_of_int (be_operator_uid e)), (''operator_name'', JStr (be_operator_name e)),
      (''hour'', json_of_int (be_hour e)), (''reason'', JStr (be_reason e)),
      (''created_at'', json_of_ts (be_created_at e)), (''expires_at'', json_of_ts (be_expires_at e)),
      (''pending'', JBool (be_pending e))]"

lemma ban_as_int_json_of_int [simp]: "ban_as_int (json_of_int v) = Inr v"
  by (cases v) (simp_all add: json_of_int_def)

lemma as_timestamp_json_of_ts [simp]: "ts_ok t \<Longrightarrow> as_timestamp (json_of_ts t) = Inr t"
  by (cases t) (auto simp: as_timestamp_def ts_ok_def as_text_def simp del: ban_as_int.simps(5))

lemma ban_times_row:
  assumes "times_ok iso_diff (be_hour e) (be_created_at e) (be_expires_at e)"
  shows "ban_times iso_diff (ban_row e) = Inr (be_hour e, be_created_at e, be_expires_at e)"
proof -
  have get: "jget (ban_row e) ''hour'' = json_of_int (be_hour e)"
    "jget_default (ban_row e) ''created_at'' x = json_of_ts (be_created_at e)"
    "jget (ban_row e) ''expires_at'' = json_of_ts (be_expires_at e)"
    "jget (ban_row e) ''expire_time'' = JNull" "jget (ban_row e) ''end_time'' = JNull"
    "jget (ban_row e) ''block_end_time'' = JNull" for x
    by (simp_all add: ban_row_def jget_def jget_default_def)
  have none: "as_timestamp JNull = Inr TsNone" by (simp add: as_timestamp_def as_text_def)
  have expires: "first_timestamp (ban_row e) [''expires_at'', ''expire_time'', ''end_time'', ''block_end_time''] = Inr (be_expires_at e)"
    using assms by (simp add: get none times_ok_def)
  have created: "as_timestamp (json_of_ts (be_created_at e)) = Inr (be_created_at e)"
    using assms by (simp add: times_ok_def)
  have hour: "(if be_hour e = None then duration_hours iso_diff (be_created_at e) (be_expires_at e) else Inr (be_hour e))
      = Inr (be_hour e)"
    using assms by (simp add: times_ok_def)
  have fill: "(case (be_expires_at e, be_created_at e, be_hour e) of
             (TsNone, TsInt c, Some h) \<Rightarrow> if 0 < h then TsInt (c + h * 3600) else TsNone
           | _ \<Rightarrow> be_expires_at e) = be_expires_at e"
    using assms by (cases "be_hour e"; cases "be_created_at e"; cases "be_expires_at e") (auto simp: times_ok_def)
  show ?thesis
    unfolding ban_times_def get expires
    by (simp only: ban_as_int_json_of_int bind_res_simps created hour fill)
qed

lemma normalize_ban_row:
  assumes "ban_entry_ok iso_diff e"
  shows "normalize_ban_entry iso_diff (ban_row e) pending = Inr (Some (e\<lparr>be_pending := pending \<or> be_pending e\<rparr>))"
proof -
  have get: "jget (ban_row e) ''tuid'' = JNull" "jget (ban_row e) ''uid'' = JInt (be_uid e)"
    "jget (ban_row e) ''block_id'' = json_of_int (be_block_id e)" "jget (ban_row e) ''id'' = JNull"
    "jget (ban_row e) ''operator_uid'' = json_of_int (be_operator_uid e)"
    "jget (ban_row e) ''operator_name'' = JStr (be_operator_name e)"
    "jget (ban_row e) ''uname'' = JStr (be_uname e)" "jget (ban_row e) ''tname'' = JNull"
    "jget (ban_row e) ''reason'' = JStr (be_reason e)" "jget (ban_row e) ''msg'' = JNull"
    "jget (ban_row e) ''message'' = JNull" "jget (ban_row e) ''pending'' = JBool (be_pending e)"
    by (simp_all add: ban_row_def jget_def)
  have pos: "(\<forall>b. v = Some b \<longrightarrow> 0 < b) \<Longrightarrow> positive_or_none v = v" for v
    by (cases v) (simp_all add: positive_or_none_def)
  have "ban_target (ban_row e) = Inr (Some (be_uid e), False)"
    by (simp add: ban_target_def get positive_or_none_def)
  moreover have "ban_operator (ban_row e) False = Inr (be_operator_uid e, be_operator_name e)"
    using assms by (simp add: ban_operator_def get ban_entry_ok_def as_text_def pos)
  moreover have "(if be_block_id e = None then ban_as_int JNull else Inr (be_block_id e)) = Inr (be_block_id e)"
    by simp
  moreover have "positive_or_none (Some (be_uid e)) = Some (be_uid e)" and "positive_or_none (be_block_id e) = be_block_id e"
    using assms by (simp_all add: ban_entry_ok_def pos)
  moreover have "ban_times iso_diff (ban_row e) = Inr (be_hour e, be_created_at e, be_expires_at e)"
    using assms by (intro ban_times_row) (simp add: ban_entry_ok_def)
  ultimately show ?thesis
    using assms unfolding normalize_ban_entry_def
    by (simp add: get ban_entry_ok_def as_text_def text_or_def)
qed

subsection \<open>What a fetched list means for the cache\<close>

definition fetched_map :: "ban_entry list \<Rightarrow> (int \<times> ban_entry) list" where
  "fetched_map entries = rev (map (\<lambda>e. (be_uid e, e)) entries)"

text \<open>
  The promise of both refresh and reconciliation: a fetched row wins, a pending row survives its
  absence, every other row disappears.
\<close>

definition merged :: "ban_entry list \<Rightarrow> (int \<Rightarrow> ban_entry option) \<Rightarrow> int \<Rightarrow> ban_entry option" where
  "merged entries old uid =
     (case map_of (fetched_map entries) uid of
        Some e \<Rightarrow> Some e
      | None \<Rightarrow> (case old uid of Some e \<Rightarrow> if be_pending e then Some e else None | None \<Rightarrow> None))"

lemma fetched_map_None: "map_of (fetched_map entries) uid = None \<longleftrightarrow> uid \<notin> be_uid ` set entries"
  by (force simp: fetched_map_def map_of_eq_None_iff)

lemma fold_upsert:
  "map_of (fold (\<lambda>e d. AList.update (be_uid e) e d) entries d) = map_of d ++ map_of (fetched_map entries)"
  by (induction entries arbitrary: d) (auto simp: fetched_map_def map_add_upd)

lemma wf_fold_upsert: "wf_dict d \<Longrightarrow> wf_dict (fold (\<lambda>e d. AList.update (be_uid e) e d) entries d)"
  by (induction entries arbitrary: d) simp_all

lemma wf_dict_tl: "wf_dict ((k, v) # d) \<Longrightarrow> wf_dict d \<and> map_of d k = None"
  by (auto simp: wf_dict_def map_of_eq_None_iff)

lemma map_of_keep_pending:
  "wf_dict old \<Longrightarrow> map_of (keep_pending old d) uid =
     (case map_of d uid of
        Some e \<Rightarrow> Some e
      | None \<Rightarrow> (case map_of old uid of Some e \<Rightarrow> if be_pending e then Some e else None | None \<Rightarrow> None))"
proof (induction old arbitrary: d)
  case Nil
  show ?case by (simp add: keep_pending_def split: option.split)
next
  case (Cons p old)
  obtain k e where p: "p = (k, e)" by force
  with Cons.prems have "wf_dict old" and "map_of old k = None" by (auto dest: wf_dict_tl)
  with Cons.IH show ?case
    by (auto simp: p keep_pending_def split: option.split)
qed

lemma wf_keep_pending: "wf_dict d \<Longrightarrow> wf_dict (keep_pending old d)"
  unfolding keep_pending_def by (induction old arbitrary: d) auto

lemma fold_apply_entry:
  "fold (apply_entry added) entries (bans, msgs) =
     (fold (\<lambda>e d. AList.update (be_uid e) e d) entries bans,
      msgs @ map BanAdded (filter (\<lambda>e. be_uid e \<in> added) entries))"
  by (induction entries arbitrary: bans msgs) (simp_all add: apply_entry_def)

lemma fold_apply_removal:
  "fold apply_removal uids (bans, msgs) = (fold AList.delete uids bans, msgs @ map BanRemoved uids)"
  by (induction uids arbitrary: bans msgs) (simp_all add: apply_removal_def)

text \<open>The uids a subscriber that applies the messages knows.\<close>

fun known_uids :: "ban_message \<Rightarrow> int set \<Rightarrow> int set" where
  "known_uids (BanSnapshot entries) known = be_uid ` set entries"
| "known_uids (BanAdded e) known = insert (be_uid e) known"
| "known_uids (BanRemoved uid) known = known - {uid}"

lemma fold_known_added: "fold known_uids (map BanAdded es) known = known \<union> be_uid ` set es"
  by (induction es arbitrary: known) auto

lemma fold_known_removed: "fold known_uids (map BanRemoved uids) known = known - set uids"
  by (induction uids arbitrary: known) auto

definition removed_uids :: "ban_entry list \<Rightarrow> (int \<times> ban_entry) list \<Rightarrow> int list" where
  "removed_uids entries bans =
     filter (\<lambda>uid. uid \<notin> be_uid ` set entries \<and> uid \<notin> fst ` set (filter (\<lambda>(uid, e). be_pending e) bans)) (dict_keys bans)"

lemma reconcile_with_eq:
  "reconcile_with entries bans =
     (fold AList.delete (removed_uids entries bans) (fold (\<lambda>e d. AList.update (be_uid e) e d) entries bans),
      map BanAdded (filter (\<lambda>e. be_uid e \<in> be_uid ` set entries - fst ` set bans) entries)
        @ map BanRemoved (removed_uids entries bans))"
  by (simp add: reconcile_with_def removed_uids_def Let_def fold_apply_entry fold_apply_removal)

lemma in_removed_uids:
  assumes "wf_dict bans"
  shows "uid \<in> set (removed_uids entries bans) \<longleftrightarrow>
    uid \<notin> be_uid ` set entries \<and> (\<exists>e. map_of bans uid = Some e \<and> \<not> be_pending e)"
proof -
  have "uid \<in> fst ` set (filter (\<lambda>(uid, e). be_pending e) bans) \<longleftrightarrow> (\<exists>e. map_of bans uid = Some e \<and> be_pending e)"
    using in_set_map_of [OF assms] by force
  moreover have "uid \<in> set (dict_keys bans) \<longleftrightarrow> (\<exists>e. map_of bans uid = Some e)"
    using in_set_map_of [OF assms] by (force simp: dict_keys_def)
  ultimately show ?thesis by (auto simp: removed_uids_def)
qed

lemma map_of_reconcile_with:
  assumes "wf_dict bans"
  shows "map_of (fst (reconcile_with entries bans)) uid = merged entries (map_of bans) uid"
  using in_removed_uids [OF assms, of uid entries] fetched_map_None [of entries uid]
  by (auto simp: reconcile_with_eq map_of_fold_delete fold_upsert merged_def map_add_def split: option.splits)

lemma wf_reconcile_with: "wf_dict bans \<Longrightarrow> wf_dict (fst (reconcile_with entries bans))"
  by (simp add: reconcile_with_eq wf_fold_delete wf_fold_upsert)

lemma dom_merged_uids:
  "dom (merged entries old) = be_uid ` set entries \<union> {uid. \<exists>e. old uid = Some e \<and> be_pending e}"
proof -
  have "uid \<in> dom (merged entries old) \<longleftrightarrow>
      uid \<in> be_uid ` set entries \<or> (\<exists>e. old uid = Some e \<and> be_pending e)" for uid
  proof (cases "map_of (fetched_map entries) uid")
    case None
    with fetched_map_None [of entries uid] show ?thesis
      by (cases "old uid") (simp_all add: merged_def domIff)
  next
    case (Some e)
    with fetched_map_None [of entries uid] show ?thesis by (simp add: merged_def domIff)
  qed
  then show ?thesis by blast
qed

lemma fst_set_dom: "fst ` set d = dom (map_of d)"
  by (rule dom_map_of_conv_image_fst [symmetric])

lemma known_after_reconcile:
  assumes "wf_dict bans"
  shows "fold known_uids (snd (reconcile_with entries bans)) (fst ` set bans) = fst ` set (fst (reconcile_with entries bans))"
proof -
  let ?added = "be_uid ` set entries - fst ` set bans"
  have "map_of (fst (reconcile_with entries bans)) = merged entries (map_of bans)"
    using map_of_reconcile_with [OF assms] by blast
  then have "fst ` set (fst (reconcile_with entries bans)) = dom (merged entries (map_of bans))"
    by (simp add: fst_set_dom)
  also have "\<dots> = (fst ` set bans \<union> be_uid ` set entries) - set (removed_uids entries bans)"
    using in_removed_uids [OF assms, of _ entries] by (auto simp: dom_merged_uids fst_set_dom)
  also have "\<dots> = (fst ` set bans \<union> be_uid ` set (filter (\<lambda>e. be_uid e \<in> ?added) entries)) - set (removed_uids entries bans)"
    by auto
  also have "\<dots> = fold known_uids (snd (reconcile_with entries bans)) (fst ` set bans)"
    by (simp add: reconcile_with_eq fold_known_added fold_known_removed)
  finally show ?thesis by simp
qed

lemma bans_by_uid_fetched: "map_of (bans_by_uid entries) = map_of (fetched_map entries)"
  by (simp add: bans_by_uid_def fold_upsert)

lemma wf_bans_by_uid: "wf_dict (bans_by_uid entries)"
  by (simp add: bans_by_uid_def wf_fold_upsert)

subsection \<open>What the ban list promises\<close>

text \<open>
  C36. Normalisation is idempotent: a row it has produced, passed through it again as a dictionary,
  comes back unchanged, with the pending flag raised if the caller asks for it. In particular the
  target of a cached row is never mistaken for its moderator, and no duration or expiry drifts.
\<close>

theorem normalize_ban_entry_idempotent:
  assumes "normalize_ban_entry iso_diff raw p = Inr (Some e)"
  shows "normalize_ban_entry iso_diff (ban_row e) q = Inr (Some (e\<lparr>be_pending := q \<or> be_pending e\<rparr>)) \<and>
    0 < be_uid e \<and> (\<forall>b. be_block_id e = Some b \<longrightarrow> 0 < b) \<and> (\<forall>u. be_operator_uid e = Some u \<longrightarrow> 0 < u)"
  using normalize_ban_row [OF normalize_ban_entry_ok [OF assms]] normalize_ban_entry_ok [OF assms]
  by (simp add: ban_entry_ok_def)

definition ban_row_witness :: message where
  "ban_row_witness =
     [(''tuid'', JStr ''7''), (''tname'', JStr '' bob ''), (''uid'', JInt 9), (''name'', JStr ''mod''),
      (''id'', JInt 5), (''ctime'', JInt 1000), (''hour'', JInt 2)]"

definition ban_entry_witness :: ban_entry where
  "ban_entry_witness =
     \<lparr>be_block_id = Some 5, be_uid = 7, be_uname = ''bob'', be_operator_uid = Some 9, be_operator_name = ''mod'',
      be_hour = Some 2, be_reason = [], be_created_at = TsInt 1000, be_expires_at = TsInt 8200, be_pending = False\<rparr>"

lemma ban_witness_normalizes: "normalize_ban_entry (\<lambda>a b. None) ban_row_witness False = Inr (Some ban_entry_witness)"
  by (simp add: normalize_ban_entry_def ban_row_witness_def ban_target_def ban_operator_def ban_times_def
      jget_def jget_default_def as_text_def as_timestamp_def text_or_def py_strip_def is_space_def lstrip_by_def
      all_digits_def is_digit_def py_int_def digits_value_def ban_entry_witness_def Let_def)

lemma normalize_ban_entry_idempotent_witness:
  "normalize_ban_entry (\<lambda>a b. None) (ban_row ban_entry_witness) True = Inr (Some (ban_entry_witness\<lparr>be_pending := True\<rparr>))"
  using normalize_ban_entry_idempotent [OF ban_witness_normalizes, of True] by simp

text \<open>
  C5. A reconciliation round with a successful fetch leaves exactly the fetched rows and the pending
  rows that were not fetched, and the broadcast deltas take a subscriber that knew the uids of the
  old cache to the uids of the new one.
\<close>

theorem reconcile_round_correct:
  assumes "wf_dict (mg_bans mg)" and "mg_room mg \<noteq> None"
    and "fetch_snapshot E iso_diff mg cw = (Inr entries, cw1)"
    and "reconcile_round E iso_diff invoke on_auth_expired mg cw = (next, mg', cw2)"
  shows "next = KeepReconciling \<and> wf_dict (mg_bans mg') \<and>
    map_of (mg_bans mg') = merged entries (map_of (mg_bans mg)) \<and> mg_subscribers mg' = mg_subscribers mg \<and>
    (\<exists>msgs. cw2 = fold (\<lambda>msg. ban_broadcast invoke msg mg') msgs cw1 \<and>
       fold known_uids msgs (fst ` set (mg_bans mg)) = fst ` set (mg_bans mg'))"
proof -
  obtain bans msgs where r: "reconcile_with entries (mg_bans mg) = (bans, msgs)" by force
  have "next = KeepReconciling" and mg': "mg' = mg\<lparr>mg_bans := bans\<rparr>"
    and "cw2 = fold (\<lambda>msg. ban_broadcast invoke msg mg') msgs cw1"
    using assms(2-4) r by (auto simp: reconcile_round_def Let_def)
  moreover have "map_of bans = merged entries (map_of (mg_bans mg))"
    using map_of_reconcile_with [OF assms(1), of entries] r by (intro ext) simp
  moreover have "wf_dict bans" using wf_reconcile_with [OF assms(1), of entries] r by simp
  moreover have "fold known_uids msgs (fst ` set (mg_bans mg)) = fst ` set bans"
    using known_after_reconcile [OF assms(1), of entries] r by simp
  ultimately show ?thesis by auto
qed

definition banned_server :: "http_request \<Rightarrow> http_response" where
  "banned_server rq =
     ok_response [(''data'', JList [JDict ban_row_witness]), (''total'', JInt 1), (''total_page'', JInt 1)]"

definition manager_witness :: "(nat, http_request list) ban_manager" where
  "manager_witness =
     \<lparr>mg_bans = [(8, ban_entry_witness\<lparr>be_uid := 8\<rparr>), (6, ban_entry_witness\<lparr>be_uid := 6, be_pending := True\<rparr>)],
      mg_subscribers = [1], mg_reconciling = True, mg_room = Some (6, \<lambda>_. True)\<rparr>"

lemma fetch_witness:
  "\<exists>cw. fetch_snapshot (table_net banned_server) (\<lambda>a b. None) manager_witness (client_witness, []) = (Inr [ban_entry_witness], cw)"
proof -
  have "silent_page (banned_server rq) [JDict ban_row_witness] 1 1" for rq
    by (simp add: silent_page_def banned_server_def ok_response_def json_response_def jget_def jget_default_def)
  then have "ban_page_of 1 [] (banned_server rq) = Inr (Break [JDict ban_row_witness])" for rq
    using ban_page_of_silent_page [of "banned_server rq" "[JDict ban_row_witness]" 1 1 1 "[]"] by simp
  then have "\<exists>cw. get_ban_list (table_net banned_server) (\<lambda>_. True) 6 (client_witness, []) = (Inr [JDict ban_row_witness], cw)"
    unfolding get_ban_list_def by (subst ban_pages_step) (simp add: BAN_LIST_MAX_PAGES_def del: One_nat_def)
  then show ?thesis
    by (auto simp: fetch_snapshot_def manager_witness_def bind_io_def ban_witness_normalizes)
qed

lemma reconcile_round_correct_witness:
  "\<exists>mg' cw. reconcile_round (table_net banned_server) (\<lambda>a b. None) (\<lambda>cb m w. (Inr (), w)) Pair manager_witness (client_witness, [])
      = (KeepReconciling, mg', cw) \<and>
     map_of (mg_bans mg') 8 = None \<and> map_of (mg_bans mg') 7 = Some ban_entry_witness \<and> map_of (mg_bans mg') 6 \<noteq> None"
proof -
  obtain cw1 where f: "fetch_snapshot (table_net banned_server) (\<lambda>a b. None) manager_witness (client_witness, [])
      = (Inr [ban_entry_witness], cw1)" using fetch_witness by blast
  obtain nx mg' cw2 where r: "reconcile_round (table_net banned_server) (\<lambda>a b. None) (\<lambda>cb m w. (Inr (), w)) Pair manager_witness
      (client_witness, []) = (nx, mg', cw2)" by (metis prod_cases3)
  have "wf_dict (mg_bans manager_witness)" and "mg_room manager_witness \<noteq> None"
    by (simp_all add: manager_witness_def wf_dict_def)
  from reconcile_round_correct [OF this f r] r show ?thesis
    by (simp add: merged_def fetched_map_def manager_witness_def ban_entry_witness_def)
qed

text \<open>
  C20. A refresh replaces the cache by the fetched rows, keeping the pending rows that were not
  fetched when asked to, returns it and sends it to the subscribers as one snapshot. A failed fetch
  raises and changes neither the cache nor the subscribers.
\<close>

theorem refresh_correct:
  assumes "wf_dict (mg_bans mg)" and "refresh E iso_diff invoke preserve_pending mg cw = (r, mg', cw2)"
  shows "(case fetch_snapshot E iso_diff mg cw of
      (Inl e, cw1) \<Rightarrow> r = Inl e \<and> mg' = mg \<and> cw2 = cw1
    | (Inr entries, cw1) \<Rightarrow>
        r = Inr (dict_values (mg_bans mg')) \<and> mg' = mg\<lparr>mg_bans := mg_bans mg'\<rparr> \<and> wf_dict (mg_bans mg') \<and>
        map_of (mg_bans mg') = merged entries (if preserve_pending then map_of (mg_bans mg) else Map.empty) \<and>
        cw2 = ban_broadcast invoke (BanSnapshot (dict_values (mg_bans mg'))) mg' cw1)"
proof -
  obtain f cw1 where Pair: "fetch_snapshot E iso_diff mg cw = (f, cw1)" by (metis surj_pair)
  show ?thesis
  proof (cases f)
    case (Inl e)
    then have "r = Inl e" and "mg' = mg" and "cw2 = cw1"
      using Pair assms(2) by (auto simp: refresh_def)
    then show ?thesis using Pair Inl by simp
  next
    case (Inr entries)
    let ?bans = "if preserve_pending then keep_pending (mg_bans mg) (bans_by_uid entries) else bans_by_uid entries"
    have mg': "mg' = mg\<lparr>mg_bans := ?bans\<rparr>" and "r = Inr (dict_values ?bans)"
      and "cw2 = ban_broadcast invoke (BanSnapshot (dict_values ?bans)) mg' cw1"
      using Pair Inr assms(2) by (auto simp: refresh_def Let_def)
    moreover have "map_of ?bans uid = merged entries (if preserve_pending then map_of (mg_bans mg) else Map.empty) uid" for uid
      by (simp add: merged_def map_of_keep_pending [OF assms(1)] bans_by_uid_fetched split: option.split)
    moreover have "wf_dict ?bans" by (simp add: wf_bans_by_uid wf_keep_pending)
    ultimately show ?thesis using Pair Inr by (auto simp: fun_eq_iff)
  qed
qed

lemma refresh_correct_witness:
  "\<exists>mg' cw. refresh (table_net banned_server) (\<lambda>a b. None) (\<lambda>cb m w. (Inr (), w)) True manager_witness (client_witness, [])
      = (Inr (dict_values (mg_bans mg')), mg', cw) \<and> map_of (mg_bans mg') 8 = None"
proof -
  obtain cw1 where f: "fetch_snapshot (table_net banned_server) (\<lambda>a b. None) manager_witness (client_witness, [])
      = (Inr [ban_entry_witness], cw1)" using fetch_witness by blast
  obtain r mg' cw2 where ref: "refresh (table_net banned_server) (\<lambda>a b. None) (\<lambda>cb m w. (Inr (), w)) True manager_witness
      (client_witness, []) = (r, mg', cw2)" by (metis prod_cases3)
  have "wf_dict (mg_bans manager_witness)" by (simp add: manager_witness_def wf_dict_def)
  from refresh_correct [OF this ref] f ref show ?thesis
    by (simp add: merged_def fetched_map_def manager_witness_def ban_entry_witness_def)
qed

subsection \<open>The invariant of the cache\<close>

text \<open>Every entry is well formed and stored under its own uid, and only a room has a reconcile task.\<close>

definition cache_ok :: "(string \<Rightarrow> string \<Rightarrow> rat option) \<Rightarrow> (int \<times> ban_entry) list \<Rightarrow> bool" where
  "cache_ok iso_diff bans \<longleftrightarrow> wf_dict bans \<and> (\<forall>(uid, e) \<in> set bans. be_uid e = uid \<and> ban_entry_ok iso_diff e)"

definition manager_ok :: "(string \<Rightarrow> string \<Rightarrow> rat option) \<Rightarrow> ('cb, 'w) ban_manager \<Rightarrow> bool" where
  "manager_ok iso_diff mg \<longleftrightarrow> cache_ok iso_diff (mg_bans mg) \<and> (mg_reconciling mg \<longrightarrow> mg_room mg \<noteq> None)"

lemma cache_ok_Nil [simp]: "cache_ok iso_diff []"
  by (simp add: cache_ok_def)

lemma cache_ok_lookup: "cache_ok iso_diff bans \<Longrightarrow> map_of bans uid = Some e \<Longrightarrow> be_uid e = uid \<and> ban_entry_ok iso_diff e"
  by (auto simp: cache_ok_def dest: map_of_SomeD)

lemma cache_okI:
  assumes "wf_dict bans" and "\<And>uid e. map_of bans uid = Some e \<Longrightarrow> be_uid e = uid \<and> ban_entry_ok iso_diff e"
  shows "cache_ok iso_diff bans"
  using assms by (auto simp: cache_ok_def in_set_map_of)

lemma cache_ok_update:
  "cache_ok iso_diff bans \<Longrightarrow> ban_entry_ok iso_diff e \<Longrightarrow> cache_ok iso_diff (AList.update (be_uid e) e bans)"
  by (rule cache_okI) (auto simp: cache_ok_def dest: map_of_SomeD split: if_splits)

lemma cache_ok_delete: "cache_ok iso_diff bans \<Longrightarrow> cache_ok iso_diff (AList.delete uid bans)"
  by (rule cache_okI) (auto simp: cache_ok_def dest: map_of_SomeD split: if_splits)

lemma normalize_rows_ok: "normalize_rows iso_diff rows = Inr entries \<Longrightarrow> \<forall>e \<in> set entries. ban_entry_ok iso_diff e"
proof (induction rows arbitrary: entries rule: normalize_rows.induct)
  case (2 iso_diff raw rows)
  then obtain entry es where entry: "normalize_ban_entry iso_diff raw False = Inr entry"
    and es: "normalize_rows iso_diff rows = Inr es" and entries: "entries = (case entry of None \<Rightarrow> es | Some e \<Rightarrow> e # es)"
    by (auto simp: bind_res_Inr_iff)
  have "\<forall>e \<in> set es. ban_entry_ok iso_diff e" using 2 entry es by simp
  with entry entries show ?case by (auto split: option.splits dest: normalize_ban_entry_ok)
qed simp_all

lemma fetch_snapshot_ok:
  assumes "fetch_snapshot E iso_diff mg cw = (Inr entries, cw')"
  shows "\<forall>e \<in> set entries. ban_entry_ok iso_diff e"
proof (cases "mg_room mg")
  case None
  then show ?thesis using assms by (simp add: fetch_snapshot_def)
next
  case (Some room)
  obtain room_id is_running where room: "room = (room_id, is_running)" by force
  obtain g cw1 where g: "get_ban_list E is_running room_id cw = (g, cw1)" by (metis surj_pair)
  obtain rows where "g = Inr rows"
    using assms by (cases g) (simp_all add: fetch_snapshot_def Some room bind_io_def g)
  with assms have "normalize_rows iso_diff rows = Inr entries"
    by (cases "normalize_rows iso_diff rows") (simp_all add: fetch_snapshot_def Some room bind_io_def g)
  then show ?thesis by (rule normalize_rows_ok)
qed

lemma cache_ok_bans_by_uid: "\<forall>e \<in> set entries. ban_entry_ok iso_diff e \<Longrightarrow> cache_ok iso_diff (bans_by_uid entries)"
proof -
  have "cache_ok iso_diff d \<Longrightarrow> \<forall>e \<in> set entries. ban_entry_ok iso_diff e
      \<Longrightarrow> cache_ok iso_diff (fold (\<lambda>e d. AList.update (be_uid e) e d) entries d)" for d
    by (induction entries arbitrary: d) (simp_all add: cache_ok_update)
  then show "\<forall>e \<in> set entries. ban_entry_ok iso_diff e \<Longrightarrow> cache_ok iso_diff (bans_by_uid entries)"
    by (simp add: bans_by_uid_def)
qed

lemma cache_ok_keep_pending:
  assumes "cache_ok iso_diff old" and "cache_ok iso_diff d"
  shows "cache_ok iso_diff (keep_pending old d)"
proof (rule cache_okI)
  show "wf_dict (keep_pending old d)" using assms(2) by (simp add: cache_ok_def wf_keep_pending)
next
  fix uid e
  assume "map_of (keep_pending old d) uid = Some e"
  then have "map_of d uid = Some e \<or> map_of old uid = Some e"
    using assms(1) by (auto simp: cache_ok_def map_of_keep_pending split: option.splits if_splits)
  then show "be_uid e = uid \<and> ban_entry_ok iso_diff e"
    using cache_ok_lookup [OF assms(1)] cache_ok_lookup [OF assms(2)] by blast
qed

lemma refresh_keeps:
  assumes "refresh E iso_diff invoke preserve mg cw = (r, mg', cw')"
  shows "manager_ok iso_diff mg \<Longrightarrow> manager_ok iso_diff mg'"
    and "mg_room mg' = mg_room mg" and "mg_subscribers mg' = mg_subscribers mg"
    and "\<And>e. r = Inl e \<Longrightarrow> mg' = mg"
proof -
  obtain f cw1 where f: "fetch_snapshot E iso_diff mg cw = (f, cw1)" by (metis surj_pair)
  show "manager_ok iso_diff mg \<Longrightarrow> manager_ok iso_diff mg'"
    using assms f fetch_snapshot_ok [of E iso_diff mg cw _ cw1]
    by (cases f) (auto simp: refresh_def Let_def manager_ok_def intro!: cache_ok_keep_pending cache_ok_bans_by_uid)
  show "mg_room mg' = mg_room mg" "mg_subscribers mg' = mg_subscribers mg" "\<And>e. r = Inl e \<Longrightarrow> mg' = mg"
    using assms f by (auto simp: refresh_def Let_def split: sum.splits)
qed

text \<open>A pending row survives a refresh: it stays, or the fetched row of the same uid takes its place.\<close>

lemma refresh_keeps_pending:
  assumes "refresh E iso_diff invoke True mg cw = (r, mg', cw')" and "wf_dict (mg_bans mg)"
    and "map_of (mg_bans mg) uid = Some e" and "be_pending e"
  shows "map_of (mg_bans mg') uid \<noteq> None"
proof (cases "fst (fetch_snapshot E iso_diff mg cw)")
  case (Inl err)
  then have "mg' = mg" using assms(1) by (auto simp: refresh_def Let_def split: prod.splits sum.splits)
  with assms(3) show ?thesis by simp
next
  case (Inr entries)
  then have "mg_bans mg' = keep_pending (mg_bans mg) (bans_by_uid entries)"
    using assms(1) by (auto simp: refresh_def Let_def split: prod.splits sum.splits)
  then show ?thesis using assms(2-4) by (auto simp: map_of_keep_pending split: option.split)
qed

end
