(* ===== verification/Auth_Session.thy ===== *)
theory Auth_Session
  imports Bili_Client
begin

section \<open>The authentication state (\<open>auth/session.py\<close>, \<open>config.py\<close>)\<close>

text \<open>
  \<open>AuthSession\<close> is a state machine with three states over the cookies of the settings and the answer
  of \<open>/nav\<close>, a registry of listeners for the expiry of the cookies, and the gate of the routes. The
  client it asks is part of the world of the coroutines.
\<close>

subsection \<open>Settings\<close>

record settings =
  st_SESSDATA :: string
  st_BILI_JCT :: string
  st_BUVID3 :: "string option"
  st_ROOM_ID :: "int option"
  st_HOST :: string
  st_PORT :: int
  st_DEBUG :: bool

definition default_settings :: settings where
  "default_settings = \<lparr>st_SESSDATA = [], st_BILI_JCT = [], st_BUVID3 = None, st_ROOM_ID = None,
     st_HOST = ''127.0.0.1'', st_PORT = 8000, st_DEBUG = False\<rparr>"

definition settings_cookies :: "settings \<Rightarrow> (string \<times> string) list" where
  "settings_cookies st =
     [(''SESSDATA'', st_SESSDATA st), (''bili_jct'', st_BILI_JCT st)] @
     (case st_BUVID3 st of None \<Rightarrow> [] | Some b \<Rightarrow> if b = [] then [] else [(''buvid3'', b)])"

definition cors_origins :: "string list" where
  "cors_origins = [''http://localhost:5173'', ''http://127.0.0.1:5173'', ''http://localhost:8000'', ''http://127.0.0.1:8000'']"

subsection \<open>State\<close>

datatype auth_state = Authenticated | NeedsLogin | Expired

record 'cb auth_session =
  au_sessdata_override :: "string option"
  au_bili_jct_override :: "string option"
  au_state :: auth_state
  au_callbacks :: "'cb list"

definition new_auth_session :: "string option \<Rightarrow> string option \<Rightarrow> 'cb auth_session" where
  "new_auth_session sessdata bili_jct =
     \<lparr>au_sessdata_override = sessdata, au_bili_jct_override = bili_jct, au_state = NeedsLogin, au_callbacks = []\<rparr>"

definition load_cookie_settings :: "settings \<Rightarrow> string \<times> string" where
  "load_cookie_settings st = (st_SESSDATA st, st_BILI_JCT st)"

definition resolve_cookies :: "settings \<Rightarrow> 'cb auth_session \<Rightarrow> string \<times> string" where
  "resolve_cookies st a =
     (case load_cookie_settings st of (settings_sess, settings_jct) \<Rightarrow>
        (case au_sessdata_override a of Some x \<Rightarrow> x | None \<Rightarrow> settings_sess,
         case au_bili_jct_override a of Some x \<Rightarrow> x | None \<Rightarrow> settings_jct))"

subsection \<open>Checking the cookies\<close>

definition check_on_startup ::
    "'w env \<Rightarrow> settings \<Rightarrow> 'cb auth_session \<Rightarrow> bili_client \<times> 'w
      \<Rightarrow> (exn + auth_state) \<times> 'cb auth_session \<times> (bili_client \<times> 'w)" where
  "check_on_startup E st a cw =
     (case resolve_cookies st a of (sessdata, bili_jct) \<Rightarrow>
        if sessdata = [] \<or> bili_jct = [] then (Inr NeedsLogin, a\<lparr>au_state := NeedsLogin\<rparr>, cw)
        else case get_user_info E cw of
          (Inl (Bili (AuthExpiredError m)), cw') \<Rightarrow> (Inr Expired, a\<lparr>au_state := Expired\<rparr>, cw')
        | (Inl e, cw') \<Rightarrow> (Inl e, a, cw')
        | (Inr data, cw') \<Rightarrow>
            (let s = (if data \<noteq> None \<and> data \<noteq> Some [] then Authenticated else Expired)
             in (Inr s, a\<lparr>au_state := s\<rparr>, cw')))"

definition mark_authenticated_after_login ::
    "'w env \<Rightarrow> string \<Rightarrow> string \<Rightarrow> string option \<Rightarrow> settings \<Rightarrow> 'cb auth_session \<Rightarrow> bili_client \<times> 'w
      \<Rightarrow> (exn + auth_state) \<times> settings \<times> 'cb auth_session \<times> (bili_client \<times> 'w)" where
  "mark_authenticated_after_login E sessdata bili_jct buvid3 st a cw =
     (let st1 = st\<lparr>st_SESSDATA := sessdata, st_BILI_JCT := bili_jct\<rparr>;
          st2 = (case buvid3 of None \<Rightarrow> st1 | Some b \<Rightarrow> st1\<lparr>st_BUVID3 := Some b\<rparr>)
      in case cw of (c, w) \<Rightarrow>
           (case check_on_startup E st2 a (update_cookies c (settings_cookies st2), w) of
              (r, a', cw') \<Rightarrow> (r, st2, a', cw')))"

subsection \<open>Expiry\<close>

definition on_expired :: "'cb \<Rightarrow> 'cb auth_session \<Rightarrow> 'cb auth_session" where
  "on_expired cb a = a\<lparr>au_callbacks := au_callbacks a @ [cb]\<rparr>"

definition remove_on_expired :: "'cb \<Rightarrow> 'cb auth_session \<Rightarrow> 'cb auth_session" where
  "remove_on_expired cb a = a\<lparr>au_callbacks := remove1 cb (au_callbacks a)\<rparr>"

text \<open>The loop over the snapshot of the listeners; what one raises is logged.\<close>

fun expire_each :: "('cb \<Rightarrow> 'm \<Rightarrow> 'v \<Rightarrow> (py_exn + unit) \<times> 'v) \<Rightarrow> 'cb list \<Rightarrow> 'm \<Rightarrow> 'v \<Rightarrow> 'v" where
  "expire_each invoke [] m v = v"
| "expire_each invoke (cb # cbs) m v =
     (case invoke cb m v of (Inl e, v') \<Rightarrow> expire_each invoke cbs m v' | (Inr _, v') \<Rightarrow> expire_each invoke cbs m v')"

interpretation expiry_fanout: isolating_fanout expire_each
  by unfold_locales (auto split: prod.split sum.split)

definition handle_auth_expired ::
    "('cb \<Rightarrow> unit \<Rightarrow> 'v \<Rightarrow> (py_exn + unit) \<times> 'v) \<Rightarrow> 'cb auth_session \<Rightarrow> 'v \<Rightarrow> 'cb auth_session \<times> 'v" where
  "handle_auth_expired invoke a v =
     (let a' = a\<lparr>au_state := Expired\<rparr> in (a', expire_each invoke (au_callbacks a') () v))"

subsection \<open>The gate\<close>

text \<open>The left summand is \<open>NotAuthenticatedError\<close>, which carries the state.\<close>

definition require_authenticated :: "'cb auth_session \<Rightarrow> auth_state + unit" where
  "require_authenticated a = (if au_state a \<noteq> Authenticated then Inl (au_state a) else Inr ())"

definition get_current_user :: "'w env \<Rightarrow> ('w, message option) client_io" where
  "get_current_user E = get_user_info E"

subsection \<open>Runs\<close>

text \<open>Any sequence of the operations; a login and a check are the ones that ask \<open>/nav\<close>.\<close>

datatype 'cb auth_op =
    Check
  | Login string string "string option"
  | Expire
  | Register 'cb
  | Unregister 'cb

type_synonym ('cb, 'w) auth_world = "settings \<times> 'cb auth_session \<times> (bili_client \<times> 'w)"

fun auth_step ::
    "'w env \<Rightarrow> ('cb \<Rightarrow> unit \<Rightarrow> bili_client \<times> 'w \<Rightarrow> (py_exn + unit) \<times> (bili_client \<times> 'w)) \<Rightarrow> 'cb auth_op
      \<Rightarrow> ('cb, 'w) auth_world \<Rightarrow> ('cb, 'w) auth_world" where
  "auth_step E invoke Check (st, a, cw) = (case check_on_startup E st a cw of (_, a', cw') \<Rightarrow> (st, a', cw'))"
| "auth_step E invoke (Login s j b) (st, a, cw) =
     (case mark_authenticated_after_login E s j b st a cw of (_, st', a', cw') \<Rightarrow> (st', a', cw'))"
| "auth_step E invoke Expire (st, a, cw) = (case handle_auth_expired invoke a cw of (a', cw') \<Rightarrow> (st, a', cw'))"
| "auth_step E invoke (Register cb) (st, a, cw) = (st, on_expired cb a, cw)"
| "auth_step E invoke (Unregister cb) (st, a, cw) = (st, remove_on_expired cb a, cw)"

definition auth_run where
  "auth_run E invoke ops s = fold (auth_step E invoke) ops s"

text \<open>
  The request an operation makes, if any: the settings and the client with which it asks, and what
  it is told.
\<close>

fun asks :: "'w env \<Rightarrow> 'cb auth_op \<Rightarrow> ('cb, 'w) auth_world \<Rightarrow> (settings \<times> (exn + message option)) option" where
  "asks E Check (st, a, cw) = Some (st, fst (get_user_info E cw))"
| "asks E (Login s j b) (st, a, (c, w)) =
     (let st1 = st\<lparr>st_SESSDATA := s, st_BILI_JCT := j\<rparr>;
          st2 = (case b of None \<Rightarrow> st1 | Some x \<Rightarrow> st1\<lparr>st_BUVID3 := Some x\<rparr>)
      in Some (st2, fst (get_user_info E (update_cookies c (settings_cookies st2), w))))"
| "asks E _ s = None"

text \<open>The operation verifies the cookies: both are set, and \<open>/nav\<close> knows the user.\<close>

definition verifies :: "'w env \<Rightarrow> 'cb auth_op \<Rightarrow> ('cb, 'w) auth_world \<Rightarrow> bool" where
  "verifies E op s \<longleftrightarrow>
     (\<exists>st d. asks E op s = Some (st, Inr (Some d)) \<and> d \<noteq> [] \<and>
        fst (resolve_cookies st (fst (snd s))) \<noteq> [] \<and> snd (resolve_cookies st (fst (snd s))) \<noteq> [])"

text \<open>The operation says nothing of the cookies: it does not ask, or the request fails otherwise.\<close>

definition undecided :: "'w env \<Rightarrow> 'cb auth_op \<Rightarrow> ('cb, 'w) auth_world \<Rightarrow> bool" where
  "undecided E op s \<longleftrightarrow> op \<noteq> Expire \<and>
     (\<forall>st r. asks E op s = Some (st, r) \<longrightarrow>
        (\<exists>e. r = Inl e \<and> (\<forall>m. e \<noteq> Bili (AuthExpiredError m))) \<and>
        fst (resolve_cookies st (fst (snd s))) \<noteq> [] \<and> snd (resolve_cookies st (fst (snd s))) \<noteq> [])"

lemma check_state:
  assumes "check_on_startup E st a cw = (r, a', cw')"
  shows "au_state a' = (case resolve_cookies st a of (s, j) \<Rightarrow>
      if s = [] \<or> j = [] then NeedsLogin
      else case fst (get_user_info E cw) of
        Inl e \<Rightarrow> (if \<exists>m. e = Bili (AuthExpiredError m) then Expired else au_state a)
      | Inr d \<Rightarrow> (if d \<noteq> None \<and> d \<noteq> Some [] then Authenticated else Expired))"
proof -
  obtain x cw1 where "get_user_info E cw = (x, cw1)" by (metis surj_pair)
  with assms show ?thesis
    by (cases x) (auto simp: check_on_startup_def Let_def split: prod.splits if_splits exn.splits bili_error.splits)
qed

lemma check_keeps:
  "check_on_startup E st a cw = (r, a', cw') \<Longrightarrow> a' = a\<lparr>au_state := au_state a'\<rparr>"
  by (auto simp: check_on_startup_def Let_def split: prod.splits if_splits sum.splits exn.splits bili_error.splits)

text \<open>The verdict of one operation.\<close>

lemma check_verdict:
  assumes "check_on_startup E st a cw = (r, a', cw')"
    and v: "v \<longleftrightarrow> (\<exists>d. fst (get_user_info E cw) = Inr (Some d) \<and> d \<noteq> []) \<and> fst (resolve_cookies st a) \<noteq> [] \<and> snd (resolve_cookies st a) \<noteq> []"
    and u: "u \<longleftrightarrow> (\<exists>e. fst (get_user_info E cw) = Inl e \<and> (\<forall>m. e \<noteq> Bili (AuthExpiredError m))) \<and>
        fst (resolve_cookies st a) \<noteq> [] \<and> snd (resolve_cookies st a) \<noteq> []"
  shows "if v then au_state a' = Authenticated else if u then au_state a' = au_state a else au_state a' \<noteq> Authenticated"
proof (cases "fst (get_user_info E cw)")
  case (Inl e)
  then show ?thesis using check_state [OF assms(1)] by (cases "resolve_cookies st a") (auto simp: v u split: if_splits)
next
  case (Inr d)
  then show ?thesis using check_state [OF assms(1)] by (cases "resolve_cookies st a"; cases d) (auto simp: v u split: if_splits)
qed

lemma step_verdict:
  "if verifies E op s then au_state (fst (snd (auth_step E invoke op s))) = Authenticated
   else if undecided E op s then au_state (fst (snd (auth_step E invoke op s))) = au_state (fst (snd s))
   else au_state (fst (snd (auth_step E invoke op s))) \<noteq> Authenticated"
proof -
  obtain st a c w where s: "s = (st, a, (c, w))" by (metis prod_cases3 surj_pair)
  show ?thesis
  proof (cases op)
    case Check
    obtain r a' cw' where k: "check_on_startup E st a (c, w) = (r, a', cw')" by (metis prod_cases3)
    have "verifies E op s \<longleftrightarrow> (\<exists>d. fst (get_user_info E (c, w)) = Inr (Some d) \<and> d \<noteq> []) \<and>
        fst (resolve_cookies st a) \<noteq> [] \<and> snd (resolve_cookies st a) \<noteq> []"
      and "undecided E op s \<longleftrightarrow> (\<exists>e. fst (get_user_info E (c, w)) = Inl e \<and> (\<forall>m. e \<noteq> Bili (AuthExpiredError m))) \<and>
        fst (resolve_cookies st a) \<noteq> [] \<and> snd (resolve_cookies st a) \<noteq> []"
      using Check by (auto simp: s verifies_def undecided_def)
    from check_verdict [OF k this] show ?thesis using Check k by (simp add: s)
  next
    case (Login sess j b)
    let ?st = "case b of None \<Rightarrow> st\<lparr>st_SESSDATA := sess, st_BILI_JCT := j\<rparr>
      | Some x \<Rightarrow> st\<lparr>st_SESSDATA := sess, st_BILI_JCT := j, st_BUVID3 := Some x\<rparr>"
    let ?cw = "(update_cookies c (settings_cookies ?st), w)"
    obtain r a' cw' where k: "check_on_startup E ?st a ?cw = (r, a', cw')" by (metis prod_cases3)
    have "auth_step E invoke op s = (?st, a', cw')"
      using Login k by (simp add: s mark_authenticated_after_login_def Let_def split: option.splits)
    moreover have ask: "asks E op s = Some (?st, fst (get_user_info E ?cw))"
      using Login by (simp add: s Let_def split: option.splits)
    moreover from ask have "verifies E op s \<longleftrightarrow> (\<exists>d. fst (get_user_info E ?cw) = Inr (Some d) \<and> d \<noteq> []) \<and>
        fst (resolve_cookies ?st a) \<noteq> [] \<and> snd (resolve_cookies ?st a) \<noteq> []"
      and "undecided E op s \<longleftrightarrow> (\<exists>e. fst (get_user_info E ?cw) = Inl e \<and> (\<forall>m. e \<noteq> Bili (AuthExpiredError m))) \<and>
        fst (resolve_cookies ?st a) \<noteq> [] \<and> snd (resolve_cookies ?st a) \<noteq> []"
      using Login unfolding verifies_def undecided_def s by (auto simp del: asks.simps)
    note check_verdict [OF k this]
    ultimately show ?thesis by (simp add: s split: option.splits)
  next
    case Expire
    then show ?thesis by (simp add: s verifies_def undecided_def handle_auth_expired_def Let_def)
  qed (simp_all add: s verifies_def undecided_def on_expired_def remove_on_expired_def)
qed

fun all_undecided where
  "all_undecided E invoke [] s = True"
| "all_undecided E invoke (op # ops) s = (undecided E op s \<and> all_undecided E invoke ops (auth_step E invoke op s))"

lemma all_undecided_snoc:
  "all_undecided E invoke (ops @ [op]) s = (all_undecided E invoke ops s \<and> undecided E op (auth_run E invoke ops s))"
  by (induction ops arbitrary: s) (simp_all add: auth_run_def)

lemma not_both: "undecided E op s \<Longrightarrow> \<not> verifies E op s"
  by (auto simp: undecided_def verifies_def)

lemma all_undecided_keeps:
  "all_undecided E invoke ops s \<Longrightarrow> au_state (fst (snd (auth_run E invoke ops s))) = au_state (fst (snd s))"
proof (induction ops arbitrary: s)
  case Nil
  then show ?case by (simp add: auth_run_def)
next
  case (Cons op ops)
  then have "undecided E op s" by simp
  with step_verdict [of E op s invoke] not_both [of E op s]
  have "au_state (fst (snd (auth_step E invoke op s))) = au_state (fst (snd s))" by simp
  with Cons show ?case by (simp add: auth_run_def)
qed

subsection \<open>Properties\<close>

text \<open>
  C15. After any sequence of checks, logins, expiries and registrations, the gate of the routes opens
  exactly when some check or login found both cookies set and a user behind them, and since then
  no expiry was handled and no other check or login decided otherwise (each of them failed for
  another reason than the cookies).
\<close>

theorem gate_opens_iff_verified:
  "require_authenticated (fst (snd (auth_run E invoke ops (st, new_auth_session sessdata bili_jct, cw)))) = Inr () \<longleftrightarrow>
   (\<exists>ops1 op ops2. ops = ops1 @ op # ops2 \<and>
      verifies E op (auth_run E invoke ops1 (st, new_auth_session sessdata bili_jct, cw)) \<and>
      all_undecided E invoke ops2 (auth_run E invoke (ops1 @ [op]) (st, new_auth_session sessdata bili_jct, cw)))"
proof -
  let ?init = "(st, new_auth_session sessdata bili_jct, cw)"
  let ?state = "\<lambda>ops. au_state (fst (snd (auth_run E invoke ops ?init)))"
  have snoc: "auth_run E invoke (ops @ [op]) ?init = auth_step E invoke op (auth_run E invoke ops ?init)" for ops op
    by (simp add: auth_run_def)
  have fwd: "?state ops = Authenticated \<Longrightarrow> \<exists>ops1 op ops2. ops = ops1 @ op # ops2 \<and> verifies E op (auth_run E invoke ops1 ?init) \<and>
      all_undecided E invoke ops2 (auth_run E invoke (ops1 @ [op]) ?init)" for ops
  proof (induction ops rule: rev_induct)
    case Nil
    then show ?case by (simp add: auth_run_def new_auth_session_def)
  next
    case (snoc op ops)
    let ?cur = "auth_run E invoke ops ?init"
    show ?case
    proof (cases "verifies E op ?cur")
      case True
      then show ?thesis by (intro exI [of _ ops] exI [of _ op] exI [of _ "[]"]) simp
    next
      case False
      with snoc.prems step_verdict [of E op ?cur invoke] have u: "undecided E op ?cur" and "?state ops = Authenticated"
        by (auto simp: auth_run_def split: if_splits)
      from snoc.IH [OF this(2)] obtain ops1 op1 ops2 where d: "ops = ops1 @ op1 # ops2" "verifies E op1 (auth_run E invoke ops1 ?init)"
        "all_undecided E invoke ops2 (auth_run E invoke (ops1 @ [op1]) ?init)" by (elim exE conjE)
      have eq: "auth_run E invoke ops2 (auth_run E invoke (ops1 @ [op1]) ?init) = ?cur" unfolding d(1) by (simp add: auth_run_def)
      have "all_undecided E invoke (ops2 @ [op]) (auth_run E invoke (ops1 @ [op1]) ?init)"
        unfolding all_undecided_snoc eq using d(3) u by (rule conjI)
      moreover have "ops @ [op] = ops1 @ op1 # (ops2 @ [op])" unfolding d(1) by simp
      ultimately show ?thesis using d(2) by blast
    qed
  qed
  have bwd: "?state (ops1 @ op # ops2) = Authenticated"
    if "verifies E op (auth_run E invoke ops1 ?init)" "all_undecided E invoke ops2 (auth_run E invoke (ops1 @ [op]) ?init)" for ops1 op ops2
  proof -
    have "?state (ops1 @ op # ops2) = ?state (ops1 @ [op])"
      using all_undecided_keeps [OF that(2)] by (simp add: auth_run_def)
    also have "\<dots> = Authenticated"
      using that(1) step_verdict [of E op "auth_run E invoke ops1 ?init" invoke] by (simp add: snoc)
    finally show ?thesis .
  qed
  have "require_authenticated (fst (snd (auth_run E invoke ops ?init))) = Inr () \<longleftrightarrow> ?state ops = Authenticated"
    by (simp add: require_authenticated_def)
  moreover have "?state ops = Authenticated \<longleftrightarrow> (\<exists>ops1 op ops2. ops = ops1 @ op # ops2 \<and> verifies E op (auth_run E invoke ops1 ?init) \<and>
      all_undecided E invoke ops2 (auth_run E invoke (ops1 @ [op]) ?init))"
  proof
    assume "?state ops = Authenticated"
    then show "\<exists>ops1 op ops2. ops = ops1 @ op # ops2 \<and> verifies E op (auth_run E invoke ops1 ?init) \<and>
      all_undecided E invoke ops2 (auth_run E invoke (ops1 @ [op]) ?init)" by (rule fwd)
  next
    assume "\<exists>ops1 op ops2. ops = ops1 @ op # ops2 \<and> verifies E op (auth_run E invoke ops1 ?init) \<and>
      all_undecided E invoke ops2 (auth_run E invoke (ops1 @ [op]) ?init)"
    then obtain ops1 op ops2 where ops: "ops = ops1 @ op # ops2" and v: "verifies E op (auth_run E invoke ops1 ?init)"
      and u: "all_undecided E invoke ops2 (auth_run E invoke (ops1 @ [op]) ?init)" by (elim exE conjE)
    show "?state ops = Authenticated" unfolding ops using v u by (rule bwd)
  qed
  ultimately show ?thesis by (simp only:)
qed

end
