(* ===== verification/Py_Urls.thy ===== *)
theory Py_Urls
  imports Py_Prelude
begin

section \<open>URLs as \<open>urllib.parse\<close> reads them\<close>

text \<open>
  The parts of \<open>urllib.parse\<close> the service relies on: \<open>urlsplit(...).hostname\<close> for the host guard,
  and the query string of a URL with \<open>parse_qs\<close> for the login. Two checks of \<open>urlsplit\<close> look into
  other tables (the NFKC form of the authority, the address between brackets): together they are
  the parameter \<open>netloc_ok\<close>, which only matters for an authority with brackets or non-ASCII text.
\<close>

subsection \<open>Splitting strings\<close>

text \<open>\<open>s.partition(c)\<close>: before, whether \<open>c\<close> was found, and after.\<close>

definition partition_at :: "char \<Rightarrow> string \<Rightarrow> string \<times> bool \<times> string" where
  "partition_at c s =
     (case dropWhile (\<lambda>x. x \<noteq> c) s of
        [] \<Rightarrow> (s, False, [])
      | _ # rest \<Rightarrow> (takeWhile (\<lambda>x. x \<noteq> c) s, True, rest))"

lemma partition_at_append [simp]: "c \<notin> set a \<Longrightarrow> partition_at c (a @ c # b) = (a, True, b)"
  by (auto simp: partition_at_def dropWhile_append takeWhile_append split: list.splits)

lemma partition_at_absent: "c \<notin> set s \<Longrightarrow> partition_at c s = (s, False, [])"
proof -
  assume "c \<notin> set s"
  then have "dropWhile (\<lambda>x. x \<noteq> c) s = []" by auto
  then show ?thesis unfolding partition_at_def by (simp only: list.case)
qed

lemma partition_at_found: "partition_at c s = (a, True, b) \<Longrightarrow> s = a @ c # b \<and> c \<notin> set a"
proof -
  assume p: "partition_at c s = (a, True, b)"
  then obtain x where x: "dropWhile (\<lambda>x. x \<noteq> c) s = x # b" and a: "a = takeWhile (\<lambda>x. x \<noteq> c) s"
    by (auto simp: partition_at_def split: list.splits)
  moreover from x have "x = c" by (simp add: dropWhile_eq_Cons_conv)
  ultimately have "s = a @ c # b" by (metis takeWhile_dropWhile_id)
  then show ?thesis using a set_takeWhileD by (metis (mono_tags, lifting))
qed

text \<open>\<open>s.split(c)\<close>.\<close>

fun split_on :: "char \<Rightarrow> string \<Rightarrow> string list" where
  "split_on c [] = [[]]"
| "split_on c (x # xs) =
     (if x = c then [] # split_on c xs
      else case split_on c xs of p # ps \<Rightarrow> (x # p) # ps | [] \<Rightarrow> [[x]])"

lemma split_on_not_Nil [simp]: "split_on c s \<noteq> []"
  by (induction s) (auto split: list.splits)

subsection \<open>\<open>urlsplit\<close>\<close>

text \<open>Leading controls and spaces go, and every tab, carriage return and line feed.\<close>

definition url_clean :: "string \<Rightarrow> string" where
  "url_clean s =
     filter (\<lambda>c. (of_char c :: nat) \<notin> {9, 10, 13}) (dropWhile (\<lambda>c. (of_char c :: nat) \<le> 32) s)"

definition ascii_letter :: "char \<Rightarrow> bool" where
  "ascii_letter c \<longleftrightarrow> (let n = (of_char c :: nat) in (65 \<le> n \<and> n \<le> 90) \<or> (97 \<le> n \<and> n \<le> 122))"

definition scheme_char :: "char \<Rightarrow> bool" where
  "scheme_char c \<longleftrightarrow> ascii_letter c \<or> is_digit c \<or> c \<in> set ''+-.''"

definition after_scheme :: "string \<Rightarrow> string" where
  "after_scheme url =
     (case partition_at (CHR '':'') url of
        (scheme, found, rest) \<Rightarrow>
          if found \<and> scheme \<noteq> [] \<and> ascii_letter (hd scheme) \<and> list_all scheme_char scheme then rest else url)"

record split_url =
  su_netloc :: string
  su_query :: string

text \<open>None is \<open>ValueError\<close>.\<close>

definition urlsplit :: "(string \<Rightarrow> bool) \<Rightarrow> string \<Rightarrow> split_url option" where
  "urlsplit netloc_ok s =
     (let url = after_scheme (url_clean s);
          has_netloc = (take 2 url = ''//'');
          netloc = (if has_netloc then takeWhile (\<lambda>c. c \<notin> set ''/?#'') (drop 2 url) else []);
          rest = (if has_netloc then dropWhile (\<lambda>c. c \<notin> set ''/?#'') (drop 2 url) else url);
          query = (case partition_at (CHR ''#'') rest of (before, _, _) \<Rightarrow>
                     case partition_at (CHR ''?'') before of (_, _, q) \<Rightarrow> q)
      in if (CHR ''['' \<in> set netloc) \<noteq> (CHR '']'' \<in> set netloc) \<or> \<not> netloc_ok netloc then None
         else Some \<lparr>su_netloc = netloc, su_query = query\<rparr>)"

text \<open>\<open>SplitResult.hostname or ""\<close>.\<close>

definition after_last :: "char \<Rightarrow> string \<Rightarrow> string" where
  "after_last c s = rev (takeWhile (\<lambda>x. x \<noteq> c) (rev s))"

definition hostname :: "split_url \<Rightarrow> string" where
  "hostname su =
     (let hostinfo = after_last (CHR ''@'') (su_netloc su);
          host = (case partition_at (CHR ''['') hostinfo of (_, found, bracketed) \<Rightarrow>
                    if found then fst (partition_at (CHR '']'') bracketed)
                    else fst (partition_at (CHR '':'') hostinfo))
      in case partition_at (CHR ''%'') host of (name, found, zone) \<Rightarrow>
           if found then lower name @ ''%'' @ zone else lower name)"

subsection \<open>\<open>parse_qs\<close>\<close>

definition hex_value :: "char \<Rightarrow> nat option" where
  "hex_value c =
     (let n = (of_char c :: nat) in
      if is_digit c then Some (n - 48)
      else if 65 \<le> n \<and> n \<le> 70 then Some (n - 55)
      else if 97 \<le> n \<and> n \<le> 102 then Some (n - 87) else None)"

fun unquote_bytes :: "string \<Rightarrow> string" where
  "unquote_bytes (CHR ''%'' # a # b # rest) =
     (case (hex_value a, hex_value b) of
        (Some m, Some n) \<Rightarrow> char_of (16 * m + n) # unquote_bytes rest
      | _ \<Rightarrow> CHR ''%'' # unquote_bytes (a # b # rest))"
| "unquote_bytes (c # rest) = c # unquote_bytes rest"
| "unquote_bytes [] = []"

text \<open>\<open>decode\<close> is \<open>bytes.decode("utf-8", "replace")\<close>.\<close>

definition unquote_plus :: "(string \<Rightarrow> string) \<Rightarrow> string \<Rightarrow> string" where
  "unquote_plus decode s = decode (unquote_bytes (map (\<lambda>c. if c = CHR ''+'' then CHR '' '' else c) s))"

fun query_pairs :: "(string \<Rightarrow> string) \<Rightarrow> string list \<Rightarrow> (string \<times> string) list" where
  "query_pairs decode [] = []"
| "query_pairs decode (nv # nvs) =
     (case partition_at (CHR ''='') nv of
        (name, found, v) \<Rightarrow>
          if found \<and> v \<noteq> [] then (unquote_plus decode name, unquote_plus decode v) # query_pairs decode nvs
          else query_pairs decode nvs)"

definition parse_qs :: "(string \<Rightarrow> string) \<Rightarrow> string \<Rightarrow> (string \<times> string list) list" where
  "parse_qs decode q =
     fold (\<lambda>(k, v) d. AList.update k ((case map_of d k of None \<Rightarrow> [] | Some vs \<Rightarrow> vs) @ [v]) d)
       (query_pairs decode (split_on (CHR ''&'') q)) []"

text \<open>The values of a name, in order.\<close>

lemma map_of_parse_qs:
  "map_of (parse_qs decode q) k =
     (let vs = map snd (filter (\<lambda>p. fst p = k) (query_pairs decode (split_on (CHR ''&'') q)))
      in if vs = [] then None else Some vs)"
proof -
  have "map_of (fold (\<lambda>(k, v) d. AList.update k ((case map_of d k of None \<Rightarrow> [] | Some vs \<Rightarrow> vs) @ [v]) d) ps d) k =
      (let vs = (case map_of d k of None \<Rightarrow> [] | Some vs \<Rightarrow> vs) @ map snd (filter (\<lambda>p. fst p = k) ps)
       in if map_of d k = None \<and> vs = [] then None else Some vs)" for ps d
    by (induction ps arbitrary: d) (auto simp: Let_def split: option.splits)
  from this [of "query_pairs decode (split_on (CHR ''&'') q)" "[]"] show ?thesis
    by (simp only: parse_qs_def) (simp add: Let_def)
qed

end
