(* ===== verification/Cookie_Login.thy ===== *)
theory Cookie_Login
  imports Bili_Client Py_Urls
begin

section \<open>Login and the stored cookies (\<open>bilibili/auth.py\<close>)\<close>

text \<open>
  The QR login, the manual login and the writer of the \<open>.env\<close> file. The passport endpoints are asked
  through a plain HTTP client: \<open>pget\<close> is its \<open>get\<close>, and what the code reads of a response is a
  record. \<open>loads\<close> is \<open>json.loads\<close>. The file system is a map from paths to contents.
\<close>

subsection \<open>Responses\<close>

record passport_response =
  pr_status :: int
  pr_text :: string
  pr_cookies :: "(string \<times> string) list" \<comment> \<open>the \<open>Set-Cookie\<close> jar\<close>

datatype login_error =
    QrLoginError
  | QrExpiredError
  | QrAwaitingScanError
  | QrAwaitingConfirmError
  | LoginIncompleteError
  | Raised exn

record 'w passport =
  pget :: "string \<Rightarrow> (string \<times> string) list \<Rightarrow> 'w \<Rightarrow> (exn + passport_response) \<times> 'w"
  loads :: "string \<Rightarrow> loads_result"
  netloc_fine :: "string \<Rightarrow> bool"
  decode_utf8 :: "string \<Rightarrow> string"

definition parse_json_object :: "(string \<Rightarrow> loads_result) \<Rightarrow> string \<Rightarrow> py_exn + message" where
  "parse_json_object ld txt =
     (if txt = [] then Inr []
      else case ld txt of
        DecodeError \<Rightarrow> Inr []
      | LoadsRaises e \<Rightarrow> Inl e
      | Loaded (JDict d) \<Rightarrow> Inr d
      | Loaded _ \<Rightarrow> Inr [])"

subsection \<open>Captured cookies\<close>

definition first_query_value :: "(string \<times> string list) list \<Rightarrow> string \<Rightarrow> string" where
  "first_query_value params key = (case map_of params key of Some (v # _) \<Rightarrow> v | _ \<Rightarrow> [])"

definition url_query_params :: "'w passport \<Rightarrow> string \<Rightarrow> py_exn + (string \<times> string list) list" where
  "url_query_params P url =
     (if url = [] then Inr []
      else case urlsplit (netloc_fine P) url of
        None \<Rightarrow> Inl ValueError
      | Some parsed \<Rightarrow> Inr (if su_query parsed = [] then [] else parse_qs (decode_utf8 P) (su_query parsed)))"

definition cookie_value :: "passport_response \<Rightarrow> string \<Rightarrow> string" where
  "cookie_value response name = (case map_of (pr_cookies response) name of Some v \<Rightarrow> v | None \<Rightarrow> [])"

record captured =
  cp_sessdata :: string
  cp_bili_jct :: string
  cp_dede_user_id :: string

definition captured_cookie :: "passport_response \<Rightarrow> (string \<times> string list) list \<Rightarrow> string \<Rightarrow> string" where
  "captured_cookie response params name =
     (let v = cookie_value response name in if v \<noteq> [] then v else first_query_value params name)"

definition text_of_url :: "message \<Rightarrow> string" where
  "text_of_url data = (case jget data ''url'' of JStr u \<Rightarrow> u | _ \<Rightarrow> [])"

definition capture_success_cookies :: "'w passport \<Rightarrow> passport_response \<Rightarrow> py_exn + captured" where
  "capture_success_cookies P response =
     bind_res (parse_json_object (loads P) (pr_text response)) (\<lambda>body.
     let data_url = (case jget body ''data'' of JDict d \<Rightarrow> text_of_url d | _ \<Rightarrow> [])
     in bind_res (url_query_params P data_url) (\<lambda>params.
        Inr \<lparr>cp_sessdata = captured_cookie response params ''SESSDATA'',
             cp_bili_jct = captured_cookie response params ''bili_jct'',
             cp_dede_user_id = captured_cookie response params ''DedeUserID''\<rparr>))"

subsection \<open>The QR flow\<close>

definition QR_GENERATE_URL :: string where
  "QR_GENERATE_URL = ''https://passport.bilibili.com/x/passport-login/web/qrcode/generate''"

definition QR_POLL_URL :: string where
  "QR_POLL_URL = ''https://passport.bilibili.com/x/passport-login/web/qrcode/poll''"

definition BUVID3_SPI_URL :: string where
  "BUVID3_SPI_URL = ''https://api.bilibili.com/x/frontend/finger/spi''"

definition raised :: "py_exn + 'a \<Rightarrow> login_error + 'a" where
  "raised r = map_sum (\<lambda>e. Raised (Py e)) id r"

lemma raised_simps [simp]: "raised (Inl e) = Inl (Raised (Py e))" "raised (Inr x) = Inr x"
  by (simp_all add: raised_def)

definition passport_get ::
    "'w passport \<Rightarrow> string \<Rightarrow> (string \<times> string) list \<Rightarrow> ('w, login_error, passport_response) io" where
  "passport_get P url params = (\<lambda>w. case pget P url params w of (r, w') \<Rightarrow> (map_sum Raised id r, w'))"

definition qr_link :: "message \<Rightarrow> login_error + string \<times> string" where
  "qr_link body =
     (if \<not> py_eq_int (jget body ''code'') 0 then Inl QrLoginError
      else case jget body ''data'' of
        JDict data \<Rightarrow>
          (case (case jget data ''url'' of JStr u \<Rightarrow> JStr u | _ \<Rightarrow> jget data ''qrcode_url'', jget data ''qrcode_key'') of
             (JStr link, JStr key) \<Rightarrow> if link = [] \<or> key = [] then Inl QrLoginError else Inr (link, key)
           | _ \<Rightarrow> Inl QrLoginError)
      | _ \<Rightarrow> Inl QrLoginError)"

definition qr_generate :: "'w passport \<Rightarrow> ('w, login_error, string \<times> string) io" where
  "qr_generate P =
     bind_io (passport_get P QR_GENERATE_URL []) (\<lambda>response.
     lift_res (bind_res (raised (parse_json_object (loads P) (pr_text response))) qr_link))"

text \<open>
  The state code of a poll: an int, or a string of digits after leading minus signs, on which \<open>int\<close>
  raises when there are two.
\<close>

fun inner_code :: "json \<Rightarrow> py_exn + int option" where
  "inner_code (JStr s) =
     (if all_digits (lstrip_by (\<lambda>c. c = CHR ''-'') s) then
        (case py_int s of Some n \<Rightarrow> Inr (Some n) | None \<Rightarrow> Inl ValueError)
      else Inr None)"
| "inner_code v = Inr (int_instance v)"

definition poll_result :: "'w passport \<Rightarrow> passport_response \<Rightarrow> login_error + captured" where
  "poll_result P response =
     bind_res (raised (parse_json_object (loads P) (pr_text response))) (\<lambda>body.
     case jget body ''data'' of
       JDict data \<Rightarrow>
         bind_res (raised (inner_code (jget data ''code''))) (\<lambda>code.
         if code = Some 86101 then Inl QrAwaitingScanError
         else if code = Some 86090 then Inl QrAwaitingConfirmError
         else if code = Some 86038 then Inl QrExpiredError
         else if code = Some 0 then
           bind_res (raised (capture_success_cookies P response)) (\<lambda>cookies.
           if cp_bili_jct cookies = [] then Inl LoginIncompleteError
           else if cp_sessdata cookies = [] then Inl LoginIncompleteError
           else Inr cookies)
         else Inl QrLoginError)
     | _ \<Rightarrow> Inl QrLoginError)"

definition qr_poll :: "'w passport \<Rightarrow> string \<Rightarrow> ('w, login_error, captured) io" where
  "qr_poll P qrcode_key =
     bind_io (passport_get P QR_POLL_URL [(''qrcode_key'', qrcode_key)]) (\<lambda>response.
     lift_res (poll_result P response))"

text \<open>\<open>fetch_buvid3\<close>: a transport error counts as no fingerprint; other exceptions propagate.\<close>

definition spi_value :: "'w passport \<Rightarrow> passport_response \<Rightarrow> py_exn + string option" where
  "spi_value P response =
     (if pr_status response \<noteq> 200 then Inr None
      else bind_res (parse_json_object (loads P) (pr_text response)) (\<lambda>body.
        Inr (if \<not> py_eq_int (jget body ''code'') 0 then None
             else case jget body ''data'' of
               JDict data \<Rightarrow> (case jget data ''b_3'' of JStr s \<Rightarrow> if s = [] then None else Some s | _ \<Rightarrow> None)
             | _ \<Rightarrow> None)))"

definition fetch_buvid3 :: "'w passport \<Rightarrow> ('w, login_error, string option) io" where
  "fetch_buvid3 P = (\<lambda>w.
     case pget P BUVID3_SPI_URL [] w of
       (Inl (Httpx e), w') \<Rightarrow> (Inr None, w')
     | (Inl e, w') \<Rightarrow> (Inl (Raised e), w')
     | (Inr response, w') \<Rightarrow> (raised (spi_value P response), w'))"

subsection \<open>The \<open>.env\<close> file\<close>

text \<open>\<open>str.splitlines\<close>, on the UTF-8 bytes (the last three are U+0085, U+2028 and U+2029).\<close>

definition byte :: "char \<Rightarrow> nat" where
  "byte c = of_char c"

fun line_break :: "string \<Rightarrow> string option" where
  "line_break [] = None"
| "line_break (c # cs) =
     (if byte c = 13 \<and> map byte (take 1 cs) = [10] then Some (drop 1 cs)
      else if (10 \<le> byte c \<and> byte c \<le> 13) \<or> (28 \<le> byte c \<and> byte c \<le> 30) then Some cs
      else if byte c = 194 \<and> map byte (take 1 cs) = [133] then Some (drop 1 cs)
      else if byte c = 226 \<and> map byte (take 2 cs) \<in> {[128, 168], [128, 169]} then Some (drop 2 cs)
      else None)"

lemma first_break:
  "(if P then Some (drop 1 cs) else if Q then Some cs else if R then Some (drop 1 cs) else if S then Some (drop 2 cs) else None)
     = Some rest \<Longrightarrow> length rest \<le> length cs"
  by (auto split: if_splits)

lemma line_break_shorter: "line_break s = Some rest \<Longrightarrow> length rest < length s"
proof (cases s)
  case (Cons c cs)
  assume "line_break s = Some rest"
  from this [unfolded Cons line_break.simps] have "length rest \<le> length cs" by (rule first_break)
  with Cons show ?thesis by simp
qed simp

declare line_break.simps [simp del]

function splitlines :: "string \<Rightarrow> string list" where
  "splitlines s =
     (case s of
        [] \<Rightarrow> []
      | c # cs \<Rightarrow>
          (case line_break s of
             Some rest \<Rightarrow> [] # splitlines rest
           | None \<Rightarrow> (case splitlines cs of [] \<Rightarrow> [[c]] | l # ls \<Rightarrow> (c # l) # ls)))"
  by pat_completeness auto
termination
  by (relation "measure length") (auto dest: line_break_shorter)

declare splitlines.simps [simp del]

text \<open>
  \<open>_read_existing_lines\<close>: a missing file or one that cannot be read has no lines; \<open>readable\<close> tells how
  opening and decoding it ends. A file that is not UTF-8 raises \<open>UnicodeDecodeError\<close>, a \<open>ValueError\<close>.
\<close>

type_synonym file_system = "string \<Rightarrow> string option"

definition read_existing_lines :: "(string \<Rightarrow> (py_exn + unit)) \<Rightarrow> string \<Rightarrow> file_system \<Rightarrow> py_exn + string list" where
  "read_existing_lines readable env_path fs =
     (case fs env_path of
        None \<Rightarrow> Inr []
      | Some txt \<Rightarrow>
          (case readable env_path of
             Inl OSError \<Rightarrow> Inr []
           | Inl e \<Rightarrow> Inl e
           | Inr _ \<Rightarrow> Inr (splitlines txt)))"

definition ENV_KEYS_OWNED :: "string list" where
  "ENV_KEYS_OWNED = [''SESSDATA'', ''BILI_JCT'', ''BUVID3'']"

text \<open>The owned key of a line, if it assigns one.\<close>

definition owned_key :: "string \<Rightarrow> string option" where
  "owned_key line =
     (let stripped = py_strip line in
      if CHR ''='' \<in> set stripped \<and> take 1 stripped \<noteq> ''#'' then
        (let head = py_strip (before_char (CHR ''='') stripped) in
         if head \<in> set ENV_KEYS_OWNED then Some head else None)
      else None)"

definition assignment :: "string \<Rightarrow> string \<Rightarrow> string" where
  "assignment key v = key @ ''='' @ v"

fun rewrite_lines :: "(string \<times> string) list \<Rightarrow> string list \<Rightarrow> string list" where
  "rewrite_lines updates [] = []"
| "rewrite_lines updates (line # lines) =
     (case owned_key line of
        Some key \<Rightarrow> (case map_of updates key of Some v \<Rightarrow> assignment key v | None \<Rightarrow> line)
      | None \<Rightarrow> line) # rewrite_lines updates lines"

definition update_owned_lines :: "string list \<Rightarrow> (string \<times> string) list \<Rightarrow> string list" where
  "update_owned_lines lines updates =
     (let seen = List.map_filter owned_key lines in
      rewrite_lines updates lines @
      concat (map (\<lambda>key. case map_of updates key of
                     Some v \<Rightarrow> if key \<in> set seen then [] else [assignment key v]
                   | None \<Rightarrow> []) ENV_KEYS_OWNED))"

definition new_env_text :: "string list \<Rightarrow> string" where
  "new_env_text lines =
     (let txt = join_with [char_of (10::nat)] lines in
      if txt \<noteq> [] \<and> last txt \<noteq> char_of (10::nat) then txt @ [char_of (10::nat)] else txt)"

text \<open>
  \<open>write_env_atomic\<close>: the file systems it passes through, the last of which is its result. The staging
  file is written in pieces (\<open>sizes\<close> are the lengths that reach the disk), then renamed.
\<close>

definition env_updates :: "string \<Rightarrow> string \<Rightarrow> string option \<Rightarrow> (string \<times> string) list" where
  "env_updates sessdata bili_jct buvid3 =
     [(''SESSDATA'', sessdata), (''BILI_JCT'', bili_jct)] @ (case buvid3 of None \<Rightarrow> [] | Some b \<Rightarrow> [(''BUVID3'', b)])"

definition tmp_path :: "string \<Rightarrow> string" where
  "tmp_path env_path = env_path @ ''.tmp''"

definition write_env_steps ::
    "(string \<Rightarrow> (py_exn + unit)) \<Rightarrow> nat list \<Rightarrow> string \<Rightarrow> string \<Rightarrow> string option \<Rightarrow> string \<Rightarrow> file_system
      \<Rightarrow> py_exn + file_system list" where
  "write_env_steps readable sizes sessdata bili_jct buvid3 env_path fs =
     bind_res (read_existing_lines readable env_path fs) (\<lambda>existing_lines.
     let new_text = new_env_text (update_owned_lines existing_lines (env_updates sessdata bili_jct buvid3));
         staged = fs(tmp_path env_path \<mapsto> new_text)
     in Inr (map (\<lambda>n. fs(tmp_path env_path \<mapsto> take n new_text)) sizes @
             [staged, (staged(env_path \<mapsto> new_text))(tmp_path env_path := None)]))"

definition write_env_atomic ::
    "(string \<Rightarrow> (py_exn + unit)) \<Rightarrow> string \<Rightarrow> string \<Rightarrow> string option \<Rightarrow> string \<Rightarrow> file_system \<Rightarrow> py_exn + file_system" where
  "write_env_atomic readable sessdata bili_jct buvid3 env_path fs =
     map_sum id last (write_env_steps readable [] sessdata bili_jct buvid3 env_path fs)"

subsection \<open>Manual login\<close>

text \<open>The client is a new one, with the given cookies; it is closed in any case.\<close>

definition save_cookies_manual ::
    "'w env \<Rightarrow> wbi_signer \<Rightarrow> (string \<Rightarrow> (py_exn + unit)) \<Rightarrow> string \<Rightarrow> string \<Rightarrow> string option \<Rightarrow> string \<Rightarrow> file_system \<Rightarrow> 'w
      \<Rightarrow> (login_error + string \<times> int) \<times> file_system \<times> 'w" where
  "save_cookies_manual E signer readable sessdata bili_jct buvid3 env_path fs w =
     (let cookies = [(''SESSDATA'', sessdata), (''bili_jct'', bili_jct)] @
                    (case buvid3 of None \<Rightarrow> [] | Some b \<Rightarrow> [(''buvid3'', b)])
      in case get_user_info E (new_client cookies bili_jct signer, w) of
           (Inl e, (_, w')) \<Rightarrow> (Inl (Raised e), fs, w')
         | (Inr None, (_, w')) \<Rightarrow> (Inl LoginIncompleteError, fs, w')
         | (Inr (Some data), (_, w')) \<Rightarrow>
             (case (jget data ''uname'', int_instance (jget data ''mid'')) of
                (JStr uname, Some mid) \<Rightarrow>
                  (case write_env_atomic readable sessdata bili_jct buvid3 env_path fs of
                     Inl e \<Rightarrow> (Inl (Raised (Py e)), fs, w')
                   | Inr fs' \<Rightarrow> (Inr (uname, mid), fs', w'))
              | _ \<Rightarrow> (Inl LoginIncompleteError, fs, w')))"

subsection \<open>Lines\<close>

text \<open>No line break starts anywhere in the text.\<close>

definition no_break :: "string \<Rightarrow> bool" where
  "no_break l \<longleftrightarrow> (\<forall>a b. l = a @ b \<longrightarrow> line_break b = None)"

lemma no_break_Nil [simp]: "no_break []"
  by (simp add: no_break_def line_break.simps)

lemma no_break_Cons: "no_break (c # l) \<longleftrightarrow> line_break (c # l) = None \<and> no_break l"
proof
  assume nb: "no_break (c # l)"
  have "line_break b = None" if "l = a @ b" for a b
    using nb that unfolding no_break_def by (metis append_Cons)
  moreover have "line_break (c # l) = None" using nb unfolding no_break_def by (metis append_Nil)
  ultimately show "line_break (c # l) = None \<and> no_break l" by (simp add: no_break_def)
next
  assume "line_break (c # l) = None \<and> no_break l"
  then show "no_break (c # l)" unfolding no_break_def by (metis append_Nil append_eq_Cons_conv)
qed

lemma line_break_None:
  "line_break (c # cs) = None \<longleftrightarrow> \<not> (10 \<le> byte c \<and> byte c \<le> 13) \<and> \<not> (28 \<le> byte c \<and> byte c \<le> 30) \<and>
     \<not> (byte c = 194 \<and> map byte (take 1 cs) = [133]) \<and>
     \<not> (byte c = 226 \<and> map byte (take 2 cs) \<in> {[128, 168], [128, 169]})"
  unfolding line_break.simps by (cases "byte c = 13") simp_all

lemma byte_newline [simp]: "byte (char_of (10::nat)) = 10"
  by (simp add: byte_def)

lemma line_break_newline: "line_break (char_of (10::nat) # rest) = Some rest"
  by (simp add: line_break.simps)

lemma line_break_before_newline:
  assumes "line_break (c # l) = None"
  shows "line_break (c # l @ char_of (10::nat) # rest) = None"
proof -
  have "map byte (take 1 (l @ char_of (10::nat) # rest)) = [133] \<Longrightarrow> map byte (take 1 l) = [133]"
    by (cases l) auto
  moreover have "map byte (take 2 (l @ char_of (10::nat) # rest)) = [128, x] \<Longrightarrow> x \<noteq> 10 \<Longrightarrow> map byte (take 2 l) = [128, x]" for x
    by (cases l; cases "tl l") auto
  ultimately show ?thesis using assms unfolding line_break_None by auto
qed

lemma splitlines_Nil [simp]: "splitlines [] = []"
  by (simp add: splitlines.simps)

lemma splitlines_newline: "splitlines (char_of (10::nat) # rest) = [] # splitlines rest"
  by (subst splitlines.simps) (simp add: line_break_newline)

lemma splitlines_line: "no_break l \<Longrightarrow> splitlines (l @ char_of (10::nat) # rest) = l # splitlines rest"
proof (induction l)
  case Nil
  show ?case by (simp add: splitlines_newline)
next
  case (Cons c l)
  then have "line_break (c # l @ char_of (10::nat) # rest) = None" and "no_break l"
    by (simp_all add: no_break_Cons line_break_before_newline)
  with Cons.IH show ?case by (subst splitlines.simps) simp
qed

lemma splitlines_last: "no_break l \<Longrightarrow> l \<noteq> [] \<Longrightarrow> splitlines l = [l]"
proof (induction l)
  case (Cons c l)
  then have "line_break (c # l) = None" "no_break l" by (simp_all add: no_break_Cons)
  with Cons.IH show ?case by (cases "l = []") (subst splitlines.simps, simp)+
qed simp

lemma splitlines_join:
  "list_all no_break ls \<Longrightarrow> ls \<noteq> [] \<Longrightarrow> splitlines (join_with [char_of (10::nat)] ls @ [char_of (10::nat)]) = ls"
proof (induction "[char_of (10::nat)] :: string" ls rule: join_with.induct)
  case (2 s)
  then show ?case using splitlines_line [of s "[]"] by simp
next
  case (3 s v va)
  then show ?case using splitlines_line [of s] by simp
qed simp

lemma splitlines_Some: "line_break (c # cs) = Some rest \<Longrightarrow> splitlines (c # cs) = [] # splitlines rest"
  by (subst splitlines.simps) simp

lemma splitlines_None:
  "line_break (c # cs) = None \<Longrightarrow> splitlines (c # cs) = (case splitlines cs of [] \<Rightarrow> [[c]] | l # ls \<Rightarrow> (c # l) # ls)"
  by (subst splitlines.simps) simp

text \<open>The first line is a prefix of the text, and every line is free of breaks.\<close>

lemma splitlines_first: "splitlines s = l # ls \<Longrightarrow> \<exists>r. s = l @ r"
proof (induction s arbitrary: l ls rule: splitlines.induct)
  case (1 s)
  show ?case
  proof (cases s)
    case Nil
    with 1 show ?thesis by simp
  next
    case (Cons c cs)
    show ?thesis
    proof (cases "line_break (c # cs)")
      case (Some rest)
      with 1 Cons show ?thesis by (simp add: splitlines_Some)
    next
      case None
      show ?thesis
      proof (cases "splitlines cs")
        case Nil
        then have "l = [c]" using "1.prems" None Cons by (simp add: splitlines_None)
        then show ?thesis using Cons by simp
      next
        case line: (Cons m ms)
        then have "l = c # m" using "1.prems" None Cons by (simp add: splitlines_None)
        moreover have "\<exists>r. cs = m @ r" using "1.IH"(1) None Cons line by blast
        ultimately show ?thesis using Cons by auto
      qed
    qed
  qed
qed

lemma line_break_prefix:
  assumes "line_break (c # m @ r) = None"
  shows "line_break (c # m) = None"
proof -
  have "map byte (take 1 m) = [133] \<Longrightarrow> map byte (take 1 (m @ r)) = [133]" by (cases m) auto
  moreover have "map byte (take 2 m) = [128, x] \<Longrightarrow> map byte (take 2 (m @ r)) = [128, x]" for x
    by (cases m; cases "tl m") auto
  ultimately show ?thesis using assms unfolding line_break_None by auto
qed

lemma splitlines_no_break: "list_all no_break (splitlines s)"
proof (induction s rule: splitlines.induct)
  case (1 s)
  show ?case
  proof (cases s)
    case Nil
    then show ?thesis by simp
  next
    case (Cons c cs)
    show ?thesis
    proof (cases "line_break (c # cs)")
      case (Some rest)
      then show ?thesis using "1.IH"(2) Cons by (simp add: splitlines_Some)
    next
      case None
      have IH: "list_all no_break (splitlines cs)" using "1.IH"(1) Cons None by blast
      show ?thesis
      proof (cases "splitlines cs")
        case Nil
        then show ?thesis using None Cons line_break_prefix [of c "[]" cs] by (simp add: splitlines_None no_break_Cons)
      next
        case line: (Cons m ms)
        obtain r where "cs = m @ r" using splitlines_first [OF line] by blast
        then have "line_break (c # m) = None" using None line_break_prefix by blast
        then show ?thesis using None Cons line IH by (simp add: splitlines_None no_break_Cons)
      qed
    qed
  qed
qed

subsection \<open>Rewriting the file\<close>

lemma owned_key_owned: "owned_key line = Some k \<Longrightarrow> k \<in> set ENV_KEYS_OWNED"
  by (auto simp: owned_key_def Let_def split: if_splits)

lemma py_strip_assignment:
  assumes "k \<in> set ENV_KEYS_OWNED"
  shows "\<exists>r. py_strip (assignment k v) = k @ CHR ''='' # r"
proof -
  have "dropWhile is_space (assignment k v) = assignment k v"
    using assms by (auto simp: ENV_KEYS_OWNED_def assignment_def is_space_def)
  moreover have "rev (dropWhile is_space (rev (a @ CHR ''='' # v))) = a @ CHR ''='' # rev (dropWhile is_space (rev v))" for a
    by (simp add: dropWhile_append is_space_def)
  ultimately show ?thesis by (simp add: py_strip_def assignment_def)
qed

lemma owned_key_assignment:
  assumes "k \<in> set ENV_KEYS_OWNED"
  shows "owned_key (assignment k v) = Some k"
proof -
  obtain r where r: "py_strip (assignment k v) = k @ CHR ''='' # r" using py_strip_assignment [OF assms] by blast
  have "CHR ''='' \<notin> set k" and "py_strip k = k" and "take 1 (k @ CHR ''='' # r) \<noteq> ''#''"
    using assms by (auto simp: ENV_KEYS_OWNED_def py_strip_def is_space_def)
  moreover from this(1) have "takeWhile (\<lambda>x. x \<noteq> CHR ''='') (k @ CHR ''='' # r) = k"
    by (subst takeWhile_append2) auto
  ultimately show ?thesis
    using assms by (simp add: owned_key_def r Let_def before_char_def)
qed

lemma rewrite_lines_Nil [simp]: "rewrite_lines updates lines = [] \<longleftrightarrow> lines = []"
  by (cases lines) simp_all

lemma rewrite_lines_other: "filter (\<lambda>l. owned_key l = None) (rewrite_lines updates lines) = filter (\<lambda>l. owned_key l = None) lines"
  by (induction lines) (auto split: option.split simp: owned_key_assignment [OF owned_key_owned])

lemma in_rewrite_lines:
  "l \<in> set (rewrite_lines updates lines) \<Longrightarrow> owned_key l = Some k \<Longrightarrow> map_of updates k = Some v \<Longrightarrow> l = assignment k v"
  by (induction lines) (auto split: option.splits simp: owned_key_assignment [OF owned_key_owned])

lemma rewrite_lines_seen:
  "line \<in> set lines \<Longrightarrow> owned_key line = Some k \<Longrightarrow> map_of updates k = Some v \<Longrightarrow> assignment k v \<in> set (rewrite_lines updates lines)"
  by (induction lines) (auto split: option.split)

text \<open>
  What the written lines promise: the other lines are kept in order, and each updated key is
  assigned its value, at least once and by every line that assigns it.
\<close>

definition sets_keys :: "(string \<times> string) list \<Rightarrow> string list \<Rightarrow> string list \<Rightarrow> bool" where
  "sets_keys updates old new \<longleftrightarrow>
     filter (\<lambda>l. owned_key l = None) new = filter (\<lambda>l. owned_key l = None) old \<and>
     (\<forall>(k, v) \<in> set updates. assignment k v \<in> set new \<and> (\<forall>l \<in> set new. owned_key l = Some k \<longrightarrow> l = assignment k v))"

lemma update_owned_lines_sets_keys:
  assumes "set (map fst updates) \<subseteq> set ENV_KEYS_OWNED" and "wf_dict updates"
  shows "sets_keys updates lines (update_owned_lines lines updates)"
proof -
  let ?seen = "List.map_filter owned_key lines"
  let ?add = "\<lambda>key. case map_of updates key of Some v \<Rightarrow> if key \<in> set ?seen then [] else [assignment key v] | None \<Rightarrow> []"
  let ?new = "rewrite_lines updates lines @ concat (map ?add ENV_KEYS_OWNED)"
  have new: "update_owned_lines lines updates = ?new" by (simp add: update_owned_lines_def Let_def)
  have seen: "k \<in> set ?seen \<longleftrightarrow> (\<exists>l \<in> set lines. owned_key l = Some k)" for k
    by (force simp: map_filter_def)
  have added: "owned_key l = Some k \<and> map_of updates k = Some v \<and> l = assignment k v \<Longrightarrow> k \<in> set ENV_KEYS_OWNED" for l k v
    using owned_key_owned by blast
  have add: "l \<in> set (concat (map ?add ENV_KEYS_OWNED)) \<Longrightarrow> \<exists>k v. map_of updates k = Some v \<and> l = assignment k v \<and> owned_key l = Some k" for l
    by (auto split: option.splits if_splits simp: owned_key_assignment) (metis option.inject)
  have "filter (\<lambda>l. owned_key l = None) (concat (map ?add ENV_KEYS_OWNED)) = []"
    unfolding filter_empty_conv
  proof
    fix l assume "l \<in> set (concat (map ?add ENV_KEYS_OWNED))"
    from add [OF this] show "owned_key l \<noteq> None" by auto
  qed
  then have others: "filter (\<lambda>l. owned_key l = None) ?new = filter (\<lambda>l. owned_key l = None) lines"
    by (simp only: filter_append rewrite_lines_other append_Nil2)
  have keys: "assignment k v \<in> set ?new \<and> (\<forall>l \<in> set ?new. owned_key l = Some k \<longrightarrow> l = assignment k v)"
    if "(k, v) \<in> set updates" for k v
  proof
    have kv: "map_of updates k = Some v" using that in_set_map_of [OF assms(2)] by simp
    have k: "k \<in> set ENV_KEYS_OWNED" using that assms(1) by force
    show "assignment k v \<in> set ?new"
    proof (cases "k \<in> set ?seen")
      case True
      then show ?thesis using rewrite_lines_seen kv unfolding seen by fastforce
    next
      case False
      then have "assignment k v \<in> set (?add k)" using kv by simp
      with k have "assignment k v \<in> set (concat (map ?add ENV_KEYS_OWNED))" unfolding set_concat set_map by blast
      then show ?thesis by (simp only: set_append Un_iff simp_thms)
    qed
    show "\<forall>l \<in> set ?new. owned_key l = Some k \<longrightarrow> l = assignment k v"
    proof (intro ballI impI)
      fix l assume l: "l \<in> set ?new" and ok: "owned_key l = Some k"
      then show "l = assignment k v" using in_rewrite_lines [OF _ ok kv] add [of l] kv by auto
    qed
  qed
  have "\<forall>(k, v) \<in> set updates. assignment k v \<in> set ?new \<and> (\<forall>l \<in> set ?new. owned_key l = Some k \<longrightarrow> l = assignment k v)"
    by (rule ballI, clarify) (rule keys)
  with others show ?thesis unfolding new sets_keys_def by (rule conjI)
qed

lemma no_break_assignment:
  assumes "k \<in> set ENV_KEYS_OWNED" and "no_break v"
  shows "no_break (assignment k v)"
  using assms by (auto simp: ENV_KEYS_OWNED_def assignment_def no_break_Cons line_break_None byte_def)

lemma update_owned_lines_no_break:
  assumes "list_all no_break lines" and "\<And>k v. (k, v) \<in> set updates \<Longrightarrow> no_break v"
  shows "list_all no_break (update_owned_lines lines updates)"
proof -
  have asg: "map_of updates k = Some v \<Longrightarrow> k \<in> set ENV_KEYS_OWNED \<Longrightarrow> no_break (assignment k v)" for k v
    using assms(2) by (blast intro: no_break_assignment dest: map_of_SomeD)
  have "list_all no_break (rewrite_lines updates lines)"
    using assms(1) by (induction lines) (auto split: option.split intro: asg owned_key_owned)
  with asg show ?thesis
    by (auto simp: update_owned_lines_def Let_def list_all_iff split: option.splits if_splits)
qed

lemma join_with_last:
  "ls \<noteq> [] \<Longrightarrow> last ls \<noteq> [] \<Longrightarrow> join_with sep ls \<noteq> [] \<and> last (join_with sep ls) = last (last ls)"
  by (induction sep ls rule: join_with.induct) (auto simp: neq_Nil_conv)

lemma last_update_owned_lines:
  assumes "lines \<noteq> [] \<Longrightarrow> last lines \<noteq> []" and "update_owned_lines lines updates \<noteq> []"
  shows "last (update_owned_lines lines updates) \<noteq> []"
proof -
  let ?add = "\<lambda>key. case map_of updates key of
      Some v \<Rightarrow> if key \<in> set (List.map_filter owned_key lines) then [] else [assignment key v] | None \<Rightarrow> []"
  have new: "update_owned_lines lines updates = rewrite_lines updates lines @ concat (map ?add ENV_KEYS_OWNED)"
    by (simp add: update_owned_lines_def Let_def)
  obtain R A where R: "R = rewrite_lines updates lines" and A: "A = concat (map ?add ENV_KEYS_OWNED)" by blast
  have added: "l \<in> set A \<Longrightarrow> l \<noteq> []" for l
    by (auto simp: A assignment_def split: option.splits if_splits)
  have rewritten: "lines \<noteq> [] \<Longrightarrow> last lines \<noteq> [] \<Longrightarrow> last (rewrite_lines updates lines) \<noteq> []"
    by (induction lines) (auto simp: assignment_def split: option.split if_splits)
  have "last (R @ A) \<noteq> []"
  proof (cases "A = []")
    case True
    then have "lines \<noteq> []" using assms(2) unfolding new R [symmetric] A [symmetric] by (auto simp: R)
    then show ?thesis using rewritten assms(1) True by (simp add: R)
  next
    case False
    then show ?thesis using added last_in_set by (simp add: last_append)
  qed
  then show ?thesis unfolding new R A .
qed

lemma no_break_last: "no_break l \<Longrightarrow> l \<noteq> [] \<Longrightarrow> last l \<noteq> char_of (10::nat)"
  using line_break_newline [of "[]"] unfolding no_break_def by (metis append_butlast_last_id option.distinct(1))

subsection \<open>Properties\<close>

lemma env_updates_keys:
  "set (map fst (env_updates sessdata bili_jct buvid3)) \<subseteq> set ENV_KEYS_OWNED" "wf_dict (env_updates sessdata bili_jct buvid3)"
  by (auto simp: env_updates_def ENV_KEYS_OWNED_def wf_dict_def split: option.split)

lemma new_env_text_lines:
  assumes "list_all no_break ls" and "ls \<noteq> []" and "last ls \<noteq> []"
  shows "splitlines (new_env_text ls) = ls"
proof -
  have "no_break (last ls)" using assms(1,2) by (simp add: list_all_iff)
  then have "last (last ls) \<noteq> char_of (10::nat)" using assms(3) by (rule no_break_last)
  then have "new_env_text ls = join_with [char_of (10::nat)] ls @ [char_of (10::nat)]"
    using join_with_last [OF assms(2,3)] by (simp add: new_env_text_def Let_def)
  with splitlines_join [OF assms(1,2)] show ?thesis by simp
qed

text \<open>A blank last line is lost, as the text then ends in the newline before it.\<close>

lemma new_env_text_lines_blank:
  assumes "list_all no_break ls" and "ls \<noteq> []" and "last ls = []"
  shows "splitlines (new_env_text ls) @ [[]] = ls"
proof -
  obtain ls' where ls: "ls = ls' @ [[]]" using assms(2,3) by (metis append_butlast_last_id)
  show ?thesis
  proof (cases "ls' = []")
    case False
    have "join_with sep (xs @ [[]]) = join_with sep xs @ sep" if "xs \<noteq> []" for sep :: string and xs
      using that by (induction sep xs rule: join_with.induct) (auto simp: neq_Nil_conv)
    then have "new_env_text ls = join_with [char_of (10::nat)] ls' @ [char_of (10::nat)]"
      using False by (simp add: new_env_text_def Let_def ls)
    moreover have "list_all no_break ls'" using assms(1) by (simp add: ls)
    ultimately show ?thesis using splitlines_join [of ls'] False by (simp add: ls)
  qed (simp add: ls new_env_text_def)
qed


definition env_witness :: file_system where
  "env_witness = [''.env'' \<mapsto> ''PORT=1'' @ [char_of (10::nat)] @ ''SESSDATA=a'']"


text \<open>
  A poll of the QR login answers by the code inside of the data: three codes are waiting or
  expired states, 0 is a success, anything else an error. A success is returned only with both
  credentials, each from the \<open>Set-Cookie\<close> jar or else from the query of the URL, and a partial one is
  reported as incomplete.
\<close>

theorem qr_poll_correct:
  assumes "pget P QR_POLL_URL [(''qrcode_key'', key)] w = (Inr response, w')"
    and "loads P (pr_text response) = Loaded (JDict body)" and "pr_text response \<noteq> []"
    and "jget body ''data'' = JDict data" and "jget data ''code'' = JInt code"
  shows "case qr_poll P key w of (r, w2) \<Rightarrow> w2 = w' \<and>
    (if code = 86101 then r = Inl QrAwaitingScanError
     else if code = 86090 then r = Inl QrAwaitingConfirmError
     else if code = 86038 then r = Inl QrExpiredError
     else if code \<noteq> 0 then r = Inl QrLoginError
     else (case url_query_params P (text_of_url data) of
         Inl e \<Rightarrow> r = Inl (Raised (Py e))
       | Inr params \<Rightarrow>
           if captured_cookie response params ''SESSDATA'' = [] \<or> captured_cookie response params ''bili_jct'' = []
           then r = Inl LoginIncompleteError
           else r = Inr \<lparr>cp_sessdata = captured_cookie response params ''SESSDATA'',
                        cp_bili_jct = captured_cookie response params ''bili_jct'',
                        cp_dede_user_id = captured_cookie response params ''DedeUserID''\<rparr>))"
proof -
  have parse: "parse_json_object (loads P) (pr_text response) = Inr body" using assms(2,3) by (simp add: parse_json_object_def)
  have capture: "capture_success_cookies P response = bind_res (url_query_params P (text_of_url data)) (\<lambda>params.
      Inr \<lparr>cp_sessdata = captured_cookie response params ''SESSDATA'', cp_bili_jct = captured_cookie response params ''bili_jct'',
           cp_dede_user_id = captured_cookie response params ''DedeUserID''\<rparr>)"
    by (simp add: capture_success_cookies_def parse assms(4) text_of_url_def Let_def)
  have "qr_poll P key w = (poll_result P response, w')"
    using assms(1) by (simp add: qr_poll_def passport_get_def bind_io_def)
  moreover have "poll_result P response =
      (if code = 86101 then Inl QrAwaitingScanError else if code = 86090 then Inl QrAwaitingConfirmError
       else if code = 86038 then Inl QrExpiredError
       else if code = 0 then bind_res (raised (capture_success_cookies P response)) (\<lambda>cookies.
           if cp_bili_jct cookies = [] then Inl LoginIncompleteError
           else if cp_sessdata cookies = [] then Inl LoginIncompleteError
           else Inr cookies)
       else Inl QrLoginError)"
    by (simp add: poll_result_def parse assms(4,5))
  ultimately show ?thesis
    by (cases "url_query_params P (text_of_url data)") (auto simp: capture)
qed

definition passport_witness :: "unit passport" where
  "passport_witness =
     \<lparr>pget = (\<lambda>url params w. (Inr \<lparr>pr_status = 200, pr_text = ''{'', pr_cookies = [(''bili_jct'', ''t'')]\<rparr>, w)),
      loads = (\<lambda>_. Loaded (JDict [(''data'', JDict [(''code'', JInt 0), (''url'', JStr ''https://b.com/?SESSDATA=s%2C1&x='')])])),
      netloc_fine = (\<lambda>_. True), decode_utf8 = id\<rparr>"

lemma qr_poll_correct_witness:
  "qr_poll passport_witness ''k'' () = (Inr \<lparr>cp_sessdata = ''s,1'', cp_bili_jct = ''t'', cp_dede_user_id = []\<rparr>, ())"
proof -
  let ?r = "\<lparr>pr_status = 200, pr_text = ''{'', pr_cookies = [(''bili_jct'', ''t'')]\<rparr>"
  let ?data = "[(''code'', JInt 0), (''url'', JStr ''https://b.com/?SESSDATA=s%2C1&x='')]"
  have "url_query_params passport_witness (text_of_url ?data) = Inr [(''SESSDATA'', [''s,1''])]"
    by code_simp
  moreover have "pget passport_witness QR_POLL_URL [(''qrcode_key'', ''k'')] () = (Inr ?r, ())"
    and "loads passport_witness (pr_text ?r) = Loaded (JDict [(''data'', JDict ?data)])" and "pr_text ?r \<noteq> []"
    by (simp_all add: passport_witness_def)
  ultimately show ?thesis
    using qr_poll_correct [of passport_witness "''k''" "()" ?r "()" "[(''data'', JDict ?data)]" ?data 0]
    by (simp add: jget_def captured_cookie_def cookie_value_def first_query_value_def Let_def case_prod_beta prod_eq_iff)
qed

end
