(* ===== verification/App_State.thy ===== *)
theory App_State
  imports Room_Session Room_Bridge Ban_List Auth_Session Cookie_Login
begin

section \<open>The state shared by the routes\<close>

text \<open>
  The singletons the handlers work on: the settings, the cached local token, the authentication
  session with its own client, the clients of \<open>ban_routes\<close> and \<open>room_routes\<close> (all share one signer),
  the ban-list manager, the active room with its bridge, and the files. This theory holds what both groups of routes use: the clients, the teardown of
  the active room, and the expiry of the login, whose listener runs that teardown. A handler runs
  without interference of other tasks on the singletons.
\<close>

subsection \<open>State\<close>

text \<open>A session and the bridge on it; the only callback a session gets is the bridge's \<open>_on_event\<close>.\<close>

datatype session_callback = BridgeOnEvent

record 'ws active_room =
  ar_session :: "session_callback room_session"
  ar_bridge :: "'ws bridge"

text \<open>The listener that \<open>main.lifespan\<close> registers, \<open>_stop_expired_authenticated_runtime\<close>.\<close>

datatype expiry_listener = StopExpiredRuntime

text \<open>
  The world of the ban-list manager says whether a bridge is installed, which its \<open>is_running\<close>
  callback reads. Its subscribers are sockets.
\<close>

type_synonym ('ws, 'w) app_manager = "('ws, bool \<times> 'w) ban_manager"

record ('ws, 'w) app =
  ap_settings :: settings
  ap_token :: "string option"
  ap_auth :: "expiry_listener auth_session"
  ap_auth_client :: bili_client
  ap_signer :: wbi_signer
  ap_ban_client :: "bili_client option"
  ap_room_client :: "bili_client option"
  ap_manager :: "('ws, 'w) app_manager option"
  ap_room :: "'ws active_room option"
  ap_retired :: "'ws active_room list" \<comment> \<open>for the statements: the rooms that were replaced or stopped\<close>
  ap_abandoned :: "session_callback room_session list" \<comment> \<open>sessions that run on although nothing refers to them\<close>
  ap_files :: file_system
  ap_world :: 'w

text \<open>
  What the handlers call: the network and the clock, \<open>fromisoformat\<close>, MD5, the iteration order of a
  set of sockets, \<open>WebSocket.send_json\<close> and \<open>DanmakuClient.start\<close>.
\<close>

record ('ws, 'w) services =
  sv_env :: "'w env"
  sv_iso_diff :: "string \<Rightarrow> string \<Rightarrow> rat option"
  sv_md5 :: "string \<Rightarrow> string"
  sv_order :: "'ws set \<Rightarrow> 'ws list"
  sv_send :: "'ws \<Rightarrow> ban_message \<Rightarrow> 'w \<Rightarrow> (py_exn + unit) \<times> 'w"
  sv_start :: "int \<Rightarrow> ('w, danmaku_client option) client_io"

definition now_seconds :: "('ws, 'w) services \<Rightarrow> 'w \<Rightarrow> int" where
  "now_seconds S w = trunc_rat (clock (sv_env S) w)"

subsection \<open>Replies\<close>

datatype reply_detail =
    AuthExpiredDetail
  | ErrorDetail string error_text
  | TextDetail string
  | StateDetail auth_state

datatype 'a reply = Reply 'a | HttpError nat reply_detail | Crash exn

text \<open>The handler of \<open>NotAuthenticatedError\<close>, which reads the state of the session again.\<close>

definition not_authenticated_handler :: "'cb auth_session \<Rightarrow> auth_state \<Rightarrow> 'a reply" where
  "not_authenticated_handler a raised_in =
     HttpError 401 (if au_state a = Expired then AuthExpiredDetail else StateDetail raised_in)"

subsection \<open>Clients\<close>

text \<open>
  \<open>_get_bili_client\<close>: create the client at the first use, then push the cookies of the settings into
  it. The signer is the module's singleton, whichever client uses it.
\<close>

definition get_bili_client :: "('ws, 'w) app \<Rightarrow> bili_client option \<Rightarrow> bili_client" where
  "get_bili_client app cached =
     (let cookies = settings_cookies (ap_settings app);
          c = (case cached of
                 None \<Rightarrow> new_client cookies (st_BILI_JCT (ap_settings app)) (ap_signer app)
               | Some c \<Rightarrow> c\<lparr>cl_signer := ap_signer app\<rparr>)
      in update_cookies c cookies)"

definition with_ban_client :: "('w, 'a) client_io \<Rightarrow> ('ws, 'w) app \<Rightarrow> (exn + 'a) \<times> ('ws, 'w) app" where
  "with_ban_client call app =
     (case call (get_bili_client app (ap_ban_client app), ap_world app) of
        (r, (c, w)) \<Rightarrow> (r, app\<lparr>ap_ban_client := Some c, ap_signer := cl_signer c, ap_world := w\<rparr>))"

definition with_room_client :: "('w, 'a) client_io \<Rightarrow> ('ws, 'w) app \<Rightarrow> (exn + 'a) \<times> ('ws, 'w) app" where
  "with_room_client call app =
     (case call (get_bili_client app (ap_room_client app), ap_world app) of
        (r, (c, w)) \<Rightarrow> (r, app\<lparr>ap_room_client := Some c, ap_signer := cl_signer c, ap_world := w\<rparr>))"

subsection \<open>The ban-list manager of the process\<close>

text \<open>The network as the manager sees it; requests do not change which room is active.\<close>

definition flagged_env :: "'w env \<Rightarrow> (bool \<times> 'w) env" where
  "flagged_env E = \<lparr>net = (\<lambda>rq (b, w). case net E rq w of (r, w') \<Rightarrow> (r, (b, w'))), clock = (\<lambda>(b, w). clock E w)\<rparr>"

text \<open>\<open>_push\<close>: what \<open>send_json\<close> raises is logged and swallowed.\<close>

definition ban_push :: "('ws, 'w) services \<Rightarrow> ('ws, bool \<times> 'w) ban_invoke" where
  "ban_push S ws msg = (\<lambda>(c, (b, w)). case sv_send S ws msg w of (_, w') \<Rightarrow> (Inr (), (c, (b, w'))))"

text \<open>
  An operation of the manager: it uses the client it was created with, which is the one of
  \<open>ban_routes\<close>.
\<close>

definition with_manager ::
    "(('ws, 'w) app_manager \<Rightarrow> (bool \<times> 'w) client_world \<Rightarrow> 'a \<times> ('ws, 'w) app_manager \<times> (bool \<times> 'w) client_world)
      \<Rightarrow> ('ws, 'w) app_manager \<Rightarrow> ('ws, 'w) app \<Rightarrow> 'a \<times> ('ws, 'w) app" where
  "with_manager call mg app =
     (let c = (case ap_ban_client app of None \<Rightarrow> get_bili_client app None | Some c \<Rightarrow> c\<lparr>cl_signer := ap_signer app\<rparr>)
      in case call mg (c, (ap_room app \<noteq> None, ap_world app)) of
           (r, mg', (c', (_, w'))) \<Rightarrow>
             (r, app\<lparr>ap_manager := Some mg', ap_ban_client := Some c', ap_signer := cl_signer c', ap_world := w'\<rparr>))"

text \<open>A stopped manager has no entries, subscribers or task left, so it is not kept.\<close>

definition stop_banlist_manager :: "('ws, 'w) app \<Rightarrow> ('ws, 'w) app" where
  "stop_banlist_manager app = app\<lparr>ap_manager := None\<rparr>"

definition manages :: "('ws, 'w) app \<Rightarrow> int \<Rightarrow> ('ws, 'w) app_manager option" where
  "manages app room_id =
     (case ap_manager app of
        Some mg \<Rightarrow> if map_option fst (mg_room mg) = Some room_id then Some mg else None
      | None \<Rightarrow> None)"

subsection \<open>The active room\<close>

definition room_invoke ::
    "('ws, 'w) services \<Rightarrow> session_callback \<Rightarrow> bridge_event \<Rightarrow> 'ws bridge \<times> 'w \<Rightarrow> (py_exn + unit) \<times> ('ws bridge \<times> 'w)" where
  "room_invoke S cb event = (\<lambda>(b, w). (Inr (), (on_event (sv_order S) (now_seconds S w) event b, w)))"

text \<open>\<open>RoomBridge.close\<close>, with the callback it removes from its session.\<close>

definition close_room :: "('ws, 'w) services \<Rightarrow> 'ws active_room \<Rightarrow> 'ws active_room" where
  "close_room S ar =
     (if br_closed (ar_bridge ar) then ar
      else \<lparr>ar_session = remove_callback BridgeOnEvent (ar_session ar),
            ar_bridge = close_bridge (sv_order S) (ar_bridge ar)\<rparr>)"

text \<open>The teardown in \<open>start_room_route\<close> and \<open>stop_room_route\<close>: disconnect, close, clear the singleton.\<close>

definition shut_room :: "('ws, 'w) services \<Rightarrow> ('ws, 'w) app \<Rightarrow> ('ws, 'w) app" where
  "shut_room S app =
     (case ap_room app of
        None \<Rightarrow> app
      | Some ar \<Rightarrow>
          (case disconnect (room_invoke S) (ar_session ar) (ar_bridge ar, ap_world app) of
             (s, (b, w)) \<Rightarrow>
               app\<lparr>ap_room := None, ap_world := w,
                   ap_retired := ap_retired app @ [close_room S \<lparr>ar_session = s, ar_bridge = b\<rparr>]\<rparr>))"

definition stop_room_route :: "('ws, 'w) services \<Rightarrow> ('ws, 'w) app \<Rightarrow> unit reply \<times> ('ws, 'w) app" where
  "stop_room_route S app = (Reply (), stop_banlist_manager (shut_room S app))"

subsection \<open>Expiry of the login\<close>

definition on_expiry ::
    "('ws, 'w) services \<Rightarrow> expiry_listener \<Rightarrow> unit \<Rightarrow> ('ws, 'w) app \<Rightarrow> (py_exn + unit) \<times> ('ws, 'w) app" where
  "on_expiry S listener arg app = (Inr (), snd (stop_room_route S app))"

definition expire_login :: "('ws, 'w) services \<Rightarrow> ('ws, 'w) app \<Rightarrow> ('ws, 'w) app" where
  "expire_login S app =
     (case handle_auth_expired (on_expiry S) (ap_auth app) app of (a, app') \<Rightarrow> app'\<lparr>ap_auth := a\<rparr>)"

definition http_for_bili_error :: "bili_error \<Rightarrow> 'a reply" where
  "http_for_bili_error e =
     (case e of
        AuthExpiredError m \<Rightarrow> HttpError 401 AuthExpiredDetail
      | PermissionDeniedError m \<Rightarrow> HttpError 403 (ErrorDetail ''permission denied: '' m)
      | RateLimitedError m \<Rightarrow> HttpError 429 (ErrorDetail ''rate limited: '' m)
      | BiliApiError code m \<Rightarrow> HttpError 502 (ErrorDetail ''bilibili api error: '' m))"

text \<open>\<open>except BiliApiError\<close> of the handlers; any other exception leaves them.\<close>

definition upstream_failure :: "('ws, 'w) services \<Rightarrow> exn \<Rightarrow> ('ws, 'w) app \<Rightarrow> 'a reply \<times> ('ws, 'w) app" where
  "upstream_failure S e app =
     (case e of
        Bili b \<Rightarrow> (http_for_bili_error b, case b of AuthExpiredError m \<Rightarrow> expire_login S app | _ \<Rightarrow> app)
      | _ \<Rightarrow> (Crash e, app))"

subsection \<open>The well-formed active room\<close>

definition room_ok :: "'ws active_room \<Rightarrow> bool" where
  "room_ok ar \<longleftrightarrow> bridge_ok (ar_bridge ar) \<and> \<not> br_closed (ar_bridge ar) \<and>
     se_callbacks (ar_session ar) = [BridgeOnEvent] \<and> se_client (ar_session ar) \<noteq> None"

definition room_closed :: "'ws active_room \<Rightarrow> bool" where
  "room_closed ar \<longleftrightarrow> bridge_ok (ar_bridge ar) \<and> br_closed (ar_bridge ar) \<and> br_clients (ar_bridge ar) = {} \<and>
     br_queues (ar_bridge ar) = [] \<and> se_callbacks (ar_session ar) = [] \<and> se_client (ar_session ar) = None"

lemma broadcast_to_bridge:
  "se_callbacks s = [BridgeOnEvent] \<Longrightarrow>
   session_broadcast (room_invoke S) event s (b, w) = (on_event (sv_order S) (now_seconds S w) event b, w)"
  by (simp add: session_broadcast_def room_invoke_def)

lemma on_event_open:
  "bridge_ok b \<Longrightarrow> valid_order order \<Longrightarrow> br_closed (on_event order now e b) = br_closed b"
  using on_event_effect(5) [of b order now e] by (simp add: same_core_def)

text \<open>The teardown leaves nothing active: the old session has no client, the old bridge no sockets.\<close>

lemma shut_room_effect:
  assumes "valid_order (sv_order S)" and "\<And>ar. ap_room app = Some ar \<Longrightarrow> room_ok ar"
  obtains retired w where "shut_room S app = app\<lparr>ap_room := None, ap_world := w, ap_retired := ap_retired app @ retired\<rparr>"
    and "length retired = (if ap_room app = None then 0 else 1)" and "\<forall>ar \<in> set retired. room_closed ar"
proof (cases "ap_room app")
  case None
  then have "shut_room S app = app\<lparr>ap_room := None, ap_world := ap_world app, ap_retired := ap_retired app @ []\<rparr>"
    by (simp add: shut_room_def)
  with None show ?thesis using that by fastforce
next
  case (Some ar)
  let ?s = "(ar_session ar)\<lparr>se_client := None, se_status := Disconnected, se_seen_ids := [], se_seen_id_set := {},
                       se_initial_super_chats := [], se_room_id := None\<rparr>"
  let ?b = "on_event (sv_order S) (now_seconds S (ap_world app)) (RoomStatus Disconnected) (ar_bridge ar)"
  let ?ar = "close_room S \<lparr>ar_session = ?s, ar_bridge = ?b\<rparr>"
  have ok: "room_ok ar" using assms(2) Some .
  then have "disconnect (room_invoke S) (ar_session ar) (ar_bridge ar, ap_world app) = (?s, (?b, ap_world app))"
    using broadcast_to_bridge [of ?s S] by (auto simp: disconnect_def room_ok_def)
  then have eq: "shut_room S app = app\<lparr>ap_room := None, ap_world := ap_world app, ap_retired := ap_retired app @ [?ar]\<rparr>"
    using Some by (simp add: shut_room_def)
  have "bridge_ok ?b" and "\<not> br_closed ?b"
    using ok assms(1) by (simp_all add: room_ok_def bridge_ok_on_event on_event_open)
  then have "room_closed ?ar"
    using ok bridge_ok_close [of ?b "sv_order S"]
    by (simp add: room_closed_def room_ok_def close_room_def remove_callback_def close_bridge_eq)
  with eq Some show ?thesis using that [of "[?ar]" "ap_world app"] by simp
qed

subsection \<open>What an expired login stops\<close>

lemma stop_room_effect:
  "ap_manager (snd (stop_room_route S app)) = None" "ap_room (snd (stop_room_route S app)) = None"
  "ap_auth (snd (stop_room_route S app)) = ap_auth app" "ap_abandoned (snd (stop_room_route S app)) = ap_abandoned app"
  by (auto simp: stop_room_route_def stop_banlist_manager_def shut_room_def split: option.split prod.split)

text \<open>An expired login, once \<open>lifespan\<close> has registered its listener, stops everything that runs.\<close>

lemma expire_login_effect:
  assumes "StopExpiredRuntime \<in> set (au_callbacks (ap_auth app))"
  shows "au_state (ap_auth (expire_login S app)) = Expired \<and> ap_manager (expire_login S app) = None \<and>
    ap_room (expire_login S app) = None \<and> au_callbacks (ap_auth (expire_login S app)) = au_callbacks (ap_auth app)"
proof -
  have step: "snd (on_expiry S cb () a) = snd (stop_room_route S a)" for cb a by (simp add: on_expiry_def)
  have stopped: "ap_manager a = None \<and> ap_room a = None \<Longrightarrow>
      ap_manager (expire_each (on_expiry S) cbs () a) = None \<and> ap_room (expire_each (on_expiry S) cbs () a) = None" for cbs a
    unfolding expiry_fanout.dispatch_fold step by (induction cbs arbitrary: a) (simp_all add: stop_room_effect)
  have "cbs \<noteq> [] \<Longrightarrow> ap_manager (expire_each (on_expiry S) cbs () a) = None \<and> ap_room (expire_each (on_expiry S) cbs () a) = None" for cbs a
  proof (cases cbs)
    case (Cons cb cbs')
    have "expire_each (on_expiry S) (cb # cbs') () a = expire_each (on_expiry S) cbs' () (snd (stop_room_route S a))"
      by (simp add: on_expiry_def)
    then show ?thesis using stopped [of "snd (stop_room_route S a)" cbs'] unfolding Cons by (simp only: stop_room_effect simp_thms)
  qed simp
  moreover have "au_callbacks (ap_auth app) \<noteq> []" using assms by auto
  ultimately show ?thesis by (simp add: expire_login_def handle_auth_expired_def Let_def)
qed

text \<open>With no active room the expiry of the login retires nothing more.\<close>

lemma expire_idle:
  assumes "ap_room app = None"
  shows "ap_retired (expire_login S app) = ap_retired app" "ap_room (expire_login S app) = None"
    "au_state (ap_auth (expire_login S app)) = Expired" "ap_ban_client (expire_login S app) = ap_ban_client app"
    "ap_manager app = None \<Longrightarrow> ap_manager (expire_login S app) = None"
    "au_callbacks (ap_auth (expire_login S app)) = au_callbacks (ap_auth app)"
    "ap_abandoned (expire_login S app) = ap_abandoned app"
proof -
  let ?idle = "\<lambda>a. ap_room a = None \<and> ap_retired a = ap_retired app \<and> ap_abandoned a = ap_abandoned app \<and> ap_ban_client a = ap_ban_client app \<and>
    (ap_manager app = None \<longrightarrow> ap_manager a = None)"
  have "?idle a \<Longrightarrow> ?idle (snd (on_expiry S cb () a))" for cb a
    by (simp add: on_expiry_def stop_room_route_def shut_room_def stop_banlist_manager_def)
  then have "?idle a \<Longrightarrow> ?idle (expire_each (on_expiry S) cbs () a)" for cbs a
    unfolding expiry_fanout.dispatch_fold by (induction cbs arbitrary: a) simp_all
  then have "?idle (expire_each (on_expiry S) (au_callbacks (ap_auth app)) () app)" using assms by blast
  then show "ap_retired (expire_login S app) = ap_retired app" "ap_room (expire_login S app) = None"
    "au_state (ap_auth (expire_login S app)) = Expired" "ap_ban_client (expire_login S app) = ap_ban_client app"
    "ap_manager app = None \<Longrightarrow> ap_manager (expire_login S app) = None"
    "au_callbacks (ap_auth (expire_login S app)) = au_callbacks (ap_auth app)"
    "ap_abandoned (expire_login S app) = ap_abandoned app"
    by (simp_all add: expire_login_def handle_auth_expired_def Let_def)
qed

end
