(* ===== verification/Ban_Routes.thy ===== *)
theory Ban_Routes
  imports App_State
begin

section \<open>The ban routes (\<open>api/ban_routes.py\<close>)\<close>

text \<open>
  The handlers that ban, unban and list, and the two ends of the socket that streams the ban list.
  A handler returns a reply and the state it leaves; \<open>Crash\<close> is an exception no handler catches,
  which the server answers with status 500.
\<close>

subsection \<open>Requests\<close>

record ban_request =
  bq_room_id :: int
  bq_uid :: int
  bq_hour :: int
  bq_reason :: string
  bq_uname :: string

record unban_request =
  uq_room_id :: int
  uq_block_id :: int
  uq_uid :: int

text \<open>The validation of the models; \<open>max_length\<close> counts code points.\<close>

definition code_points :: "string \<Rightarrow> nat" where
  "code_points s = length (filter (\<lambda>c. \<not> (128 \<le> (of_char c :: nat) \<and> (of_char c :: nat) < 192)) s)"

definition valid_ban_request :: "ban_request \<Rightarrow> bool" where
  "valid_ban_request rq \<longleftrightarrow> 0 < bq_room_id rq \<and> 0 < bq_uid rq \<and> bq_hour rq \<in> {- 1, 0, 2, 4, 24, 168} \<and>
     code_points (bq_reason rq) \<le> 200 \<and> code_points (bq_uname rq) \<le> 100"

definition valid_unban_request :: "unban_request \<Rightarrow> bool" where
  "valid_unban_request rq \<longleftrightarrow> 0 < uq_room_id rq \<and> 0 < uq_block_id rq \<and> 0 < uq_uid rq"

subsection \<open>\<open>POST /ban\<close>\<close>

definition pending_row :: "ban_request \<Rightarrow> int \<Rightarrow> message" where
  "pending_row rq created_at =
     [(''uid'', JInt (bq_uid rq)), (''uname'', JStr (bq_uname rq)), (''hour'', JInt (bq_hour rq)),
      (''reason'', JStr (bq_reason rq)), (''created_at'', JInt created_at)]"

text \<open>The immediate refresh: whatever it raises, the ban has been made.\<close>

definition refresh_after_ban :: "('ws, 'w) services \<Rightarrow> ('ws, 'w) app_manager \<Rightarrow> ('ws, 'w) app \<Rightarrow> ('ws, 'w) app" where
  "refresh_after_ban S mg app =
     (case with_manager (refresh (flagged_env (sv_env S)) (sv_iso_diff S) (ban_push S) True) mg app of
        (Inl (Bili (AuthExpiredError m)), app') \<Rightarrow> expire_login S app'
      | (_, app') \<Rightarrow> app')"

definition announce_ban ::
    "('ws, 'w) services \<Rightarrow> ban_request \<Rightarrow> ('ws, 'w) app_manager \<Rightarrow> ('ws, 'w) app \<Rightarrow> unit reply \<times> ('ws, 'w) app" where
  "announce_ban S rq mg app =
     (let created_at = now_seconds S (ap_world app) in
      case normalize_ban_entry (sv_iso_diff S) (pending_row rq created_at) True of
        Inl e \<Rightarrow> (Crash (Py e), app)
      | Inr None \<Rightarrow> (Crash (Py AssertionError), app)
      | Inr (Some entry) \<Rightarrow>
          (case with_manager (on_ban (sv_iso_diff S) (ban_push S) (bq_uid rq) (ban_row entry)) mg app of
             (Inl e, app1) \<Rightarrow> (Crash (Py e), app1)
           | (Inr _, app1) \<Rightarrow>
               (case ap_manager app1 of
                  None \<Rightarrow> (Reply (), app1)
                | Some mg1 \<Rightarrow> (Reply (), refresh_after_ban S mg1 app1))))"

definition post_ban_route :: "('ws, 'w) services \<Rightarrow> ban_request \<Rightarrow> ('ws, 'w) app \<Rightarrow> unit reply \<times> ('ws, 'w) app" where
  "post_ban_route S rq app =
     (case require_authenticated (ap_auth app) of
        Inl state \<Rightarrow> (not_authenticated_handler (ap_auth app) state, app)
      | Inr _ \<Rightarrow>
          (case with_ban_client (ban_user (sv_env S) (bq_room_id rq) (bq_uid rq) (bq_hour rq)) app of
             (Inl e, app1) \<Rightarrow> upstream_failure S e app1
           | (Inr ok, app1) \<Rightarrow>
               if \<not> ok then (HttpError 400 (TextDetail ''ban failed''), app1)
               else (case manages app1 (bq_room_id rq) of
                       None \<Rightarrow> (Reply (), app1)
                     | Some mg \<Rightarrow> announce_ban S rq mg app1)))"

subsection \<open>\<open>DELETE /ban\<close>\<close>

definition delete_ban_route :: "('ws, 'w) services \<Rightarrow> unban_request \<Rightarrow> ('ws, 'w) app \<Rightarrow> unit reply \<times> ('ws, 'w) app" where
  "delete_ban_route S rq app =
     (case require_authenticated (ap_auth app) of
        Inl state \<Rightarrow> (not_authenticated_handler (ap_auth app) state, app)
      | Inr _ \<Rightarrow>
          (case with_ban_client (unban_user (sv_env S) (uq_room_id rq) (uq_block_id rq)) app of
             (Inl e, app1) \<Rightarrow> upstream_failure S e app1
           | (Inr ok, app1) \<Rightarrow>
               if \<not> ok then (HttpError 400 (TextDetail ''unban failed''), app1)
               else (case manages app1 (uq_room_id rq) of
                       None \<Rightarrow> (Reply (), app1)
                     | Some mg \<Rightarrow>
                         (case with_manager (\<lambda>m cw. case on_unban (ban_push S) (uq_uid rq) m cw of (m', cw') \<Rightarrow> ((), m', cw'))
                                 mg app1 of (_, app2) \<Rightarrow> (Reply (), app2)))))"

subsection \<open>\<open>GET /ban-list/{room_id}\<close>\<close>

text \<open>The entries of the cache are dictionaries again: the loop normalises each of them.\<close>

fun normalize_cached :: "(string \<Rightarrow> string \<Rightarrow> rat option) \<Rightarrow> ban_entry list \<Rightarrow> py_exn + ban_entry list" where
  "normalize_cached iso_diff [] = Inr []"
| "normalize_cached iso_diff (cached # rest) =
     bind_res (normalize_ban_entry iso_diff (ban_row cached) (be_pending cached)) (\<lambda>entry.
     bind_res (normalize_cached iso_diff rest) (\<lambda>entries.
     Inr (case entry of None \<Rightarrow> entries | Some e \<Rightarrow> e # entries)))"

definition read_ban_list ::
    "('ws, 'w) services \<Rightarrow> int \<Rightarrow> bool \<Rightarrow> ('ws, 'w) app \<Rightarrow> (exn + ban_entry list) \<times> ('ws, 'w) app" where
  "read_ban_list S room_id do_refresh app =
     (case manages app room_id of
        Some mg \<Rightarrow>
          if do_refresh then
            (let app1 = app\<lparr>ap_ban_client := Some (get_bili_client app (ap_ban_client app))\<rparr>
             in with_manager (refresh (flagged_env (sv_env S)) (sv_iso_diff S) (ban_push S) True) mg app1)
          else (py_res (normalize_cached (sv_iso_diff S) (dict_values (mg_bans mg))), app)
      | None \<Rightarrow>
          with_ban_client
            (bind_io (get_ban_list (sv_env S) (\<lambda>_. True) room_id) (\<lambda>rows.
             lift_res (py_res (normalize_rows (sv_iso_diff S) rows)))) app)"

definition get_ban_list_route ::
    "('ws, 'w) services \<Rightarrow> int \<Rightarrow> bool \<Rightarrow> ('ws, 'w) app \<Rightarrow> (int \<times> ban_entry list) reply \<times> ('ws, 'w) app" where
  "get_ban_list_route S room_id do_refresh app =
     (case require_authenticated (ap_auth app) of
        Inl state \<Rightarrow> (not_authenticated_handler (ap_auth app) state, app)
      | Inr _ \<Rightarrow>
          (case read_ban_list S room_id do_refresh app of
             (Inl e, app1) \<Rightarrow> upstream_failure S e app1
           | (Inr entries, app1) \<Rightarrow> (Reply (room_id, entries), app1)))"

subsection \<open>\<open>WS /ws/rooms/{room_id}/banlist\<close>\<close>

datatype banlist_join = Streaming | ClosedExpired | JoinCrash exn

text \<open>The lazily created manager.\<close>

definition ensure_manager :: "('ws, 'w) app \<Rightarrow> ('ws, 'w) app" where
  "ensure_manager app =
     (case ap_manager app of
        Some mg \<Rightarrow> app
      | None \<Rightarrow> app\<lparr>ap_ban_client := Some (get_bili_client app (ap_ban_client app)), ap_manager := Some new_ban_manager\<rparr>)"

definition subscribe_push :: "('ws, 'w) services \<Rightarrow> 'ws \<Rightarrow> ('ws, 'w) app \<Rightarrow> banlist_join \<times> ('ws, 'w) app" where
  "subscribe_push S ws app =
     (case ap_manager app of
        None \<Rightarrow> (Streaming, app)
      | Some mg \<Rightarrow>
          (case with_manager (\<lambda>m cw. case subscribe (ban_push S) ws m cw of (m', cw') \<Rightarrow> ((), m', cw')) mg app of
             (_, app') \<Rightarrow> (Streaming, app')))"

definition ws_banlist_join :: "('ws, 'w) services \<Rightarrow> 'ws \<Rightarrow> int \<Rightarrow> ('ws, 'w) app \<Rightarrow> banlist_join \<times> ('ws, 'w) app" where
  "ws_banlist_join S ws room_id app =
     (let app1 = ensure_manager app in
      case manages app1 room_id of
        Some mg \<Rightarrow> subscribe_push S ws app1
      | None \<Rightarrow>
          (case ap_manager app1 of
             None \<Rightarrow> (Streaming, app1)
           | Some mg \<Rightarrow>
               (case with_manager (start_bans (flagged_env (sv_env S)) (sv_iso_diff S) (ban_push S) room_id fst) mg app1 of
                  (Inl (Bili (AuthExpiredError m)), app2) \<Rightarrow> (ClosedExpired, expire_login S app2)
                | (Inl e, app2) \<Rightarrow> (JoinCrash e, app2)
                | (Inr _, app2) \<Rightarrow> subscribe_push S ws app2)))"

text \<open>A socket that leaves after its manager was replaced is not subscribed to the new one.\<close>

definition ws_banlist_leave :: "'ws \<Rightarrow> ('ws, 'w) app \<Rightarrow> ('ws, 'w) app" where
  "ws_banlist_leave ws app = app\<lparr>ap_manager := map_option (unsubscribe ws) (ap_manager app)\<rparr>"


subsection \<open>What the pieces of a handler change\<close>

lemma with_ban_client_frame:
  assumes "with_ban_client call app = (r, app')"
  shows "ap_auth app' = ap_auth app" "ap_manager app' = ap_manager app" "ap_room app' = ap_room app"
    "ap_settings app' = ap_settings app" "ap_retired app' = ap_retired app" "ap_ban_client app' \<noteq> None"
    "manages app' = manages app" "ap_token app' = ap_token app"
  using assms by (auto simp: with_ban_client_def manages_def fun_eq_iff split: prod.splits)

lemma with_manager_frame:
  assumes "with_manager call mg app = (r, app')"
  shows "ap_auth app' = ap_auth app" "ap_room app' = ap_room app" "ap_settings app' = ap_settings app"
    "ap_retired app' = ap_retired app" "ap_ban_client app' \<noteq> None" "ap_token app' = ap_token app"
  using assms by (auto simp: with_manager_def Let_def split: prod.splits)

lemma with_manager_call:
  assumes "with_manager call mg app = (r, app')"
  obtains c w mg' cw' where "call mg (c, (ap_room app \<noteq> None, w)) = (r, mg', cw')" and "ap_manager app' = Some mg'"
  using assms by (auto simp: with_manager_def Let_def split: prod.splits)

lemma pending_row_normalizes:
  assumes "0 < bq_uid rq"
  obtains entry where "normalize_ban_entry iso_diff (pending_row rq created_at) True = Inr (Some entry)"
    and "be_uid entry = bq_uid rq" and "be_pending entry" and "be_hour entry = Some (bq_hour rq)"
    and "be_reason entry = py_strip (bq_reason rq)" and "be_created_at entry = TsInt created_at"
  using assms
  by (simp add: normalize_ban_entry_def pending_row_def ban_target_def ban_operator_def ban_times_def
      jget_def jget_default_def as_text_def as_timestamp_def text_or_def)

lemma on_ban_entry:
  assumes "ban_entry_ok iso_diff entry"
  shows "on_ban iso_diff invoke (be_uid entry) (ban_row entry) mg cw =
    (Inr (), mg\<lparr>mg_bans := AList.update (be_uid entry) entry (mg_bans mg)\<rparr>,
     ban_broadcast invoke (BanAdded entry) (mg\<lparr>mg_bans := AList.update (be_uid entry) entry (mg_bans mg)\<rparr>) cw)"
proof -
  have "jget (ban_row entry) ''pending'' = JBool (be_pending entry)" by (simp add: ban_row_def jget_def)
  then show ?thesis
    using normalize_ban_row [OF assms, of "be_pending entry"] by (simp add: on_ban_def Let_def)
qed

text \<open>After a successful ban the list has the user, unless the refresh found the login expired.\<close>

definition announced :: "ban_request \<Rightarrow> ('ws, 'w) app_manager \<Rightarrow> ('ws, 'w) app \<Rightarrow> bool" where
  "announced rq mg app \<longleftrightarrow>
     (\<exists>mg' e. ap_manager app = Some mg' \<and> mg_room mg' = mg_room mg \<and> mg_subscribers mg' = mg_subscribers mg \<and>
        map_of (mg_bans mg') (bq_uid rq) = Some e \<and> be_uid e = bq_uid rq)"

definition runtime_stopped :: "('ws, 'w) app \<Rightarrow> bool" where
  "runtime_stopped app \<longleftrightarrow> au_state (ap_auth app) = Expired \<and> ap_manager app = None \<and> ap_room app = None"

text \<open>
  The outcome once the ban is made: the fetch of the refresh runs on the room of the manager and sees
  whether a room is active, with some client and world.
\<close>

definition refresh_outcome ::
    "('ws, 'w) services \<Rightarrow> ban_request \<Rightarrow> ('ws, 'w) app_manager \<Rightarrow> ('ws, 'w) app \<Rightarrow> ('ws, 'w) app \<Rightarrow> bool" where
  "refresh_outcome S rq mg app app' \<longleftrightarrow>
     (\<exists>c w. if \<exists>m. fst (fetch_snapshot (flagged_env (sv_env S)) (sv_iso_diff S) mg (c, (ap_room app \<noteq> None, w)))
                  = Inl (Bili (AuthExpiredError m))
           then runtime_stopped app'
           else announced rq mg app' \<and> ap_auth app' = ap_auth app)"

lemma refresh_result:
  "fst (refresh E iso_diff invoke keep mg cw) =
     (case fst (fetch_snapshot E iso_diff mg cw) of
        Inl e \<Rightarrow> Inl e
      | Inr entries \<Rightarrow>
          Inr (dict_values (if keep then keep_pending (mg_bans mg) (bans_by_uid entries) else bans_by_uid entries)))"
  by (simp add: refresh_def Let_def split: prod.split sum.split)

lemma announce_ban_correct:
  assumes uid: "0 < bq_uid rq" and ok: "manager_ok (sv_iso_diff S) mg"
    and listen: "StopExpiredRuntime \<in> set (au_callbacks (ap_auth app))"
    and post: "announce_ban S rq mg app = (r, app')"
  shows "r = Reply () \<and> refresh_outcome S rq mg app app'"
proof -
  let ?call = "\<lambda>entry. on_ban (sv_iso_diff S) (ban_push S) (bq_uid rq) (ban_row entry)"
  obtain entry where n: "normalize_ban_entry (sv_iso_diff S) (pending_row rq (now_seconds S (ap_world app))) True = Inr (Some entry)"
    and e: "be_uid entry = bq_uid rq" "be_pending entry" using pending_row_normalizes [OF uid] by blast
  have eok: "ban_entry_ok (sv_iso_diff S) entry" using n by (rule normalize_ban_entry_ok)
  obtain r1 app1 where c1: "with_manager (?call entry) mg app = (r1, app1)" by (metis surj_pair)
  then obtain c0 w0 mg1 cw1 where o: "?call entry mg (c0, (ap_room app \<noteq> None, w0)) = (r1, mg1, cw1)" and m1: "ap_manager app1 = Some mg1"
    by (rule with_manager_call)
  have mg1: "mg1 = mg\<lparr>mg_bans := AList.update (be_uid entry) entry (mg_bans mg)\<rparr>" and r1: "r1 = Inr ()"
    using o on_ban_entry [OF eok, of "ban_push S" mg "(c0, (ap_room app \<noteq> None, w0))"] e by simp_all
  have ok1: "manager_ok (sv_iso_diff S) mg1" using ok eok by (simp add: mg1 manager_ok_def cache_ok_update)
  have "r = Reply ()" and app': "app' = refresh_after_ban S mg1 app1"
    using post n c1 r1 m1 by (simp_all add: announce_ban_def Let_def)
  obtain r2 app2 where c2: "with_manager (refresh (flagged_env (sv_env S)) (sv_iso_diff S) (ban_push S) True) mg1 app1 = (r2, app2)"
    by (metis surj_pair)
  then obtain c w mg2 cw2' where
      ref: "refresh (flagged_env (sv_env S)) (sv_iso_diff S) (ban_push S) True mg1 (c, (ap_room app1 \<noteq> None, w)) = (r2, mg2, cw2')"
    and m2: "ap_manager app2 = Some mg2" by (rule with_manager_call)
  have "map_of (mg_bans mg1) (bq_uid rq) = Some entry" by (simp add: mg1 e)
  from refresh_keeps_pending [OF ref _ this] ok1 e(2) have "map_of (mg_bans mg2) (bq_uid rq) \<noteq> None"
    by (simp add: manager_ok_def cache_ok_def)
  then obtain e2 where e2: "map_of (mg_bans mg2) (bq_uid rq) = Some e2" by blast
  have "be_uid e2 = bq_uid rq"
    using refresh_keeps(1) [OF ref ok1] cache_ok_lookup e2 unfolding manager_ok_def by blast
  then have ann: "announced rq mg app2"
    using refresh_keeps(2,3) [OF ref] m2 e2 by (simp add: announced_def mg1)
  have auth: "ap_auth app2 = ap_auth app" using with_manager_frame(1) [OF c1] with_manager_frame(1) [OF c2] by simp
  then have stop: "runtime_stopped (expire_login S app2)"
    using expire_login_effect [of app2 S] listen by (simp add: runtime_stopped_def)
  let ?fetch = "fst (fetch_snapshot (flagged_env (sv_env S)) (sv_iso_diff S) mg (c, (ap_room app \<noteq> None, w)))"
  have "fetch_snapshot (flagged_env (sv_env S)) (sv_iso_diff S) mg1 = fetch_snapshot (flagged_env (sv_env S)) (sv_iso_diff S) mg"
    by (simp add: fetch_snapshot_def mg1)
  then have "r2 = (case ?fetch of Inl e \<Rightarrow> Inl e
    | Inr entries \<Rightarrow> Inr (dict_values (keep_pending (mg_bans mg1) (bans_by_uid entries))))"
    using refresh_result [of "flagged_env (sv_env S)" "sv_iso_diff S" "ban_push S" True mg1 "(c, (ap_room app1 \<noteq> None, w))"]
      ref with_manager_frame(2) [OF c1] by (simp cong: sum.case_cong)
  then have "refresh_outcome S rq mg app app'"
    unfolding refresh_outcome_def using ann auth stop
    by (intro exI [of _ c] exI [of _ w])
       (auto simp: app' refresh_after_ban_def c2 split: sum.split exn.split bili_error.split)
  with \<open>r = Reply ()\<close> show ?thesis by simp
qed

subsection \<open>Properties\<close>

text \<open>
  C8. \<open>POST /ban\<close>. Without a verified login the answer is 401 and nothing is requested or changed.
  Otherwise the answer depends on the write alone: 401, 403, 429 or 502 for the errors of the
  upstream, 400 for a refusal, and success for a write that succeeded, whatever the refresh that
  follows it raises. After a success a manager of that room lists the user and keeps its
  subscribers and the session is as before, unless the fetch of the refresh raises \<open>AuthExpiredError\<close>.
  An expired login, found by the write or by that fetch, leaves the session expired, no manager and no
  active room.
\<close>

theorem post_ban_route_correct:
  assumes "valid_ban_request rq" and "StopExpiredRuntime \<in> set (au_callbacks (ap_auth app))"
    and "\<And>mg. ap_manager app = Some mg \<Longrightarrow> manager_ok (sv_iso_diff S) mg"
    and "with_ban_client (ban_user (sv_env S) (bq_room_id rq) (bq_uid rq) (bq_hour rq)) app = (written, app1)"
    and "post_ban_route S rq app = (r, app')"
  shows "if au_state (ap_auth app) \<noteq> Authenticated then (\<exists>d. r = HttpError 401 d) \<and> app' = app
    else case written of
      Inr True \<Rightarrow> r = Reply () \<and>
        (case manages app (bq_room_id rq) of
           None \<Rightarrow> app' = app1
         | Some mg \<Rightarrow> refresh_outcome S rq mg app1 app')
    | Inr False \<Rightarrow> r = HttpError 400 (TextDetail ''ban failed'') \<and> app' = app1
    | Inl (Bili (AuthExpiredError m)) \<Rightarrow> r = HttpError 401 AuthExpiredDetail \<and> runtime_stopped app'
    | Inl (Bili (PermissionDeniedError m)) \<Rightarrow> r = HttpError 403 (ErrorDetail ''permission denied: '' m) \<and> app' = app1
    | Inl (Bili (RateLimitedError m)) \<Rightarrow> r = HttpError 429 (ErrorDetail ''rate limited: '' m) \<and> app' = app1
    | Inl (Bili (BiliApiError code m)) \<Rightarrow> r = HttpError 502 (ErrorDetail ''bilibili api error: '' m) \<and> app' = app1
    | Inl e \<Rightarrow> r = Crash e \<and> app' = app1"
proof (cases "au_state (ap_auth app) = Authenticated")
  case False
  then show ?thesis using assms(5) by (auto simp: post_ban_route_def require_authenticated_def not_authenticated_handler_def)
next
  case auth: True
  note frame = with_ban_client_frame [OF assms(4)]
  have route: "post_ban_route S rq app = (case written of
       Inl e \<Rightarrow> upstream_failure S e app1
     | Inr ok \<Rightarrow> if \<not> ok then (HttpError 400 (TextDetail ''ban failed''), app1)
               else (case manages app (bq_room_id rq) of None \<Rightarrow> (Reply (), app1) | Some mg \<Rightarrow> announce_ban S rq mg app1))"
    using auth assms(4) unfolding post_ban_route_def frame(7) by (simp add: require_authenticated_def frame(7) cong: sum.case_cong if_cong)
  have stop: "runtime_stopped (expire_login S app1)"
    using expire_login_effect [of app1 S] assms(2) by (simp add: runtime_stopped_def frame(1))
  show ?thesis
  proof (cases written)
    case (Inl e)
    then show ?thesis using auth route assms(5) stop
      by (cases e rule: exn.exhaust) (auto simp: upstream_failure_def http_for_bili_error_def split: bili_error.split)
  next
    case (Inr ok)
    have "refresh_outcome S rq mg app1 app'" and "r = Reply ()"
      if "ok" "manages app (bq_room_id rq) = Some mg" for mg
    proof -
      have m: "manager_ok (sv_iso_diff S) mg" using assms(3) that(2) by (auto simp: manages_def split: option.splits if_splits)
      have u: "0 < bq_uid rq" using assms(1) by (simp add: valid_ban_request_def)
      have l: "StopExpiredRuntime \<in> set (au_callbacks (ap_auth app1))" using assms(2) by (simp add: frame(1))
      have "announce_ban S rq mg app1 = (r, app')" using that route Inr assms(5) by simp
      from announce_ban_correct [OF u m l this] show "refresh_outcome S rq mg app1 app'" and "r = Reply ()" by simp_all
    qed
    then show ?thesis using Inr auth route assms(5) by (cases ok; cases "manages app (bq_room_id rq)") auto
  qed
qed


definition ban_services :: "(nat, http_request list) services" where
  "ban_services =
     \<lparr>sv_env = table_net (\<lambda>rq. if rq_url rq = LIVE_BASE_URL @ ''/xlive/web-ucenter/v1/banned/AddSilentUser''
                              then ok_response [] else json_response [(''code'', JInt (- 101))]),
      sv_iso_diff = (\<lambda>a b. None), sv_md5 = id, sv_order = sorted_list_of_set,
      sv_send = (\<lambda>ws m w. (Inr (), w)), sv_start = (\<lambda>r cw. (Inr None, cw))\<rparr>"

definition ban_app_witness :: "(nat, http_request list) app" where
  "ban_app_witness =
     \<lparr>ap_settings = default_settings\<lparr>st_SESSDATA := ''s'', st_BILI_JCT := ''j''\<rparr>, ap_token = None,
      ap_auth = (new_auth_session None None)\<lparr>au_state := Authenticated, au_callbacks := [StopExpiredRuntime]\<rparr>,
      ap_auth_client = client_witness, ap_signer = new_signer 1200, ap_ban_client = None, ap_room_client = None,
      ap_manager = Some (new_ban_manager\<lparr>mg_room := Some (6, fst)\<rparr>), ap_room = None, ap_retired = [], ap_abandoned = [], ap_files = Map.empty, ap_world = []\<rparr>"

definition ban_request_witness :: ban_request where
  "ban_request_witness = \<lparr>bq_room_id = 6, bq_uid = 7, bq_hour = 2, bq_reason = ''spam'', bq_uname = ''bob''\<rparr>"

lemma post_ban_route_correct_witness:
  "\<exists>app'. post_ban_route ban_services ban_request_witness ban_app_witness = (Reply (), app')"
proof -
  obtain written app1 where w: "with_ban_client (ban_user (sv_env ban_services) (bq_room_id ban_request_witness)
      (bq_uid ban_request_witness) (bq_hour ban_request_witness)) ban_app_witness = (written, app1)" by (metis surj_pair)
  then have written: "written = Inr True"
    by (auto simp: with_ban_client_def ban_user_def bind_io_def http_post_apply ban_services_def ban_request_witness_def
        write_result_def ok_response_def json_response_def body_code_def jget_default_def parse_body_def jget_def
        split: prod.splits)
  obtain r app' where r: "post_ban_route ban_services ban_request_witness ban_app_witness = (r, app')" by (metis surj_pair)
  have v: "valid_ban_request ban_request_witness" by (simp add: valid_ban_request_def ban_request_witness_def code_points_def)
  have l: "StopExpiredRuntime \<in> set (au_callbacks (ap_auth ban_app_witness))" by (simp add: ban_app_witness_def)
  have m: "ap_manager ban_app_witness = Some mg \<Longrightarrow> manager_ok (sv_iso_diff ban_services) mg" for mg
    by (auto simp: ban_app_witness_def new_ban_manager_def manager_ok_def)
  from post_ban_route_correct [OF v l m w r] have "r = Reply ()"
    by (simp add: written ban_app_witness_def)
  with r show ?thesis by blast
qed

end
