(* ===== verification/Room_Routes.thy ===== *)
theory Room_Routes
  imports App_State
begin

section \<open>The room routes (\<open>api/room_routes.py\<close>)\<close>

text \<open>
  Resolving, starting and showing the active room, the socket that streams its events, and what a
  raw message of the upstream does to the active room. Stopping it is in \<open>App_State\<close>.
\<close>

subsection \<open>\<open>GET /rooms/resolve\<close>\<close>

text \<open>
  \<open>int(x)\<close> of a JSON value. A string may have blanks around it, a sign, and single underscores
  between its digits; digits outside of ASCII are not modelled.
\<close>

definition digits_of_int_text :: "string \<Rightarrow> string option" where
  "digits_of_int_text s =
     (let parts = split_on (CHR ''_'') s; ds = concat parts
      in if list_all all_digits parts \<and> length ds \<le> 4300 then Some ds else None)"

definition int_of_text :: "string \<Rightarrow> int option" where
  "int_of_text s =
     (let t = py_strip s in
      case t of
        [] \<Rightarrow> None
      | c # cs \<Rightarrow>
          if c = CHR ''-'' then map_option (\<lambda>ds. - int (digits_value ds)) (digits_of_int_text cs)
          else if c = CHR ''+'' then map_option (\<lambda>ds. int (digits_value ds)) (digits_of_int_text cs)
          else map_option (\<lambda>ds. int (digits_value ds)) (digits_of_int_text t))"

fun int_of_json :: "json \<Rightarrow> py_exn + int" where
  "int_of_json (JBool b) = Inr (if b then 1 else 0)"
| "int_of_json (JInt i) = Inr i"
| "int_of_json (JFloat f) = int_of_float f"
| "int_of_json (JStr s) = (case int_of_text s of None \<Rightarrow> Inl ValueError | Some i \<Rightarrow> Inr i)"
| "int_of_json _ = Inl TypeError"

text \<open>\<open>str(x)\<close>; \<open>render\<close> is Python's own text of a float, a list or a dictionary.\<close>

fun str_of_json :: "(json \<Rightarrow> string) \<Rightarrow> json \<Rightarrow> string" where
  "str_of_json render (JStr s) = s"
| "str_of_json render (JInt i) = str_int i"
| "str_of_json render (JBool b) = (if b then ''True'' else ''False'')"
| "str_of_json render JNull = ''None''"
| "str_of_json render v = render v"

record resolved_room =
  rr_room_id :: int
  rr_short_id :: int
  rr_uid :: "int option"
  rr_title :: string
  rr_uname :: string
  rr_live_status :: int
  rr_is_short_id :: bool

definition resolved_of :: "(json \<Rightarrow> string) \<Rightarrow> int \<Rightarrow> message \<Rightarrow> py_exn + resolved_room" where
  "resolved_of render input info =
     bind_res (int_of_json (jget info ''room_id'')) (\<lambda>room_id.
     bind_res (int_of_json (py_or (jget_default info ''short_id'' (JInt input)) (JInt input))) (\<lambda>short_id.
     bind_res (int_of_json (py_or (jget_default info ''live_status'' (JInt 0)) (JInt 0))) (\<lambda>live_status.
     Inr \<lparr>rr_room_id = room_id, rr_short_id = short_id, rr_uid = int_instance (jget info ''uid''),
          rr_title = str_of_json render (py_or (jget_default info ''title'' (JStr [])) (JStr [])),
          rr_uname = str_of_json render (py_or (jget_default info ''uname'' (JStr [])) (JStr [])),
          rr_live_status = live_status, rr_is_short_id = truthy (jget_default info ''is_short_id'' (JBool False))\<rparr>)))"

definition resolve_room_route ::
    "('ws, 'w) services \<Rightarrow> (json \<Rightarrow> string) \<Rightarrow> int \<Rightarrow> ('ws, 'w) app \<Rightarrow> resolved_room reply \<times> ('ws, 'w) app" where
  "resolve_room_route S render input app =
     (case with_room_client (resolve_room_id (sv_env S) input) app of
        (Inl e, app') \<Rightarrow> (Crash e, app')
      | (Inr info, app') \<Rightarrow>
          (case info of
             Some d \<Rightarrow>
               if map_of d ''room_id'' = None then (HttpError 404 (TextDetail ''room not found''), app')
               else (case resolved_of render input d of Inl e \<Rightarrow> Crash (Py e) | Inr room \<Rightarrow> Reply room, app')
           | None \<Rightarrow> (HttpError 404 (TextDetail ''room not found''), app')))"

subsection \<open>\<open>POST /rooms/start\<close>\<close>

definition DEFAULT_DEDUP_SIZE :: int where
  "DEFAULT_DEDUP_SIZE = 5000"

text \<open>
  \<open>_make_room_session\<close> and \<open>connect\<close>. The new session has no callbacks yet, so its broadcasts during
  the connection reach nobody.
\<close>

definition connect_room ::
    "('ws, 'w) services \<Rightarrow> int \<Rightarrow> ('ws, 'w) app \<Rightarrow> (exn + bool) \<times> session_callback room_session \<times> ('ws, 'w) app" where
  "connect_room S room_id app =
     (case connect (sv_env S) (sv_md5 S) (sv_start S) (\<lambda>cb event cw. (Inr (), cw)) room_id
             (new_session DEFAULT_DEDUP_SIZE) (get_bili_client app (ap_room_client app), ap_world app) of
        (r, s, (c, w)) \<Rightarrow> (r, s, app\<lparr>ap_room_client := Some c, ap_signer := cl_signer c, ap_world := w\<rparr>))"

text \<open>\<open>RoomBridge.create\<close> and \<open>set_room_bridge\<close>; None is the \<open>ValueError\<close> of the constructor.\<close>

definition create_bridge :: "('ws, 'w) services \<Rightarrow> session_callback room_session \<Rightarrow> 'w \<Rightarrow> 'ws active_room option" where
  "create_bridge S s w =
     map_option (\<lambda>b. \<lparr>ar_session = add_callback BridgeOnEvent s, ar_bridge = b\<rparr>)
       (new_bridge CLIENT_QUEUE_MAXSIZE (now_seconds S w) (se_initial_super_chats s))"

text \<open>
  The role, best effort. A lookup that takes longer than five seconds is cancelled in the request
  it waits for, which then raises.
\<close>

definition lookup_role :: "('ws, 'w) services \<Rightarrow> int \<Rightarrow> ('ws, 'w) app \<Rightarrow> room_user_role \<times> ('ws, 'w) app" where
  "lookup_role S room_id app =
     (let c = (case ap_room_client app of Some c \<Rightarrow> c | None \<Rightarrow> get_bili_client app None) in
      case get_room_user_role (sv_env S) room_id (c, ap_world app) of
        (r, (c', w)) \<Rightarrow>
          (case r of Inl e \<Rightarrow> UnknownRole | Inr role \<Rightarrow> role,
           app\<lparr>ap_room_client := Some c', ap_signer := cl_signer c', ap_world := w\<rparr>))"

text \<open>
  What becomes of a session whose \<open>connect\<close> raised. Only the handler knows it, and no clause of the
  handler stops its client: once the client has started, which is when \<open>connect\<close> sets the status, it
  runs on.
\<close>

definition drop_session :: "session_callback room_session \<Rightarrow> ('ws, 'w) app \<Rightarrow> ('ws, 'w) app" where
  "drop_session s app = (if se_status s = Connected then app\<lparr>ap_abandoned := ap_abandoned app @ [s]\<rparr> else app)"

definition start_room_route ::
    "('ws, 'w) services \<Rightarrow> int \<Rightarrow> ('ws, 'w) app \<Rightarrow> (int \<times> room_user_role) reply \<times> ('ws, 'w) app" where
  "start_room_route S room_id app =
     (case connect_room S room_id (shut_room S (stop_banlist_manager app)) of
        (Inl (Bili (AuthExpiredError m)), s, app1) \<Rightarrow> (HttpError 401 AuthExpiredDetail, expire_login S (drop_session s app1))
      | (Inl e, s, app1) \<Rightarrow> (Crash e, drop_session s app1)
      | (Inr ok, s, app1) \<Rightarrow>
          if \<not> ok then (HttpError 400 (TextDetail ''room connect failed''), app1)
          else (case create_bridge S s (ap_world app1) of
                  None \<Rightarrow> (Crash (Py ValueError), drop_session s app1)
                | Some ar \<Rightarrow>
                    (let joined = (case se_room_id s of Some resolved \<Rightarrow> resolved | None \<Rightarrow> room_id) in
                     case lookup_role S joined (app1\<lparr>ap_room := Some ar\<rparr>) of
                       (role, app2) \<Rightarrow> (Reply (joined, role), app2))))"

subsection \<open>\<open>GET /rooms\<close>\<close>

definition get_room_route :: "('ws, 'w) app \<Rightarrow> int option \<times> room_status" where
  "get_room_route app =
     (case ap_room app of
        None \<Rightarrow> (None, Disconnected)
      | Some ar \<Rightarrow> (se_room_id (ar_session ar), se_status (ar_session ar)))"

subsection \<open>\<open>WS /ws/rooms/{room_id}\<close>\<close>

datatype room_join = Registered | RoomNotStarted

definition ws_rooms_join :: "('ws, 'w) services \<Rightarrow> 'ws \<Rightarrow> int \<Rightarrow> ('ws, 'w) app \<Rightarrow> room_join \<times> ('ws, 'w) app" where
  "ws_rooms_join S ws room_id app =
     (case ap_room app of
        None \<Rightarrow> (RoomNotStarted, app)
      | Some ar \<Rightarrow>
          if se_room_id (ar_session ar) \<noteq> Some room_id then (RoomNotStarted, app)
          else (Registered,
                app\<lparr>ap_room := Some (ar\<lparr>ar_bridge := register_ws (now_seconds S (ap_world app)) ws (ar_bridge ar)\<rparr>)\<rparr>))"

text \<open>A closed bridge has no clients, so only the active one can lose the socket.\<close>

definition ws_rooms_leave :: "'ws \<Rightarrow> ('ws, 'w) app \<Rightarrow> ('ws, 'w) app" where
  "ws_rooms_leave ws app =
     app\<lparr>ap_room := map_option (\<lambda>ar. ar\<lparr>ar_bridge := detach_client None ws (ar_bridge ar)\<rparr>) (ap_room app)\<rparr>"

subsection \<open>Messages of the upstream\<close>

text \<open>\<open>_on_raw_message\<close> of the active session, whose callback is the bridge.\<close>

definition room_message :: "('ws, 'w) services \<Rightarrow> message \<Rightarrow> ('ws, 'w) app \<Rightarrow> (py_exn + unit) \<times> ('ws, 'w) app" where
  "room_message S raw app =
     (case ap_room app of
        None \<Rightarrow> (Inr (), app)
      | Some ar \<Rightarrow>
          (case on_raw_message (room_invoke S) raw (ar_session ar, (ar_bridge ar, ap_world app)) of
             (r, (s, (b, w))) \<Rightarrow> (r, app\<lparr>ap_room := Some \<lparr>ar_session = s, ar_bridge = b\<rparr>, ap_world := w\<rparr>)))"


subsection \<open>Starting\<close>

lemma connect_success:
  assumes "connect E md5_hex start invoke room_id s cw = (Inr True, s', cw')"
  shows "se_status s' = Connected \<and> se_room_id s' \<noteq> None \<and> se_client s' \<noteq> None \<and> se_callbacks s' = se_callbacks s"
  using assms by (auto simp: connect_def Let_def split: prod.splits sum.splits option.splits)

text \<open>An expired login is found before the client has started: what fails later is no \<open>BiliApiError\<close>.\<close>

lemma load_active_super_chats_raises: "load_active_super_chats E md5_hex room_id cw = (Inl e, cw') \<Longrightarrow> \<exists>x. e = Py x"
  by (auto simp: load_active_super_chats_def bind_io_def catch_io_def return_io_def py_res_def map_sum_def
      split: prod.splits sum.splits option.splits)

lemma connect_bili_error:
  assumes "connect E md5_hex start invoke room_id s cw = (Inl (Bili e), s', cw')"
  shows "se_status s' = se_status s"
  using assms by (auto simp: connect_def Let_def dest!: load_active_super_chats_raises split: prod.splits sum.splits option.splits)

lemma connect_raised:
  assumes "connect E md5_hex start invoke room_id s cw = (Inl e, s', cw')"
  shows "se_callbacks s' = se_callbacks s \<and> (se_status s' = Connected \<and> se_status s \<noteq> Connected \<longrightarrow> se_client s' \<noteq> None)"
  using assms by (auto simp: connect_def Let_def split: prod.splits sum.splits option.splits)

lemma connect_room_frame:
  assumes "connect_room S room_id app = (r, s, app')"
  shows "ap_room app' = ap_room app" "ap_manager app' = ap_manager app" "ap_retired app' = ap_retired app"
    "ap_auth app' = ap_auth app" "ap_ban_client app' = ap_ban_client app" "ap_room_client app' \<noteq> None"
    "ap_token app' = ap_token app" "ap_abandoned app' = ap_abandoned app"
  using assms by (auto simp: connect_room_def split: prod.splits)

lemma drop_session_frame [simp]:
  "ap_room (drop_session s app) = ap_room app" "ap_manager (drop_session s app) = ap_manager app"
  "ap_retired (drop_session s app) = ap_retired app" "ap_auth (drop_session s app) = ap_auth app"
  "ap_ban_client (drop_session s app) = ap_ban_client app" "ap_token (drop_session s app) = ap_token app"
  by (simp_all add: drop_session_def)

lemma connect_room_raised:
  assumes "connect_room S room_id app = (Inl e, s, app')"
  shows "se_callbacks s = []" and "se_status s = Connected \<Longrightarrow> se_client s \<noteq> None \<and> (\<forall>b. e \<noteq> Bili b)"
  using assms by (auto simp: connect_room_def new_session_def dest: connect_raised connect_bili_error split: prod.splits)

lemma connect_room_success:
  assumes "connect_room S room_id app = (Inr True, s, app')"
  shows "se_status s = Connected \<and> se_room_id s \<noteq> None \<and> se_client s \<noteq> None \<and> se_callbacks s = []"
  using assms by (auto simp: connect_room_def new_session_def dest!: connect_success split: prod.splits)

lemma create_bridge_ok:
  fixes S :: "('ws, 'w) services"
  assumes "se_client s \<noteq> None" and "se_callbacks s = []"
  obtains ar where "create_bridge S s w = Some ar" and "room_ok ar" and "br_clients (ar_bridge ar) = {}"
    and "ar_session ar = add_callback BridgeOnEvent s"
proof -
  obtain b :: "'ws bridge" where b: "new_bridge CLIENT_QUEUE_MAXSIZE (now_seconds S w) (se_initial_super_chats s) = Some b"
    and "\<not> br_closed b" and "br_clients b = {}"
    by (simp add: new_bridge_def CLIENT_QUEUE_MAXSIZE_def)
  then show ?thesis
    using assms bridge_ok_new [OF b] that [of "\<lparr>ar_session = add_callback BridgeOnEvent s, ar_bridge = b\<rparr>"]
    by (simp add: create_bridge_def room_ok_def add_callback_def)
qed

lemma lookup_role_frame:
  assumes "lookup_role S room_id app = (role, app')"
  shows "ap_room app' = ap_room app" "ap_manager app' = ap_manager app" "ap_retired app' = ap_retired app"
    "ap_auth app' = ap_auth app" "ap_ban_client app' = ap_ban_client app" "ap_token app' = ap_token app" "ap_abandoned app' = ap_abandoned app"
  using assms by (auto simp: lookup_role_def Let_def split: prod.splits)

text \<open>What was active is retired, whatever becomes of the new connection.\<close>

lemma start_prologue:
  assumes "valid_order (sv_order S)" and "\<And>ar. ap_room app = Some ar \<Longrightarrow> room_ok ar"
    and "connect_room S room_id (shut_room S (stop_banlist_manager app)) = (r, s, app1)"
  shows "ap_room app1 = None" "ap_manager app1 = None" "ap_auth app1 = ap_auth app"
    "ap_ban_client app1 = ap_ban_client app"
    "\<exists>retired. ap_retired app1 = ap_retired app @ retired \<and> length retired = (if ap_room app = None then 0 else 1) \<and>
       (\<forall>ar \<in> set retired. room_closed ar)"
    "ap_abandoned app1 = ap_abandoned app"
proof -
  let ?app0 = "stop_banlist_manager app"
  have room: "ap_room ?app0 = ap_room app" and ret: "ap_retired ?app0 = ap_retired app" "ap_abandoned ?app0 = ap_abandoned app"
    and more: "ap_manager ?app0 = None" "ap_auth ?app0 = ap_auth app" "ap_ban_client ?app0 = ap_ban_client app"
    by (simp_all add: stop_banlist_manager_def)
  have "ap_room ?app0 = Some ar \<Longrightarrow> room_ok ar" for ar using assms(2) room by simp
  with shut_room_effect [OF assms(1), of ?app0] obtain retired w where
    shut: "shut_room S ?app0 = ?app0\<lparr>ap_room := None, ap_world := w, ap_retired := ap_retired ?app0 @ retired\<rparr>"
    and len: "length retired = (if ap_room ?app0 = None then 0 else 1)" and closed: "\<forall>ar \<in> set retired. room_closed ar" by blast
  note frame = connect_room_frame [OF assms(3)]
  show "ap_room app1 = None" "ap_manager app1 = None" "ap_auth app1 = ap_auth app" "ap_ban_client app1 = ap_ban_client app"
    by (simp_all add: frame shut more)
  show "ap_abandoned app1 = ap_abandoned app" by (simp add: frame shut ret)
  show "\<exists>retired. ap_retired app1 = ap_retired app @ retired \<and> length retired = (if ap_room app = None then 0 else 1) \<and>
       (\<forall>ar \<in> set retired. room_closed ar)"
    using len closed by (simp add: frame shut room ret)
qed

text \<open>The four ways a start ends.\<close>

lemma start_room_route_cases:
  assumes "valid_order (sv_order S)" and "\<And>ar. ap_room app = Some ar \<Longrightarrow> room_ok ar"
    and "start_room_route S room_id app = (r, app')"
    and c: "connect_room S room_id (shut_room S (stop_banlist_manager app)) = (cr, s, app1)"
  obtains (expired) "r = HttpError 401 AuthExpiredDetail" and "app' = expire_login S app1"
    | (crashed) e where "cr = Inl e" and "r = Crash e" and "app' = drop_session s app1"
    | (refused) "r = HttpError 400 (TextDetail ''room connect failed'')" and "app' = app1"
    | (joined) joined role ar where "r = Reply (joined, role)" and "ap_room app' = Some ar" and "room_ok ar"
        and "br_clients (ar_bridge ar) = {}" and "get_room_route app' = (Some joined, Connected)"
        and "ap_manager app' = ap_manager app1" and "ap_retired app' = ap_retired app1" and "ap_auth app' = ap_auth app1"
        and "ap_abandoned app' = ap_abandoned app1"
proof (cases cr)
  case (Inl e)
  show ?thesis
  proof (cases "\<exists>m. e = Bili (AuthExpiredError m)")
    case True
    then have "drop_session s app1 = app1"
      using connect_room_raised(2) [of S room_id _ e s app1] c Inl by (auto simp: drop_session_def)
    then show ?thesis using assms(3) c Inl True by (intro expired) (auto simp: start_room_route_def)
  next
    case False
    then show ?thesis
      using assms(3) c Inl by (intro crashed [of e]) (auto simp: start_room_route_def split: exn.splits bili_error.splits)
  qed
next
  case (Inr ok)
  show ?thesis
  proof (cases ok)
    case False
    then show ?thesis using assms(3) c Inr by (intro refused) (auto simp: start_room_route_def)
  next
    case True
    have s: "se_status s = Connected" "se_room_id s \<noteq> None" "se_client s \<noteq> None" "se_callbacks s = []"
      using connect_room_success [of S room_id "shut_room S (stop_banlist_manager app)" s app1] c Inr True by simp_all
    obtain ar where ar: "create_bridge S s (ap_world app1) = Some ar" "room_ok ar" "br_clients (ar_bridge ar) = {}"
      and sess: "ar_session ar = add_callback BridgeOnEvent s"
      by (rule create_bridge_ok [OF s(3,4)])
    obtain id where id: "se_room_id s = Some id" using s(2) by blast
    obtain role app2 where l: "lookup_role S id (app1\<lparr>ap_room := Some ar\<rparr>) = (role, app2)" by (metis surj_pair)
    note frame = lookup_role_frame [OF l]
    have "start_room_route S room_id app = (Reply (id, role), app2)"
      using True by (simp add: start_room_route_def c Inr ar(1) id l)
    then have "r = Reply (id, role)" and "app' = app2" using assms(3) by simp_all
    then show ?thesis
      using ar by (intro joined [of id role ar]) (simp_all add: frame get_room_route_def sess add_callback_def id s)
  qed
qed

subsection \<open>Properties\<close>

text \<open>
  C9. \<open>POST /rooms/start\<close>. In every outcome the manager of the ban list is gone and the room that was
  active is retired: its bridge is closed, without sockets, and detached from its session, whose
  client is stopped. The reply is a success exactly when a new room is active; that room is
  connected, the reply names it, and its one callback is its bridge, which has no sockets yet. A
  failed role lookup does not fail the start. A login found expired makes the session expired. A
  connection that raises anything else leaves the handler; if its client had started by then, the
  session is abandoned, with its client and without a listener.
\<close>

theorem start_room_route_correct:
  assumes "valid_order (sv_order S)" and "\<And>ar. ap_room app = Some ar \<Longrightarrow> room_ok ar"
    and "start_room_route S room_id app = (r, app')"
  shows "ap_manager app' = None \<and>
    (\<exists>retired. ap_retired app' = ap_retired app @ retired \<and> length retired = (if ap_room app = None then 0 else 1) \<and>
       (\<forall>ar \<in> set retired. room_closed ar)) \<and>
    (case r of
       Reply (joined, role) \<Rightarrow>
         \<exists>ar. ap_room app' = Some ar \<and> room_ok ar \<and> br_clients (ar_bridge ar) = {} \<and>
              get_room_route app' = (Some joined, Connected) \<and> ap_auth app' = ap_auth app \<and>
              ap_abandoned app' = ap_abandoned app
     | HttpError status d \<Rightarrow>
         ap_room app' = None \<and> ap_abandoned app' = ap_abandoned app \<and>
         (status = 401 \<and> d = AuthExpiredDetail \<and> au_state (ap_auth app') = Expired \<or>
          status = 400 \<and> ap_auth app' = ap_auth app)
     | Crash e \<Rightarrow> ap_room app' = None \<and> ap_auth app' = ap_auth app \<and>
         (\<exists>left. ap_abandoned app' = ap_abandoned app @ left \<and> length left \<le> 1 \<and>
            (\<forall>s \<in> set left. se_status s = Connected \<and> se_client s \<noteq> None \<and> se_callbacks s = [])))"
proof -
  obtain cr s app1 where c: "connect_room S room_id (shut_room S (stop_banlist_manager app)) = (cr, s, app1)" by (metis prod_cases3)
  note pro = start_prologue [OF assms(1,2) c]
  show ?thesis
  proof (rule start_room_route_cases [OF assms c])
    assume "r = HttpError 401 AuthExpiredDetail" and "app' = expire_login S app1"
    then show ?thesis using pro expire_idle [OF pro(1), of S] by simp
  next
    fix e assume e: "cr = Inl e" "r = Crash e" "app' = drop_session s app1"
    then show ?thesis
      using pro connect_room_raised [OF c [unfolded e(1)]]
      by (auto simp: drop_session_def intro!: exI [of _ "if se_status s = Connected then [s] else []"])
  qed (use pro in simp_all)
qed

text \<open>
  From the upstream to the browsers: a raw message that carries a new event leaves the handler
  normally, and every socket registered with the active room and not lagging behind has exactly that
  event appended to its queue; a socket whose queue is full is dropped instead; no other channel is
  touched, the room stays active and well formed, and nothing else of the process changes. A message
  that carries no new event changes no channel at all.
\<close>

theorem room_message_reaches_browsers:
  assumes "valid_order (sv_order S)" and "ap_room app = Some ar" and "room_ok ar"
    and "ingest raw (ar_session ar) = Inr (found, s')"
    and "room_message S raw app = (r, app')"
  shows "r = Inr () \<and>
    (\<exists>ar'. app' = app\<lparr>ap_room := Some ar'\<rparr> \<and> room_ok ar' \<and> ar_session ar' = s' \<and>
       (\<forall>t ch. br_channels (ar_bridge ar) t = Some ch \<longrightarrow>
          br_channels (ar_bridge ar') t =
            (case found of
               None \<Rightarrow> Some ch
             | Some event \<Rightarrow>
                 Some (if map_of (br_queues (ar_bridge ar)) (ch_ws ch) \<noteq> Some t then ch
                       else if int (length (ch_items ch)) < ch_maxsize ch
                       then ch\<lparr>ch_items := ch_items ch @ [Some (model_dump event)]\<rparr>
                       else ch\<lparr>ch_items := [None]\<rparr>))))"
proof -
  have keeps: "se_callbacks s' = [BridgeOnEvent]" "se_client s' \<noteq> None"
    using assms(3,4) by (auto simp: ingest_def remember_id_def room_ok_def Let_def
        split: sum.splits option.splits bridge_event.splits if_splits prod.splits)
  have ok: "bridge_ok (ar_bridge ar)" "\<not> br_closed (ar_bridge ar)" using assms(3) by (simp_all add: room_ok_def)
  show ?thesis
  proof (cases found)
    case None
    then have "r = Inr ()" and "app' = app\<lparr>ap_room := Some \<lparr>ar_session = s', ar_bridge = ar_bridge ar\<rparr>\<rparr>"
      using assms(2,4,5) by (auto simp: room_message_def on_raw_message_def)
    then show ?thesis using None keeps ok by (auto simp: room_ok_def)
  next
    case (Some event)
    let ?b = "on_event (sv_order S) (now_seconds S (ap_world app)) event (ar_bridge ar)"
    have "r = Inr ()" and app': "app' = app\<lparr>ap_room := Some \<lparr>ar_session = s', ar_bridge = ?b\<rparr>\<rparr>"
      using assms(2,4,5) Some by (auto simp: room_message_def on_raw_message_def broadcast_to_bridge [OF keeps(1)])
    moreover have "room_ok \<lparr>ar_session = s', ar_bridge = ?b\<rparr>"
      using keeps ok assms(1) by (simp add: room_ok_def bridge_ok_on_event on_event_open)
    moreover have "br_channels ?b t = Some (after_event event (ar_bridge ar) t ch)" if "br_channels (ar_bridge ar) t = Some ch" for t ch
      using on_event_effect(1) [OF ok(1) assms(1) refl] that by simp
    moreover have "after_event event (ar_bridge ar) t ch =
        (if map_of (br_queues (ar_bridge ar)) (ch_ws ch) \<noteq> Some t then ch
         else if int (length (ch_items ch)) < ch_maxsize ch then ch\<lparr>ch_items := ch_items ch @ [Some (model_dump event)]\<rparr>
         else ch\<lparr>ch_items := [None]\<rparr>)" if "br_channels (ar_bridge ar) t = Some ch" for t ch
      using bridge_ok_channel [OF ok(1) that]
      by (auto simp: after_event_def registered_def full_def signal_stop_eq channel_ok_def)
    ultimately show ?thesis using Some by (intro conjI exI [of _ "\<lparr>ar_session = s', ar_bridge = ?b\<rparr>"]) simp_all
  qed
qed


text \<open>A process with an active room, and an upstream whose sockets work although its HTTP does not.\<close>

definition room_services :: "(nat, unit) services" where
  "room_services =
     \<lparr>sv_env = \<lparr>net = (\<lambda>rq w. (Inl (Httpx ''down''), w)), clock = (\<lambda>w. 0)\<rparr>,
      sv_iso_diff = (\<lambda>a b. None), sv_md5 = id, sv_order = sorted_list_of_set,
      sv_send = (\<lambda>ws m w. (Inr (), w)), sv_start = (\<lambda>r cw. (Inr (Some (new_danmaku_client r)), cw))\<rparr>"

definition room_witness :: "nat active_room" where
  "room_witness =
     \<lparr>ar_session = (new_session 5)\<lparr>se_callbacks := [BridgeOnEvent], se_client := Some (new_danmaku_client 6)\<rparr>,
      ar_bridge = register_ws 0 7 bridge_witness\<rparr>"

definition room_app_witness :: "(nat, unit) app" where
  "room_app_witness =
     \<lparr>ap_settings = default_settings, ap_token = None, ap_auth = new_auth_session None None,
      ap_auth_client = client_witness, ap_signer = new_signer 1200, ap_ban_client = None, ap_room_client = None,
      ap_manager = None, ap_room = Some room_witness, ap_retired = [], ap_abandoned = [], ap_files = Map.empty, ap_world = ()\<rparr>"

lemma room_witness_ok: "room_ok room_witness"
  using bridge_ok_register [OF bridge_ok_new [OF new_bridge_witness], of 0 7]
  by (simp add: room_ok_def room_witness_def register_ws_def bridge_witness_def new_bridge_def Let_def)

lemma start_room_route_correct_witness:
  "\<exists>app' retired. start_room_route room_services 6 room_app_witness = (Reply (6, UnknownRole), app') \<and>
     ap_retired app' = [retired] \<and> room_closed retired"
proof -
  have order: "valid_order (sv_order room_services)" by (simp add: room_services_def valid_order_sorted)
  have room: "ap_room room_app_witness = Some ar \<Longrightarrow> room_ok ar" for ar
    by (auto simp: room_app_witness_def room_witness_ok)
  let ?E = "sv_env room_services"
  have quiet: "net ?E rq w = (Inl (Httpx ''down''), w)" for rq w by (simp add: room_services_def)
  have start: "sv_start room_services r cw = (Inr (Some (new_danmaku_client r)), cw)" "sv_md5 room_services = id" for r cw
    by (simp_all add: room_services_def)
  have cold: "is_cache_fresh (new_signer 1200) (clock ?E w) = False" for w by (simp add: is_cache_fresh_def new_signer_def)
  have chats: "\<exists>e cw. get_active_super_chats ?E m 6 (c, w) = (Inl e, cw)" if "cl_signer c = new_signer 1200" for m c w
    using that cold by (simp add: get_active_super_chats_def bind_io_def sign_params_def sign_def get_keys_def
        quiet fallback_to_cached_def new_signer_def Let_def)
  have load: "\<exists>c'. load_active_super_chats ?E m 6 (c, ()) = (Inr [], (c', ()))" if "cl_signer c = new_signer 1200" for m c
    using chats [OF that, of m "()"] by (auto simp: load_active_super_chats_def catch_io_def bind_io_def)
  have resolve: "session_resolve ?E 6 (c, ()) = (Inr 6, (c, ()))" for c
    by (simp add: session_resolve_def catch_io_def bind_io_def get_room_init_def get_data_def http_get_def http_call_def quiet)
  let ?app0 = "shut_room room_services (stop_banlist_manager room_app_witness)"
  have "ap_room (stop_banlist_manager room_app_witness) = Some ar \<Longrightarrow> room_ok ar" for ar
    using room by (simp add: stop_banlist_manager_def)
  from shut_room_effect [OF order this] obtain retired w where retired: "?app0 = (stop_banlist_manager room_app_witness)
      \<lparr>ap_room := None, ap_world := w, ap_retired := ap_retired (stop_banlist_manager room_app_witness) @ retired\<rparr>" by blast
  let ?c = "get_bili_client ?app0 (ap_room_client ?app0)"
  have "cl_signer ?c = new_signer 1200"
    unfolding retired by (simp add: stop_banlist_manager_def room_app_witness_def get_bili_client_def new_client_def update_cookies_def Let_def
        split: option.split)
  from load [OF this, of id] obtain c' where l: "load_active_super_chats ?E id 6 (?c, ()) = (Inr [], (c', ()))" by blast
  have "\<exists>s app1. connect_room room_services 6 ?app0 = (Inr True, s, app1) \<and> se_room_id s = Some 6"
    using l resolve [of ?c] by (simp add: connect_room_def connect_def Let_def start split: prod.split)
  then obtain s app1 where c: "connect_room room_services 6 ?app0 = (Inr True, s, app1)" and six: "se_room_id s = Some 6" by blast
  have "se_client s \<noteq> None" and "se_callbacks s = []" using connect_room_success [OF c] by simp_all
  then obtain ar where ar: "create_bridge room_services s () = Some ar" by (rule create_bridge_ok)
  have "fst (lookup_role room_services 6 a) = UnknownRole" for a
    by (simp add: lookup_role_def get_room_user_role_def get_user_info_def http_get_def http_call_def bind_io_def quiet Let_def
        split: prod.split)
  then obtain app2 where role: "lookup_role room_services 6 (app1\<lparr>ap_room := Some ar\<rparr>) = (UnknownRole, app2)" by (metis prod.collapse)
  have st: "start_room_route room_services 6 room_app_witness = (Reply (6, UnknownRole), app2)"
    by (simp add: start_room_route_def c ar six role)
  from start_room_route_correct [OF order room st] obtain rs where
    "ap_retired app2 = ap_retired room_app_witness @ rs" "length rs = 1" "\<forall>ar \<in> set rs. room_closed ar"
    by (auto simp: room_app_witness_def)
  then have "\<exists>x. ap_retired app2 = [x] \<and> room_closed x" by (cases rs) (auto simp: room_app_witness_def)
  with st show ?thesis by blast
qed

lemma room_message_reaches_browsers_witness:
  "\<exists>app' ar' ch. room_message room_services chat_witness room_app_witness = (Inr (), app') \<and> ap_room app' = Some ar' \<and>
     br_channels (ar_bridge ar') 0 = Some ch \<and> length (ch_items ch) = 1"
proof -
  have order: "valid_order (sv_order room_services)" by (simp add: room_services_def valid_order_sorted)
  have room: "ap_room room_app_witness = Some room_witness" by (simp add: room_app_witness_def)
  have "\<exists>event s'. ingest chat_witness (ar_session room_witness) = Inr (Some event, s')"
    by (simp add: room_witness_def ingest_def chat_witness_def normalize_def jget_def before_char_def normalize_danmu_def
      text_or_empty_def int_or_zero_def danmaku_ts_def danmaku_medal_def MILLISECONDS_EPOCH_THRESHOLD_def
      remember_id_def new_session_def Let_def)
  then obtain event s' where i: "ingest chat_witness (ar_session room_witness) = Inr (Some event, s')" by blast
  obtain r app' where m: "room_message room_services chat_witness room_app_witness = (r, app')" by (metis surj_pair)
  have "replay_snapshot 0 bridge_witness = []"
    by (simp add: bridge_witness_def new_bridge_def replay_snapshot_def history_snapshot_def keep_last_def
        active_super_chats_def prune_expired_super_chats_def dict_values_def)
  then obtain ch where "br_channels (ar_bridge room_witness) 0 = Some ch" "ch_ws ch = 7" "ch_items ch = []" "ch_maxsize ch = 1"
    and "map_of (br_queues (ar_bridge room_witness)) 7 = Some 0"
    by (simp add: room_witness_def register_ws_def Let_def bridge_witness_def new_bridge_def)
  with room_message_reaches_browsers [OF order room room_witness_ok i m] m show ?thesis by auto
qed

end
