(* ===== verification/Py_Json.thy ===== *)
theory Py_Json
  imports Py_Float
begin

section \<open>JSON texts of Python\<close>

text \<open>
  \<open>json.loads\<close> and \<open>json.dumps\<close> of the standard library, with what the code relies on: the parser is
  the scanner of CPython on a \<open>str\<close>, the printer takes the separators, the indentation and
  \<open>ensure_ascii\<close> of its caller. A \<open>str\<close> is the list of the bytes of its UTF-8 form. The text of a float
  is a parameter of the printer. The last part shows that a printed value is read back.
\<close>

subsection \<open>UTF-8\<close>

definition octet :: "char \<Rightarrow> nat" where
  "octet c = of_char c"

lemma octet_less [simp]: "octet c < 256"
  by (simp add: octet_def)

lemma octet_char_of [simp]: "octet (char_of n) = n mod 256"
  by (simp add: octet_def)

lemma char_of_octet [simp]: "char_of (octet c) = c"
  by (simp add: octet_def)

text \<open>A code point; a lone surrogate, which a \<open>str\<close> may contain, is encoded like the other ones.\<close>

definition utf8_char :: "nat \<Rightarrow> string" where
  "utf8_char n =
     map char_of
       (if n < 128 then [n]
        else if n < 2048 then [192 + n div 64, 128 + n mod 64]
        else if n < 65536 then [224 + n div 4096, 128 + n div 64 mod 64, 128 + n mod 64]
        else [240 + n div 262144, 128 + n div 4096 mod 64, 128 + n div 64 mod 64, 128 + n mod 64])"

definition continuation :: "char \<Rightarrow> bool" where
  "continuation c \<longleftrightarrow> 128 \<le> octet c \<and> octet c < 192"

definition surrogate :: "nat \<Rightarrow> bool" where
  "surrogate n \<longleftrightarrow> 55296 \<le> n \<and> n < 57344"

lemma base64_digit: "b < 64 \<Longrightarrow> (a * 64 + b) div 64 = a" "b < 64 \<Longrightarrow> (a * 64 + b) mod 64 = b" for a b :: nat
  by simp_all

lemma utf8_char_decoded:
  "octet a < 128 \<Longrightarrow> utf8_char (octet a) = [a]"
  "194 \<le> octet a \<Longrightarrow> octet a < 224 \<Longrightarrow> continuation b \<Longrightarrow> utf8_char ((octet a - 192) * 64 + (octet b - 128)) = [a, b]"
  "224 \<le> octet a \<Longrightarrow> octet a < 240 \<Longrightarrow> continuation b \<Longrightarrow> continuation c \<Longrightarrow>
    n = (octet a - 224) * 4096 + (octet b - 128) * 64 + (octet c - 128) \<Longrightarrow> 2048 \<le> n \<Longrightarrow> utf8_char n = [a, b, c]"
  "240 \<le> octet a \<Longrightarrow> continuation b \<Longrightarrow> continuation c \<Longrightarrow> continuation d \<Longrightarrow>
    n = (octet a - 240) * 262144 + (octet b - 128) * 4096 + (octet c - 128) * 64 + (octet d - 128) \<Longrightarrow> 65536 \<le> n \<Longrightarrow>
    utf8_char n = [a, b, c, d]"
proof -
  have eq: "char_of k = x" if "k = octet x" for k x using that by simp
  have low: "\<exists>y < 64. octet x = 128 + y" if "continuation x" for x
    using that by (intro exI [of _ "octet x - 128"]) (auto simp: continuation_def)
  have from_base: "\<exists>y. octet x = k + y" if "k \<le> octet x" for x k
    using that le_Suc_ex by blast
  show "octet a < 128 \<Longrightarrow> utf8_char (octet a) = [a]" by (simp add: utf8_char_def)
  show "utf8_char ((octet a - 192) * 64 + (octet b - 128)) = [a, b]" if h: "194 \<le> octet a" "octet a < 224" "continuation b"
    using h(2) low [OF h(3)] from_base [OF h(1)] by (auto simp: utf8_char_def intro!: eq)
  show "utf8_char n = [a, b, c]" if h: "224 \<le> octet a" "octet a < 240" "continuation b" "continuation c"
    and n: "n = (octet a - 224) * 4096 + (octet b - 128) * 64 + (octet c - 128)" and "2048 \<le> n"
  proof -
    obtain x y z where x: "octet a = 224 + x" "octet b = 128 + y" "octet c = 128 + z" "y < 64" "z < 64" "x < 16"
      using low [OF h(3)] low [OF h(4)] from_base [OF h(1)] h(2) by auto
    then have n: "n = (x * 64 + y) * 64 + z" using n by simp
    have "n div 64 = x * 64 + y" and "n mod 64 = z" unfolding n using x(5) by (simp_all only: base64_digit)
    moreover have "n < 65536" using x(4-6) by (simp add: n algebra_simps)
    moreover have "n div 4096 = n div 64 div 64" by (simp flip: div_mult2_eq)
    ultimately have "n < 65536" "n div 4096 = x" "n div 64 mod 64 = y" "n mod 64 = z" using x(4) by simp_all
    then show ?thesis using x(1-3) \<open>2048 \<le> n\<close> by (auto simp: utf8_char_def intro!: eq)
  qed
  show "utf8_char n = [a, b, c, d]" if h: "240 \<le> octet a" "continuation b" "continuation c" "continuation d"
    and n: "n = (octet a - 240) * 262144 + (octet b - 128) * 4096 + (octet c - 128) * 64 + (octet d - 128)" and "65536 \<le> n"
  proof -
    obtain w x y z where x: "octet a = 240 + w" "octet b = 128 + x" "octet c = 128 + y" "octet d = 128 + z" "x < 64" "y < 64" "z < 64"
      using low [OF h(2)] low [OF h(3)] low [OF h(4)] from_base [OF h(1)] by auto
    then have n: "n = ((w * 64 + x) * 64 + y) * 64 + z" using n by simp
    have "n div 64 = (w * 64 + x) * 64 + y" and "n mod 64 = z" unfolding n using x(7) by (simp_all only: base64_digit)
    moreover have "n div 4096 = n div 64 div 64" "n div 262144 = n div 64 div 64 div 64" by (simp_all flip: div_mult2_eq)
    ultimately have "n div 262144 = w" "n div 4096 mod 64 = x" "n div 64 mod 64 = y" "n mod 64 = z"
      using x(5,6) by (simp_all only: base64_digit)
    then show ?thesis using x(1-4) \<open>65536 \<le> n\<close> by (auto simp: utf8_char_def intro!: eq)
  qed
qed

text \<open>The first code point of a text: overlong forms and values above U+10FFFF are refused.\<close>

fun utf8_next :: "string \<Rightarrow> (nat \<times> string) option" where
  "utf8_next [] = None"
| "utf8_next (a # s) =
     (if octet a < 128 then Some (octet a, s)
      else if octet a < 194 then None
      else if octet a < 224 then
        (case s of
           b # s2 \<Rightarrow> if continuation b then Some ((octet a - 192) * 64 + (octet b - 128), s2) else None
         | _ \<Rightarrow> None)
      else if octet a < 240 then
        (case s of
           b # c # s3 \<Rightarrow>
             (let n = (octet a - 224) * 4096 + (octet b - 128) * 64 + (octet c - 128)
              in if continuation b \<and> continuation c \<and> 2048 \<le> n then Some (n, s3) else None)
         | _ \<Rightarrow> None)
      else
        (case s of
           b # c # d # s4 \<Rightarrow>
             (let n = (octet a - 240) * 262144 + (octet b - 128) * 4096 + (octet c - 128) * 64 + (octet d - 128)
              in if continuation b \<and> continuation c \<and> continuation d \<and> 65536 \<le> n \<and> n < 1114112 then Some (n, s4) else None)
         | _ \<Rightarrow> None))"

lemma utf8_next_inverse:
  assumes "utf8_next s = Some (n, r)"
  shows "s = utf8_char n @ r \<and> n < 1114112"
proof (cases s)
  case Nil
  then show ?thesis using assms by simp
next
  case (Cons a t)
  consider "octet a < 128" | "194 \<le> octet a" "octet a < 224" | "224 \<le> octet a" "octet a < 240" | "240 \<le> octet a"
    using assms Cons by (fastforce split: if_splits)
  then show ?thesis
  proof cases
    case 1
    then show ?thesis using assms Cons by (auto simp: utf8_char_decoded(1))
  next
    case 2
    then obtain b where "t = b # r" "continuation b" "n = (octet a - 192) * 64 + (octet b - 128)"
      using assms Cons by (auto split: list.splits if_splits)
    moreover from this 2 have "n < 1114112" unfolding continuation_def by linarith
    ultimately show ?thesis using 2 Cons by (simp add: utf8_char_decoded(2))
  next
    case 3
    then obtain b c where t: "t = b # c # r" "continuation b" "continuation c" "2048 \<le> n"
      and n: "n = (octet a - 224) * 4096 + (octet b - 128) * 64 + (octet c - 128)"
      using assms Cons by (auto simp: Let_def split: list.splits if_splits)
    then have "n < 1114112" using 3 unfolding continuation_def by linarith
    then show ?thesis using 3 Cons t utf8_char_decoded(3) [OF 3 t(2,3) n t(4)] by simp
  next
    case 4
    then obtain b c d where t: "t = b # c # d # r" "continuation b" "continuation c" "continuation d" "65536 \<le> n" "n < 1114112"
      and n: "n = (octet a - 240) * 262144 + (octet b - 128) * 4096 + (octet c - 128) * 64 + (octet d - 128)"
      using assms Cons by (auto simp: Let_def split: list.splits if_splits)
    then show ?thesis using Cons utf8_char_decoded(4) [OF 4 t(2-4) n t(5)] by simp
  qed
qed

lemma utf8_char_not_Nil [simp]: "utf8_char n \<noteq> []"
  by (simp add: utf8_char_def)

text \<open>
  The code points of a text. With \<open>strict\<close> it is \<open>bytes.decode("utf-8")\<close>, whose \<open>UnicodeDecodeError\<close> is
  None; without, it is defined on every \<open>str\<close>.
\<close>

function utf8_decode :: "bool \<Rightarrow> string \<Rightarrow> nat list option" where
  "utf8_decode strict s =
     (if s = [] then Some []
      else case utf8_next s of
        None \<Rightarrow> None
      | Some (n, r) \<Rightarrow> if strict \<and> surrogate n then None else map_option ((#) n) (utf8_decode strict r))"
  by pat_completeness auto
termination
  by (relation "measure (\<lambda>(strict, s). length s)") (auto dest!: utf8_next_inverse)

declare utf8_decode.simps [simp del]

lemma utf8_decode_inverse:
  "utf8_decode strict s = Some ns \<Longrightarrow> concat (map utf8_char ns) = s \<and> (\<forall>n \<in> set ns. n < 1114112 \<and> (strict \<longrightarrow> \<not> surrogate n))"
proof (induction strict s arbitrary: ns rule: utf8_decode.induct)
  case (1 strict s)
  show ?case
  proof (cases "s = []")
    case True
    then show ?thesis using "1.prems" by (simp add: utf8_decode.simps)
  next
    case False
    then obtain n r ns' where n: "utf8_next s = Some (n, r)" "\<not> (strict \<and> surrogate n)" and ns: "utf8_decode strict r = Some ns'" "ns = n # ns'"
      using "1.prems" by (subst (asm) utf8_decode.simps) (auto split: option.splits if_splits)
    then show ?thesis using "1.IH" [OF False n(1) refl n(2) ns(1)] utf8_next_inverse [OF n(1)] by auto
  qed
qed

lemma utf8_decode_lenient: "utf8_decode True s = Some ns \<Longrightarrow> utf8_decode False s = Some ns"
proof (induction False s arbitrary: ns rule: utf8_decode.induct)
  case (1 s)
  then show ?case
    by (cases "s = []") (subst (asm) (2) utf8_decode.simps, subst utf8_decode.simps, auto split: option.splits if_splits)+
qed

definition ascii_text :: "string \<Rightarrow> bool" where
  "ascii_text s \<longleftrightarrow> list_all (\<lambda>c. octet c < 128) s"

lemma utf8_decode_ascii: "ascii_text s \<Longrightarrow> utf8_decode strict s = Some (map octet s)"
proof (induction s)
  case (Cons c s)
  then show ?case by (subst utf8_decode.simps) (simp add: surrogate_def ascii_text_def)
qed (simp add: utf8_decode.simps ascii_text_def)

lemma ascii_text_simps [simp]: "ascii_text []" "ascii_text (c # s) \<longleftrightarrow> octet c < 128 \<and> ascii_text s"
    "ascii_text (s @ t) \<longleftrightarrow> ascii_text s \<and> ascii_text t" "ascii_text (concat ss) \<longleftrightarrow> list_all ascii_text ss"
  by (auto simp: ascii_text_def list_all_iff)

subsection \<open>The scanner\<close>

datatype json_failure = Malformed | ScanRaises py_exn
  \<comment> \<open>\<open>JSONDecodeError\<close>, or another exception\<close>

definition json_space :: "char \<Rightarrow> bool" where
  "json_space c \<longleftrightarrow> octet c \<in> {9, 10, 13, 32}"

definition skip_space :: "string \<Rightarrow> string" where
  "skip_space s = dropWhile json_space s"

definition hex_value :: "char \<Rightarrow> nat option" where
  "hex_value c =
     (let n = octet c in
      if 48 \<le> n \<and> n \<le> 57 then Some (n - 48)
      else if 97 \<le> n \<and> n \<le> 102 then Some (n - 87)
      else if 65 \<le> n \<and> n \<le> 70 then Some (n - 55)
      else None)"

fun hex4 :: "string \<Rightarrow> (nat \<times> string) option" where
  "hex4 (a # b # c # d # s) =
     (case (hex_value a, hex_value b, hex_value c, hex_value d) of
        (Some w, Some x, Some y, Some z) \<Rightarrow> Some (w * 4096 + x * 256 + y * 16 + z, s)
      | _ \<Rightarrow> None)"
| "hex4 s = None"

text \<open>What follows \<open>\u\<close>: a high surrogate joins with the escape of a low one right behind it.\<close>

definition unicode_escape :: "string \<Rightarrow> (string \<times> string) option" where
  "unicode_escape s =
     (case hex4 s of
        None \<Rightarrow> None
      | Some (n, s1) \<Rightarrow>
          if 55296 \<le> n \<and> n < 56320 \<and> take 2 s1 = [CHR 0x5C, CHR ''u''] then
            (case hex4 (drop 2 s1) of
               None \<Rightarrow> None
             | Some (k, s2) \<Rightarrow>
                 if 56320 \<le> k \<and> k < 57344 then Some (utf8_char (65536 + (n - 55296) * 1024 + (k - 56320)), s2)
                 else Some (utf8_char n, s1))
          else Some (utf8_char n, s1))"

definition simple_escapes :: "(char \<times> char) list" where
  "simple_escapes =
     [(CHR 0x22, CHR 0x22), (CHR 0x5C, CHR 0x5C), (CHR ''/'', CHR ''/''), (CHR ''b'', CHR 0x08), (CHR ''f'', CHR 0x0C),
      (CHR ''n'', CHR 0x0A), (CHR ''r'', CHR 0x0D), (CHR ''t'', CHR 0x09)]"

fun scan_escape :: "string \<Rightarrow> (string \<times> string) option" where
  "scan_escape [] = None"
| "scan_escape (c # s) =
     (if c = CHR ''u'' then unicode_escape s
      else map_option (\<lambda>x. ([x], s)) (map_of simple_escapes c))"

lemma hex4_shorter: "hex4 s = Some (n, r) \<Longrightarrow> length r < length s"
  by (cases s rule: hex4.cases) (auto split: option.splits)

lemma scan_escape_shorter: "scan_escape s = Some (p, r) \<Longrightarrow> length r < length s"
proof (cases s)
  case (Cons c cs)
  have "unicode_escape cs = Some (p, r) \<Longrightarrow> length r < length cs"
    by (auto simp: unicode_escape_def split: option.splits if_splits dest!: hex4_shorter)
  then show "scan_escape s = Some (p, r) \<Longrightarrow> ?thesis" using Cons by (auto split: if_splits)
qed simp

text \<open>A string after its opening quote: its value, and the text after the closing quote.\<close>

function scan_string :: "string \<Rightarrow> (string \<times> string) option" where
  "scan_string s =
     (case s of
        [] \<Rightarrow> None
      | c # cs \<Rightarrow>
          if c = CHR 0x22 then Some ([], cs)
          else if c = CHR 0x5C then
            (case scan_escape cs of
               None \<Rightarrow> None
             | Some (piece, rest) \<Rightarrow> map_option (\<lambda>(x, r). (piece @ x, r)) (scan_string rest))
          else if octet c < 32 then None
          else map_option (\<lambda>(x, r). (c # x, r)) (scan_string cs))"
  by pat_completeness auto
termination
  by (relation "measure length") (auto dest: scan_escape_shorter)

declare scan_string.simps [simp del]

lemma scan_string_shorter: "scan_string s = Some (x, r) \<Longrightarrow> length r < length s"
proof (induction s arbitrary: x r rule: scan_string.induct)
  case (1 s)
  then show ?case
    by (subst (asm) (3) scan_string.simps)
       (fastforce split: list.splits if_splits option.splits dest: scan_escape_shorter)
qed

text \<open>
  A number. A point or an exponent without digits is not part of it. \<open>int\<close> refuses more than 4300
  digits.
\<close>

definition scan_fraction :: "string \<Rightarrow> string \<times> string" where
  "scan_fraction s =
     (case s of
        [] \<Rightarrow> ([], s)
      | c # cs \<Rightarrow>
          if c = CHR ''.'' \<and> takeWhile is_digit cs \<noteq> [] then (c # takeWhile is_digit cs, dropWhile is_digit cs)
          else ([], s))"

definition scan_exponent :: "string \<Rightarrow> string \<times> string" where
  "scan_exponent s =
     (case s of
        [] \<Rightarrow> ([], s)
      | c # cs \<Rightarrow>
          (let sign = (case cs of [] \<Rightarrow> [] | d # _ \<Rightarrow> if d = CHR ''+'' \<or> d = CHR ''-'' then [d] else []);
               ds = takeWhile is_digit (drop (length sign) cs)
           in if (c = CHR ''e'' \<or> c = CHR ''E'') \<and> ds \<noteq> [] then (c # sign @ ds, dropWhile is_digit (drop (length sign) cs))
              else ([], s)))"

definition scan_unsigned :: "string \<Rightarrow> (string \<times> string) option" where
  "scan_unsigned s =
     (case s of
        [] \<Rightarrow> None
      | c # cs \<Rightarrow>
          if c = CHR ''0'' then Some ([c], cs)
          else if is_digit c then Some (takeWhile is_digit s, dropWhile is_digit s)
          else None)"

definition scan_number :: "string \<Rightarrow> json_failure + json \<times> string" where
  "scan_number s =
     (let neg = (take 1 s = ''-'');
          sign = (if neg then ''-'' else [])
      in case scan_unsigned (if neg then tl s else s) of
           None \<Rightarrow> Inl Malformed
         | Some (whole, s1) \<Rightarrow>
             (case scan_fraction s1 of (fraction, s2) \<Rightarrow>
              case scan_exponent s2 of (exponent, s3) \<Rightarrow>
                if fraction = [] \<and> exponent = [] then
                  (if length whole \<le> 4300 then
                     Inr (JInt (if neg then - int (digits_value whole) else int (digits_value whole)), s3)
                   else Inl (ScanRaises ValueError))
                else
                  (case float_of_string (sign @ whole @ fraction @ exponent) of
                     None \<Rightarrow> Inl (ScanRaises ValueError)
                   | Some f \<Rightarrow> Inr (JFloat f, s3))))"

definition json_literals :: "(string \<times> json) list" where
  "json_literals =
     [(''null'', JNull), (''true'', JBool True), (''false'', JBool False), (''NaN'', JFloat FNaN),
      (''Infinity'', JFloat (FInf False)), (''-Infinity'', JFloat (FInf True))]"

definition scan_literal :: "string \<Rightarrow> (json \<times> string) option" where
  "scan_literal s = map_option (\<lambda>(l, v). (v, drop (length l) s)) (find (\<lambda>(l, v). starts_with l s) json_literals)"

text \<open>
  The members of a non-empty array or object up to the bracket \<open>close\<close>. \<open>scan\<close> reads one; it always
  consumes something, so the test on the lengths never fails (\<open>scan_items_unguarded\<close>).
\<close>

type_synonym 'a scan = "string \<Rightarrow> json_failure + 'a \<times> string"

function scan_items :: "char \<Rightarrow> 'a scan \<Rightarrow> 'a list scan" where
  "scan_items close scan s =
     bind_res (scan s) (\<lambda>(v, r).
     case skip_space r of
       [] \<Rightarrow> Inl Malformed
     | c # cs \<Rightarrow>
         if c = close then Inr ([v], cs)
         else if c = CHR '','' \<and> length (skip_space cs) < length s then
           bind_res (scan_items close scan (skip_space cs)) (\<lambda>(vs, r'). Inr (v # vs, r'))
         else Inl Malformed)"
  by pat_completeness auto
termination
  by (relation "measure (\<lambda>(close, scan, s). length s)") auto

declare scan_items.simps [simp del]

definition object_item :: "json scan \<Rightarrow> (string \<times> json) scan" where
  "object_item scan s =
     (case s of
        [] \<Rightarrow> Inl Malformed
      | q # s1 \<Rightarrow>
          if q \<noteq> CHR 0x22 then Inl Malformed
          else (case scan_string s1 of
                  None \<Rightarrow> Inl Malformed
                | Some (key, s2) \<Rightarrow>
                    (case skip_space s2 of
                       [] \<Rightarrow> Inl Malformed
                     | c # s3 \<Rightarrow>
                         if c \<noteq> CHR '':'' then Inl Malformed
                         else bind_res (scan (skip_space s3)) (\<lambda>(v, r). Inr ((key, v), r)))))"

definition scan_array :: "json scan \<Rightarrow> json scan" where
  "scan_array scan s =
     (let s1 = skip_space s in
      if take 1 s1 = '']'' then Inr (JList [], tl s1)
      else bind_res (scan_items (CHR '']'') scan s1) (\<lambda>(vs, r). Inr (JList vs, r)))"

definition scan_object :: "json scan \<Rightarrow> json scan" where
  "scan_object scan s =
     (let s1 = skip_space s in
      if take 1 s1 = ''}'' then Inr (JDict [], tl s1)
      else bind_res (scan_items (CHR ''}'') (object_item scan) s1) (\<lambda>(items, r). Inr (JDict (dict_update [] items), r)))"

definition scan_with :: "json scan \<Rightarrow> json scan \<Rightarrow> json scan" where
  "scan_with in_object in_array s =
     (case s of
        [] \<Rightarrow> Inl Malformed
      | c # cs \<Rightarrow>
          if c = CHR 0x22 then
            (case scan_string cs of None \<Rightarrow> Inl Malformed | Some (x, r) \<Rightarrow> Inr (JStr x, r))
          else if c = CHR ''{'' then in_object cs
          else if c = CHR ''['' then in_array cs
          else (case scan_literal s of Some vr \<Rightarrow> Inr vr | None \<Rightarrow> scan_number s))"

text \<open>A value; \<open>depth\<close> is how many objects and arrays may still be opened.\<close>

primrec scan_value :: "nat \<Rightarrow> json scan" where
  "scan_value 0 = scan_with (\<lambda>s. Inl (ScanRaises RecursionError)) (\<lambda>s. Inl (ScanRaises RecursionError))"
| "scan_value (Suc depth) = scan_with (scan_object (scan_value depth)) (scan_array (scan_value depth))"

definition BOM :: string where
  "BOM = [CHR 0xEF, CHR 0xBB, CHR 0xBF]"

definition json_loads :: "nat \<Rightarrow> string \<Rightarrow> loads_result" where
  "json_loads depth s =
     (if starts_with BOM s then DecodeError
      else case scan_value depth (skip_space s) of
        Inl Malformed \<Rightarrow> DecodeError
      | Inl (ScanRaises e) \<Rightarrow> LoadsRaises e
      | Inr (v, r) \<Rightarrow> if skip_space r = [] then Loaded v else DecodeError)"

subsection \<open>Every value consumes some of the text\<close>

definition consumes :: "'a scan \<Rightarrow> bool" where
  "consumes scan \<longleftrightarrow> (\<forall>s v r. scan s = Inr (v, r) \<longrightarrow> length r < length s)"

lemma consumesD: "consumes scan \<Longrightarrow> scan s = Inr (v, r) \<Longrightarrow> length r < length s"
  by (simp add: consumes_def)

lemma length_skip_space [simp]: "length (skip_space s) \<le> length s"
  by (simp add: skip_space_def length_dropWhile_le)

lemma skip_space_tail: "skip_space s = c # cs \<Longrightarrow> length cs < length s"
  using length_skip_space [of s] by simp

lemma consumes_item:
  assumes "consumes scan"
  shows "consumes (object_item scan)"
  unfolding consumes_def
proof (intro allI impI)
  fix s kv r
  assume "object_item scan s = Inr (kv, r)"
  then obtain s1 key s2 s3 v where s: "s = CHR 0x22 # s1" and k: "scan_string s1 = Some (key, s2)"
    and c: "skip_space s2 = CHR '':'' # s3" and v: "scan (skip_space s3) = Inr (v, r)"
    by (auto simp: object_item_def bind_res_Inr_iff split: list.splits if_splits option.splits)
  have "length r < length (skip_space s3)" using assms v by (rule consumesD)
  also have "\<dots> \<le> length s3" by simp
  also have "\<dots> < length s2" using c by (rule skip_space_tail)
  also have "\<dots> < length s" using scan_string_shorter [OF k] s by simp
  finally show "length r < length s" .
qed

text \<open>The loop without the test on the lengths.\<close>

lemma scan_items_unguarded:
  assumes "consumes scan"
  shows "scan_items close scan s =
    bind_res (scan s) (\<lambda>(v, r).
    case skip_space r of
      [] \<Rightarrow> Inl Malformed
    | c # cs \<Rightarrow>
        if c = close then Inr ([v], cs)
        else if c = CHR '','' then bind_res (scan_items close scan (skip_space cs)) (\<lambda>(vs, r'). Inr (v # vs, r'))
        else Inl Malformed)"
proof (cases "scan s")
  case (Inr vr)
  obtain v r where vr: "vr = (v, r)" by (cases vr)
  have "length (skip_space cs) < length s" if "skip_space r = c # cs" for c cs
    using consumesD [OF assms Inr [unfolded vr]] skip_space_tail [OF that] length_skip_space [of cs] by linarith
  then show ?thesis using Inr vr by (subst scan_items.simps) (auto split: list.split)
qed (simp add: scan_items.simps)

lemma scan_items_shorter: "consumes scan \<Longrightarrow> scan_items close scan s = Inr (vs, r) \<Longrightarrow> length r < length s"
proof (induction close scan s arbitrary: vs r rule: scan_items.induct)
  case (1 close scan s)
  obtain v r1 where v: "scan s = Inr (v, r1)"
    using "1.prems"(2) by (subst (asm) scan_items.simps) (auto simp: bind_res_Inr_iff)
  have len: "length r1 < length s" using "1.prems"(1) v by (rule consumesD)
  obtain c cs where c: "skip_space r1 = c # cs"
    using "1.prems"(2) v by (subst (asm) scan_items.simps) (auto split: list.splits)
  have tail: "length cs < length r1" using c by (rule skip_space_tail)
  show ?case
  proof (cases "c = close")
    case True
    then show ?thesis using "1.prems"(2) v c len tail by (subst (asm) scan_items.simps) auto
  next
    case False
    then obtain vs' where rest: "scan_items close scan (skip_space cs) = Inr (vs', r)"
      and comma: "c = CHR '','' \<and> length (skip_space cs) < length s"
      using "1.prems"(2) v c by (subst (asm) scan_items.simps) (auto simp: bind_res_Inr_iff split: if_splits)
    have "length r < length (skip_space cs)" by (rule "1.IH" [OF c False comma "1.prems"(1) rest])
    then show ?thesis using comma by linarith
  qed
qed

lemma scan_literal_shorter:
  assumes "scan_literal s = Some (v, r)"
  shows "length r < length s"
proof -
  from assms obtain l where "find (\<lambda>(l, v). starts_with l s) json_literals = Some (l, v)" and r: "r = drop (length l) s"
    by (auto simp: scan_literal_def)
  then have l: "(l, v) \<in> set json_literals" "starts_with l s" by (auto simp: find_Some_iff in_set_conv_nth)
  then have "l \<noteq> []" by (auto simp: json_literals_def)
  moreover have "s \<noteq> []" using l(2) \<open>l \<noteq> []\<close> by (auto simp: starts_with_def)
  ultimately show ?thesis using r by simp
qed

lemma drop_while_shorter: "length (dropWhile p s) \<le> length s"
  by (rule length_dropWhile_le)

lemma scan_unsigned_shorter: "scan_unsigned s = Some (whole, r) \<Longrightarrow> length r < length s"
  by (auto simp: scan_unsigned_def less_Suc_eq_le drop_while_shorter split: list.splits if_splits)

lemma scan_number_shorter:
  assumes "scan_number s = Inr (v, r)"
  shows "length r < length s"
proof -
  let ?t = "if take 1 s = ''-'' then tl s else s"
  from assms obtain whole s1 fraction s2 exponent where u: "scan_unsigned ?t = Some (whole, s1)"
    and f: "scan_fraction s1 = (fraction, s2)" and e: "scan_exponent s2 = (exponent, r)"
    by (auto simp: scan_number_def Let_def split: option.splits prod.splits if_splits)
  have "length s1 < length ?t"
    using u by (rule scan_unsigned_shorter)
  moreover have "length s2 \<le> length s1"
    using f by (auto simp: scan_fraction_def drop_while_shorter le_SucI split: list.splits if_splits)
  moreover have "length r \<le> length s2"
    using e by (auto simp: scan_exponent_def Let_def drop_while_shorter le_SucI split: list.splits if_splits)
  ultimately show ?thesis by (auto split: if_splits)
qed

lemma consumes_with:
  assumes "consumes in_object" and "consumes in_array"
  shows "consumes (scan_with in_object in_array)"
  unfolding consumes_def
proof (intro allI impI)
  fix s v r
  assume "scan_with in_object in_array s = Inr (v, r)"
  then show "length r < length s"
    by (auto simp: scan_with_def less_Suc_eq dest!: scan_string_shorter scan_literal_shorter scan_number_shorter
        consumesD [OF assms(1)] consumesD [OF assms(2)] split: list.splits if_splits option.splits)
qed

lemma consumes_array: "consumes scan \<Longrightarrow> consumes (scan_array scan)"
proof -
  assume c: "consumes scan"
  have "length r < length s" if h: "scan_array scan s = Inr (v, r)" for s v r
  proof (cases "take 1 (skip_space s) = '']''")
    case True
    then have "skip_space s = CHR '']'' # r" using h by (cases "skip_space s") (auto simp: scan_array_def Let_def)
    then show ?thesis by (rule skip_space_tail)
  next
    case False
    then obtain vs where "scan_items (CHR '']'') scan (skip_space s) = Inr (vs, r)"
      using h by (auto simp: scan_array_def Let_def bind_res_Inr_iff)
    from scan_items_shorter [OF c this] show ?thesis using length_skip_space [of s] by linarith
  qed
  then show ?thesis by (simp add: consumes_def)
qed

lemma consumes_object: "consumes scan \<Longrightarrow> consumes (scan_object scan)"
proof -
  assume c: "consumes scan"
  have "length r < length s" if h: "scan_object scan s = Inr (v, r)" for s v r
  proof (cases "take 1 (skip_space s) = ''}''")
    case True
    then have "skip_space s = CHR ''}'' # r" using h by (cases "skip_space s") (auto simp: scan_object_def Let_def)
    then show ?thesis by (rule skip_space_tail)
  next
    case False
    then obtain vs where "scan_items (CHR ''}'') (object_item scan) (skip_space s) = Inr (vs, r)"
      using h by (auto simp: scan_object_def Let_def bind_res_Inr_iff)
    from scan_items_shorter [OF consumes_item [OF c] this] show ?thesis using length_skip_space [of s] by linarith
  qed
  then show ?thesis by (simp add: consumes_def)
qed

lemma consumes_value: "consumes (scan_value depth)"
proof (induction depth)
  case 0
  have "consumes (\<lambda>s. Inl e :: json_failure + json \<times> string)" for e by (simp add: consumes_def)
  then show ?case by (simp add: consumes_with)
next
  case (Suc depth)
  then show ?case by (simp add: consumes_with consumes_array consumes_object)
qed

subsection \<open>The printer\<close>

record json_format =
  jf_ascii :: bool
  jf_indent :: "nat option"
  jf_item :: string \<comment> \<open>the separators\<close>
  jf_colon :: string

definition hex_char :: "nat \<Rightarrow> char" where
  "hex_char n = (if n < 10 then char_of (48 + n) else char_of (87 + n))"

definition escape_u :: "nat \<Rightarrow> string" where
  "escape_u n =
     [CHR 0x5C, CHR ''u'', hex_char (n div 4096 mod 16), hex_char (n div 256 mod 16), hex_char (n div 16 mod 16), hex_char (n mod 16)]"

definition short_escapes :: "(char \<times> string) list" where
  "short_escapes =
     [(CHR 0x22, [CHR 0x5C, CHR 0x22]), (CHR 0x5C, [CHR 0x5C, CHR 0x5C]), (CHR 0x08, [CHR 0x5C, CHR ''b'']),
      (CHR 0x0C, [CHR 0x5C, CHR ''f'']), (CHR 0x0A, [CHR 0x5C, CHR ''n'']), (CHR 0x0D, [CHR 0x5C, CHR ''r'']),
      (CHR 0x09, [CHR 0x5C, CHR ''t''])]"

definition escape_byte :: "char \<Rightarrow> string" where
  "escape_byte c =
     (case map_of short_escapes c of
        Some e \<Rightarrow> e
      | None \<Rightarrow> if octet c < 32 then escape_u (octet c) else [c])"

text \<open>With \<open>ensure_ascii\<close> a character outside of the printable ASCII ones becomes one or two escapes.\<close>

definition escape_point :: "nat \<Rightarrow> string" where
  "escape_point n =
     (if n < 127 then escape_byte (char_of n)
      else if n < 65536 then escape_u n
      else escape_u (55296 + (n - 65536) div 1024) @ escape_u (56320 + (n - 65536) mod 1024))"

definition text_points :: "string \<Rightarrow> nat list" where
  "text_points s = (case utf8_decode False s of None \<Rightarrow> map octet s | Some ns \<Rightarrow> ns)"

definition dump_string :: "json_format \<Rightarrow> string \<Rightarrow> string" where
  "dump_string F s =
     [CHR 0x22] @ (if jf_ascii F then concat (map escape_point (text_points s)) else concat (map escape_byte s)) @ [CHR 0x22]"

definition new_line :: "json_format \<Rightarrow> nat \<Rightarrow> string" where
  "new_line F level = (case jf_indent F of None \<Rightarrow> [] | Some n \<Rightarrow> CHR 0x0A # replicate (n * level) (CHR '' ''))"

definition bracketed :: "json_format \<Rightarrow> nat \<Rightarrow> char \<Rightarrow> char \<Rightarrow> string list \<Rightarrow> string" where
  "bracketed F level l r items =
     (case items of
        [] \<Rightarrow> [l, r]
      | item # rest \<Rightarrow>
          l # new_line F (Suc level) @ item @ concat (map (\<lambda>i. jf_item F @ new_line F (Suc level) @ i) rest)
            @ new_line F level @ [r])"

text \<open>\<open>render\<close> is \<open>float.__repr__\<close> of a finite float.\<close>

function dump_value :: "json_format \<Rightarrow> (pyfloat \<Rightarrow> string) \<Rightarrow> nat \<Rightarrow> json \<Rightarrow> string" where
  "dump_value F render level JNull = ''null''"
| "dump_value F render level (JBool b) = (if b then ''true'' else ''false'')"
| "dump_value F render level (JInt i) = str_int i"
| "dump_value F render level (JFloat f) =
     (case f of FNaN \<Rightarrow> ''NaN'' | FInf neg \<Rightarrow> (if neg then ''-Infinity'' else ''Infinity'') | FFin m e \<Rightarrow> render f)"
| "dump_value F render level (JStr s) = dump_string F s"
| "dump_value F render level (JList xs) =
     bracketed F level (CHR ''['') (CHR '']'') (map (dump_value F render (Suc level)) xs)"
| "dump_value F render level (JDict d) =
     bracketed F level (CHR ''{'') (CHR ''}'')
       (map (\<lambda>(k, v). dump_string F k @ jf_colon F @ dump_value F render (Suc level) v) d)"
  by pat_completeness auto
termination
  by (relation "measure (\<lambda>(F, render, level, v). size v)") (auto intro: size_json_member simp del: json.size)

text \<open>\<open>str\<close> of an integer of more than 4300 digits is a \<open>ValueError\<close>.\<close>

function printable :: "json \<Rightarrow> bool" where
  "printable (JInt i) \<longleftrightarrow> length (str_nat (nat \<bar>i\<bar>)) \<le> 4300"
| "printable (JList xs) \<longleftrightarrow> (\<forall>x \<in> set xs. printable x)"
| "printable (JDict d) \<longleftrightarrow> (\<forall>(k, v) \<in> set d. printable v)"
| "printable JNull \<longleftrightarrow> True"
| "printable (JBool b) \<longleftrightarrow> True"
| "printable (JFloat f) \<longleftrightarrow> True"
| "printable (JStr s) \<longleftrightarrow> True"
  by pat_completeness auto
termination
  by (relation "measure size") (auto intro: size_json_member simp del: json.size)

definition json_dumps :: "json_format \<Rightarrow> (pyfloat \<Rightarrow> string) \<Rightarrow> json \<Rightarrow> py_exn + string" where
  "json_dumps F render v = (if printable v then Inr (dump_value F render 0 v) else Inl ValueError)"

subsection \<open>Strings are read back\<close>

lemma hex_value_char [simp]: "n < 16 \<Longrightarrow> hex_value (hex_char n) = Some n"
  by (auto simp: hex_value_def hex_char_def Let_def)

lemma hex4_escape:
  assumes "n < 65536"
  shows "hex4 (hex_char (n div 4096 mod 16) # hex_char (n div 256 mod 16) # hex_char (n div 16 mod 16) # hex_char (n mod 16) # r) = Some (n, r)"
proof -
  have "n div 4096 < 16" using assms by simp
  moreover have "n = (((n div 4096) * 16 + n div 256 mod 16) * 16 + n div 16 mod 16) * 16 + n mod 16"
  proof -
    have step: "m = m div 16 * 16 + m mod 16" for m :: nat by simp
    have "n div 256 = n div 16 div 16" "n div 4096 = n div 16 div 16 div 16" by (simp_all flip: div_mult2_eq)
    then show ?thesis using step [of n] step [of "n div 16"] step [of "n div 16 div 16"] by presburger
  qed
  ultimately show ?thesis by (simp add: algebra_simps)
qed

lemma scan_string_literal: "octet c \<ge> 32 \<Longrightarrow> c \<noteq> CHR 0x22 \<Longrightarrow> c \<noteq> CHR 0x5C \<Longrightarrow>
    scan_string (c # s) = map_option (\<lambda>(x, r). (c # x, r)) (scan_string s)"
  by (subst scan_string.simps) simp

lemma scan_string_escape: "scan_escape s = Some (p, r) \<Longrightarrow>
    scan_string (CHR 0x5C # s) = map_option (\<lambda>(x, r'). (p @ x, r')) (scan_string r)"
  by (subst scan_string.simps) simp

lemma scan_string_end: "scan_string (CHR 0x22 # s) = Some ([], s)"
  by (subst scan_string.simps) simp

lemma escape_u_Cons: "escape_u n @ s = CHR 0x5C # CHR ''u'' # (drop 2 (escape_u n) @ s)"
  by (simp add: escape_u_def)

lemma hex4_escape_u: "n < 65536 \<Longrightarrow> hex4 (drop 2 (escape_u n) @ s) = Some (n, s)"
  using hex4_escape [of n s] by (simp add: escape_u_def)

lemma scan_unicode_escape:
  assumes "unicode_escape (drop 2 (escape_u n) @ s) = Some (p, r)"
  shows "scan_string (escape_u n @ s) = map_option (\<lambda>(x, r'). (p @ x, r')) (scan_string r)"
  unfolding escape_u_Cons by (rule scan_string_escape) (simp add: assms)

lemma scan_escape_u:
  assumes "n < 65536" and "\<not> surrogate n"
  shows "scan_string (escape_u n @ s) = map_option (\<lambda>(x, r). (utf8_char n @ x, r)) (scan_string s)"
proof (rule scan_unicode_escape)
  have "\<not> (55296 \<le> n \<and> n < 56320 \<and> take 2 s = [CHR 0x5C, CHR ''u''])" using assms(2) by (auto simp: surrogate_def)
  then show "unicode_escape (drop 2 (escape_u n) @ s) = Some (utf8_char n, s)"
    unfolding unicode_escape_def hex4_escape_u [OF assms(1)] by (simp only: option.case prod.case if_False)
qed

lemma scan_escape_pair:
  assumes "65536 \<le> n" and "n < 1114112"
  shows "scan_string (escape_u (55296 + (n - 65536) div 1024) @ escape_u (56320 + (n - 65536) mod 1024) @ s)
    = map_option (\<lambda>(x, r). (utf8_char n @ x, r)) (scan_string s)"
proof -
  define h where "h = 55296 + (n - 65536) div 1024"
  define l where "l = 56320 + (n - 65536) mod 1024"
  have "(n - 65536) div 1024 < 1024" using assms by (simp add: div_less_iff_less_mult)
  then have h: "55296 \<le> h" "h < 56320" "h < 65536" by (simp_all add: h_def)
  have "(n - 65536) mod 1024 < 1024" by simp
  then have l: "56320 \<le> l" "l < 57344" "l < 65536" unfolding l_def by linarith+
  have n: "65536 + (h - 55296) * 1024 + (l - 56320) = n" using assms(1) by (simp add: h_def l_def)
  have "take 2 (escape_u l @ s) = [CHR 0x5C, CHR ''u'']" and d: "drop 2 (escape_u l @ s) = drop 2 (escape_u l) @ s"
    by (simp_all add: escape_u_def)
  then have "unicode_escape (drop 2 (escape_u h) @ escape_u l @ s) = Some (utf8_char n, s)"
    unfolding unicode_escape_def hex4_escape_u [OF h(3)] option.case prod.case d hex4_escape_u [OF l(3)]
    using h l n by (simp only: simp_thms if_True)
  then show ?thesis unfolding h_def [symmetric] l_def [symmetric] by (rule scan_unicode_escape)
qed

lemma scan_escape_byte: "scan_string (escape_byte c @ s) = map_option (\<lambda>(x, r). (c # x, r)) (scan_string s)"
proof (cases "map_of short_escapes c")
  case None
  then have c: "c \<noteq> CHR 0x22" "c \<noteq> CHR 0x5C" by (auto simp: short_escapes_def)
  show ?thesis
  proof (cases "octet c < 32")
    case True
    then have o: "\<not> surrogate (octet c)" "octet c < 65536" "utf8_char (octet c) = [c]" by (simp_all add: surrogate_def utf8_char_def)
    show ?thesis using None True scan_escape_u [OF o(2,1), of s] by (simp only: escape_byte_def option.case if_True o(3) append_Cons append_Nil)
  next
    case False
    then show ?thesis using None c by (simp add: escape_byte_def scan_string_literal)
  qed
next
  case (Some e)
  have "(c, e) \<in> set short_escapes" using Some by (rule map_of_SomeD)
  moreover have "\<forall>(c, e) \<in> set short_escapes. \<exists>k. e = [CHR 0x5C, k] \<and> scan_escape (k # s) = Some ([c], s)"
    by (simp add: short_escapes_def simple_escapes_def)
  ultimately obtain k where e: "e = [CHR 0x5C, k]" and k: "scan_escape (k # s) = Some ([c], s)" by blast
  show ?thesis using Some scan_string_escape [OF k] by (simp add: escape_byte_def e)
qed

lemma scan_escape_point:
  assumes "n < 1114112" and "\<not> surrogate n"
  shows "scan_string (escape_point n @ s) = map_option (\<lambda>(x, r). (utf8_char n @ x, r)) (scan_string s)"
proof (cases "n < 127")
  case True
  then have "utf8_char n = [char_of n]" by (simp add: utf8_char_def)
  then show ?thesis using True scan_escape_byte [of "char_of n" s] by (simp add: escape_point_def)
next
  case False
  then show ?thesis
    using scan_escape_u [of n s] scan_escape_pair [of n s] assms by (cases "n < 65536") (simp_all add: escape_point_def)
qed

definition text_ok :: "json_format \<Rightarrow> string \<Rightarrow> bool" where
  "text_ok F s \<longleftrightarrow> jf_ascii F \<longrightarrow> utf8_decode True s \<noteq> None"

lemma scan_dump_string:
  assumes "text_ok F s"
  shows "dump_string F s @ r = CHR 0x22 # (tl (dump_string F s) @ r)" and "scan_string (tl (dump_string F s) @ r) = Some (s, r)"
proof -
  show "dump_string F s @ r = CHR 0x22 # (tl (dump_string F s) @ r)" by (simp add: dump_string_def)
  have bytes: "scan_string (concat (map escape_byte x) @ CHR 0x22 # r) = Some (x, r)" for x
    by (induction x) (simp_all add: scan_escape_byte scan_string_end)
  have points: "\<forall>n \<in> set ns. n < 1114112 \<and> \<not> surrogate n \<Longrightarrow>
      scan_string (concat (map escape_point ns) @ CHR 0x22 # r) = Some (concat (map utf8_char ns), r)" for ns
    by (induction ns) (simp_all add: scan_escape_point scan_string_end)
  show "scan_string (tl (dump_string F s) @ r) = Some (s, r)"
  proof (cases "jf_ascii F")
    case True
    then obtain ns where ns: "utf8_decode True s = Some ns" using assms by (auto simp: text_ok_def)
    then have "text_points s = ns" by (simp add: text_points_def utf8_decode_lenient)
    then show ?thesis using True points [of ns] utf8_decode_inverse [OF ns] by (simp add: dump_string_def)
  next
    case False
    then show ?thesis using bytes [of s] by (simp add: dump_string_def)
  qed
qed

subsection \<open>Numbers are read back\<close>

text \<open>What may follow a number.\<close>

definition delimited :: "string \<Rightarrow> bool" where
  "delimited s \<longleftrightarrow> (\<forall>c. take 1 s = [c] \<longrightarrow> \<not> is_digit c \<and> c \<noteq> CHR ''.'' \<and> c \<noteq> CHR ''e'' \<and> c \<noteq> CHR ''E'')"

lemma char_zero: "char_of (48 :: nat) = CHR ''0''"
proof -
  have "octet (CHR ''0'') = 48" by (simp add: octet_def)
  then show ?thesis by (metis char_of_octet)
qed

lemma str_nat_zero: "take 1 (str_nat n) = ''0'' \<longleftrightarrow> n = 0"
proof (induction n rule: str_nat.induct)
  case (1 n)
  show ?case
  proof (cases "n < 10")
    case True
    have "char_of (48 + n) = CHR ''0'' \<longleftrightarrow> n = 0"
    proof
      assume "char_of (48 + n) = CHR ''0''"
      then have "octet (char_of (48 + n)) = octet (CHR ''0'')" by simp
      then show "n = 0" using True by (simp add: octet_def)
    qed (simp add: char_zero)
    then show ?thesis using True by (subst str_nat.simps) simp
  next
    case False
    then have "take 1 (str_nat n) = take 1 (str_nat (n div 10))"
      by (cases "str_nat (n div 10)") (simp_all add: str_nat.simps [of n])
    then show ?thesis using False "1.IH" by simp
  qed
qed

lemma scan_unsigned_str_nat:
  assumes "delimited r"
  shows "scan_unsigned (str_nat n @ r) = Some (str_nat n, r)"
proof -
  obtain c cs where c: "str_nat n = c # cs" by (cases "str_nat n") auto
  then have digits: "is_digit c" "list_all is_digit cs" using str_nat_digits [of n] by simp_all
  have stop: "takeWhile is_digit r = []" "dropWhile is_digit r = r"
    using assms by (cases r; simp add: delimited_def)+
  show ?thesis
  proof (cases "c = CHR ''0''")
    case True
    then have "n = 0" using str_nat_zero [of n] c by simp
    then have "str_nat n = ''0''" by (simp add: str_nat.simps char_zero)
    then show ?thesis by (simp add: scan_unsigned_def)
  next
    case False
    have "takeWhile is_digit (cs @ r) = cs" "dropWhile is_digit (cs @ r) = r"
      using digits(2) stop by (simp_all add: takeWhile_append2 dropWhile_append2 list_all_iff)
    then show ?thesis using False digits c by (simp add: scan_unsigned_def)
  qed
qed

lemma scan_tail_delimited: "delimited r \<Longrightarrow> scan_fraction r = ([], r) \<and> scan_exponent r = ([], r)"
  by (cases r) (auto simp: scan_fraction_def scan_exponent_def delimited_def Let_def)

lemma scan_number_str_int:
  assumes "delimited r" and "length (str_nat (nat \<bar>i\<bar>)) \<le> 4300"
  shows "scan_number (str_int i @ r) = Inr (JInt i, r)"
proof -
  have sign: "take 1 (str_nat n @ r) \<noteq> ''-''" for n
    using hd_str_nat_not_minus [of n] by (cases "str_nat n") auto
  note read = scan_unsigned_str_nat [OF assms(1)] scan_tail_delimited [OF assms(1)]
  show ?thesis
  proof (cases "i < 0")
    case True
    then have "nat \<bar>i\<bar> = nat (- i)" by simp
    then show ?thesis using assms(2) True read by (simp add: scan_number_def str_int_def)
  next
    case False
    then have "nat \<bar>i\<bar> = nat i" by simp
    then show ?thesis using assms(2) False read sign [of "nat i"] by (simp add: scan_number_def str_int_def del: One_nat_def)
  qed
qed

lemma scan_literal_number: "scan_literal (str_int i @ r) = None"
proof -
  have digit: "c \<noteq> CHR ''n'' \<and> c \<noteq> CHR ''t'' \<and> c \<noteq> CHR ''f'' \<and> c \<noteq> CHR ''N'' \<and> c \<noteq> CHR ''I'' \<and> c \<noteq> CHR ''-''" if "is_digit c" for c
    using that by (auto simp: is_digit_def)
  have no: "scan_literal (c # s) = None" and neg: "scan_literal (CHR ''-'' # c # s) = None" if "is_digit c" for c s
    using digit [OF that] by (simp_all add: scan_literal_def json_literals_def starts_with_def)
  obtain c cs where "str_nat (nat \<bar>i\<bar>) = c # cs" by (cases "str_nat (nat \<bar>i\<bar>)") auto
  moreover from this have "is_digit c" using str_nat_digits [of "nat \<bar>i\<bar>"] by simp
  ultimately show ?thesis using no neg by (auto simp: str_int_def)
qed

subsection \<open>Values are read back\<close>

text \<open>Separators that are the comma and the colon with blanks after them.\<close>

definition format_ok :: "json_format \<Rightarrow> bool" where
  "format_ok F \<longleftrightarrow>
     take 1 (jf_item F) = '','' \<and> list_all json_space (tl (jf_item F)) \<and>
     take 1 (jf_colon F) = '':'' \<and> list_all json_space (tl (jf_colon F))"

text \<open>A value without finite floats, nested in at most \<open>depth\<close> levels, that a \<open>dict\<close> can hold.\<close>

function reads_back :: "json_format \<Rightarrow> nat \<Rightarrow> json \<Rightarrow> bool" where
  "reads_back F depth (JFloat f) \<longleftrightarrow> (case f of FFin m e \<Rightarrow> False | _ \<Rightarrow> True)"
| "reads_back F depth (JInt i) \<longleftrightarrow> length (str_nat (nat \<bar>i\<bar>)) \<le> 4300"
| "reads_back F depth (JStr s) \<longleftrightarrow> text_ok F s"
| "reads_back F depth (JList xs) \<longleftrightarrow> 0 < depth \<and> (\<forall>x \<in> set xs. reads_back F (depth - 1) x)"
| "reads_back F depth (JDict d) \<longleftrightarrow>
     0 < depth \<and> distinct (map fst d) \<and> (\<forall>(k, v) \<in> set d. text_ok F k \<and> reads_back F (depth - 1) v)"
| "reads_back F depth JNull \<longleftrightarrow> True"
| "reads_back F depth (JBool b) \<longleftrightarrow> True"
  by pat_completeness auto
termination
  by (relation "measure (\<lambda>(F, depth, v). size v)") (auto intro: size_json_member simp del: json.size)

definition blank :: "string \<Rightarrow> bool" where
  "blank s \<longleftrightarrow> list_all json_space s"

lemma blank_simps [simp]: "blank []" "blank (x @ y) \<longleftrightarrow> blank x \<and> blank y"
  by (simp_all add: blank_def)

lemma blank_new_line [simp]: "blank (new_line F level)"
  by (auto simp: blank_def new_line_def json_space_def octet_def list_all_iff split: option.split)

lemma skip_blank: "blank b \<Longrightarrow> skip_space (b @ s) = skip_space s"
  by (simp add: skip_space_def blank_def dropWhile_append2 list_all_iff)

lemma skip_solid: "\<not> json_space c \<Longrightarrow> skip_space (c # s) = c # s"
  by (simp add: skip_space_def)

lemma not_space [simp]:
  "\<not> json_space (CHR 0x22)" "\<not> json_space (CHR '','')" "\<not> json_space (CHR '':'')" "\<not> json_space (CHR '']'')"
  "\<not> json_space (CHR ''}'')" "\<not> json_space (CHR ''['')" "\<not> json_space (CHR ''{'')"
  by (simp_all add: json_space_def octet_def)

lemma delimited_blank:
  assumes "blank b" and "c \<in> {CHR '','', CHR '']'', CHR ''}''}"
  shows "delimited (b @ c # s)"
proof (cases b)
  case (Cons x xs)
  then have "octet x \<in> {9, 10, 13, 32}" using assms(1) by (simp add: blank_def json_space_def)
  then have "\<not> is_digit x" "x \<noteq> CHR ''.''" "x \<noteq> CHR ''e''" "x \<noteq> CHR ''E''" by (auto simp: is_digit_def octet_def)
  then show ?thesis using Cons by (simp add: delimited_def)
qed (use assms(2) in \<open>auto simp: delimited_def is_digit_def\<close>)

text \<open>A text that starts with an ASCII character, neither a blank nor a closing bracket.\<close>

definition solid :: "string \<Rightarrow> bool" where
  "solid s \<longleftrightarrow> (\<exists>c cs. s = c # cs \<and> octet c < 128 \<and> \<not> json_space c \<and> c \<noteq> CHR '']'' \<and> c \<noteq> CHR ''}'')"

lemma skip_to_solid: "blank b \<Longrightarrow> solid t \<Longrightarrow> skip_space (b @ t @ s) = t @ s"
  by (auto simp: skip_blank solid_def skip_solid)

lemma format_separators:
  assumes "format_ok F"
  obtains b b' where "jf_item F = CHR '','' # b" "blank b" "jf_colon F = CHR '':'' # b'" "blank b'"
  using assms by (cases "jf_item F"; cases "jf_colon F") (auto simp: format_ok_def blank_def)

lemma scan_items_printed:
  assumes F: "format_ok F" and scan: "consumes scan" and close: "close = CHR '']'' \<or> close = CHR ''}''"
    and nl: "blank nl" "blank nl'"
  shows "\<forall>x \<in> set (v # vs). solid (t x) \<and> (\<forall>r. delimited r \<longrightarrow> scan (t x @ r) = Inr (x, r)) \<Longrightarrow>
    scan_items close scan (t v @ concat (map (\<lambda>x. jf_item F @ nl @ t x) vs) @ nl' @ close # r) = Inr (v # vs, r)"
proof (induction vs arbitrary: v)
  case Nil
  have "delimited (nl' @ close # r)" using nl close by (intro delimited_blank) auto
  moreover have "skip_space (nl' @ close # r) = close # r"
    using nl close by (auto simp: skip_blank skip_solid)
  ultimately show ?case using Nil by (subst scan_items_unguarded [OF scan]) simp
next
  case (Cons w vs)
  obtain b b' where b: "jf_item F = CHR '','' # b" "blank b" using F by (rule format_separators)
  define rest where "rest = t w @ concat (map (\<lambda>x. jf_item F @ nl @ t x) vs) @ nl' @ close # r"
  define tail where "tail = (b @ nl) @ rest"
  have shape: "concat (map (\<lambda>x. jf_item F @ nl @ t x) (w # vs)) @ nl' @ close # r = CHR '','' # tail"
    by (simp add: b tail_def rest_def)
  have "delimited ([] @ CHR '','' # tail)" by (intro delimited_blank) simp_all
  then have "scan (t v @ CHR '','' # tail) = Inr (v, CHR '','' # tail)" using Cons.prems by simp
  moreover have "skip_space tail = rest" using Cons.prems b(2) nl unfolding tail_def rest_def by (intro skip_to_solid) simp_all
  moreover have "scan_items close scan rest = Inr (w # vs, r)" using Cons.prems unfolding rest_def by (intro Cons.IH) simp
  moreover have "close \<noteq> CHR '',''" using close by auto
  ultimately show ?case
    unfolding shape by (subst scan_items_unguarded [OF scan]) (simp add: skip_solid)
qed

lemma bracketed_Cons:
  "bracketed F level l c (map t (v # vs)) @ r =
     l # new_line F (Suc level) @ t v @ concat (map (\<lambda>x. jf_item F @ new_line F (Suc level) @ t x) vs) @ new_line F level @ c # r"
  by (simp add: bracketed_def comp_def)

lemma scan_bracketed:
  assumes F: "format_ok F" and scan: "consumes scan" and close: "c = CHR '']'' \<or> c = CHR ''}''"
    and items: "\<forall>x \<in> set xs. solid (t x) \<and> (\<forall>r. delimited r \<longrightarrow> scan (t x @ r) = Inr (x, r))" and "xs \<noteq> []"
  shows "\<exists>s. bracketed F level l c (map t xs) @ r = l # s \<and> take 1 (skip_space s) \<noteq> [c] \<and> scan_items c scan (skip_space s) = Inr (xs, r)"
proof -
  obtain v vs where xs: "xs = v # vs" using assms(5) by (cases xs) auto
  define rest where "rest = t v @ concat (map (\<lambda>x. jf_item F @ new_line F (Suc level) @ t x) vs) @ new_line F level @ c # r"
  have "solid (t v)" using items xs by simp
  then have skip: "skip_space (new_line F (Suc level) @ rest) = rest" unfolding rest_def by (intro skip_to_solid) simp_all
  have "take 1 rest \<noteq> [c]" using \<open>solid (t v)\<close> close by (auto simp: rest_def solid_def)
  moreover have "scan_items c scan rest = Inr (xs, r)"
    unfolding rest_def xs using items unfolding xs by (intro scan_items_printed [OF F scan close]) simp_all
  ultimately show ?thesis
    unfolding xs bracketed_Cons rest_def [symmetric] by (intro exI [of _ "new_line F (Suc level) @ rest"]) (simp add: skip)
qed

lemma solid_dump:
  assumes "reads_back F depth v"
  shows "solid (dump_value F render level v)"
proof -
  have digit: "octet c < 128 \<and> \<not> json_space c \<and> c \<noteq> CHR '']'' \<and> c \<noteq> CHR ''}''" if "is_digit c \<or> c = CHR ''-''" for c
    using that by (auto simp: is_digit_def json_space_def octet_def)
  have "solid (str_int i)" for i
  proof -
    obtain c cs where "str_nat (nat \<bar>i\<bar>) = c # cs" by (cases "str_nat (nat \<bar>i\<bar>)") auto
    moreover from this have "is_digit c" using str_nat_digits [of "nat \<bar>i\<bar>"] by simp
    ultimately show ?thesis using digit by (auto simp: solid_def str_int_def)
  qed
  then show ?thesis
    using assms
    by (cases v) (auto simp: solid_def dump_string_def bracketed_def json_space_def octet_def split: pyfloat.splits list.split)
qed

lemma dict_update_distinct: "distinct (map fst (e @ d)) \<Longrightarrow> dict_update e d = e @ d"
proof (induction d arbitrary: e)
  case (Cons kv d)
  obtain k v where kv: "kv = (k, v)" by force
  have "AList.update k v e = e @ [(k, v)]" using Cons.prems kv by (intro AList_update_fresh) auto
  then have "dict_update e (kv # d) = dict_update (e @ [kv]) d" by (simp add: dict_update_def kv)
  also have "\<dots> = e @ kv # d" using Cons.prems by (subst Cons.IH) simp_all
  finally show ?case .
qed (simp add: dict_update_def)

lemma scan_object_item:
  assumes F: "format_ok F" and k: "text_ok F k" and solid: "solid t" and v: "scan (t @ r) = Inr (v, r)"
  shows "object_item scan ((dump_string F k @ jf_colon F @ t) @ r) = Inr ((k, v), r)"
proof -
  obtain b where b: "jf_colon F = CHR '':'' # b" "blank b" using F by (rule format_separators)
  define rest where "rest = b @ t @ r"
  have "skip_space rest = t @ r" unfolding rest_def using b(2) solid by (rule skip_to_solid)
  moreover have "(dump_string F k @ jf_colon F @ t) @ r = CHR 0x22 # (tl (dump_string F k) @ CHR '':'' # rest)"
    using scan_dump_string(1) [OF k, of "jf_colon F @ t @ r"] by (simp add: b rest_def)
  moreover have "scan_string (tl (dump_string F k) @ CHR '':'' # rest) = Some (k, CHR '':'' # rest)"
    using k by (rule scan_dump_string(2))
  ultimately show ?thesis using v by (simp add: object_item_def skip_solid)
qed

lemma scan_value_with: "\<exists>in_object in_array. scan_value depth = scan_with in_object in_array"
  by (cases depth) auto

lemma scan_with_string: "scan_string s = Some (x, r) \<Longrightarrow> scan_with in_object in_array (CHR 0x22 # s) = Inr (JStr x, r)"
  by (simp add: scan_with_def)

lemma scan_dump:
  "format_ok F \<Longrightarrow> reads_back F depth v \<Longrightarrow> delimited r \<Longrightarrow> scan_value depth (dump_value F render level v @ r) = Inr (v, r)"
proof (induction F depth v arbitrary: level r rule: reads_back.induct)
  case (1 F depth f)
  obtain in_object in_array where "scan_value depth = scan_with in_object in_array" using scan_value_with by blast
  then show ?case using 1
    by (auto simp: scan_with_def scan_literal_def json_literals_def starts_with_def split: pyfloat.splits)
next
  case (2 F depth i)
  obtain in_object in_array where s: "scan_value depth = scan_with in_object in_array" using scan_value_with by blast
  obtain c cs where c: "str_nat (nat \<bar>i\<bar>) = c # cs" by (cases "str_nat (nat \<bar>i\<bar>)") auto
  moreover from this have "is_digit c" using str_nat_digits [of "nat \<bar>i\<bar>"] by simp
  then have "c \<noteq> CHR 0x22" "c \<noteq> CHR ''{''" "c \<noteq> CHR ''[''" by (auto simp: is_digit_def)
  ultimately obtain d ds where d: "str_int i = d # ds" "d \<noteq> CHR 0x22" "d \<noteq> CHR ''{''" "d \<noteq> CHR ''[''"
    by (cases "i < 0") (auto simp: str_int_def)
  have "scan_with in_object in_array (str_int i @ r) = scan_number (str_int i @ r)"
    using scan_literal_number [of i r] d by (simp add: scan_with_def)
  then show ?case using 2 s scan_number_str_int by simp
next
  case (3 F depth s)
  obtain in_object in_array where "scan_value depth = scan_with in_object in_array" using scan_value_with by blast
  moreover have ok: "text_ok F s" using 3 by simp
  ultimately show ?case
    unfolding dump_value.simps scan_dump_string(1) [OF ok] by (simp only: scan_with_string [OF scan_dump_string(2) [OF ok]])
next
  case (4 F depth xs)
  then obtain d where d: "depth = Suc d" by (cases depth) auto
  show ?case
  proof (cases "xs = []")
    case True
    then show ?thesis by (simp add: d scan_with_def scan_array_def bracketed_def skip_solid)
  next
    case False
    have "\<forall>x \<in> set xs. solid (dump_value F render (Suc level) x) \<and>
        (\<forall>r. delimited r \<longrightarrow> scan_value d (dump_value F render (Suc level) x @ r) = Inr (x, r))"
      using 4 d solid_dump by fastforce
    from scan_bracketed [OF "4.prems"(1) consumes_value _ this False, of "CHR '']''" level "CHR ''[''" r]
    obtain s where "dump_value F render level (JList xs) @ r = CHR ''['' # s" and "take 1 (skip_space s) \<noteq> '']''"
      and "scan_items (CHR '']'') (scan_value d) (skip_space s) = Inr (xs, r)" by auto
    then show ?thesis by (simp add: d scan_with_def scan_array_def Let_def del: dump_value.simps)
  qed
next
  case (5 F depth m)
  then obtain d where d: "depth = Suc d" by (cases depth) auto
  show ?case
  proof (cases "m = []")
    case True
    then show ?thesis by (simp add: d scan_with_def scan_object_def bracketed_def skip_solid dict_update_def)
  next
    case False
    let ?t = "\<lambda>(k, v). dump_string F k @ jf_colon F @ dump_value F render (Suc level) v"
    have "solid (?t x) \<and> (\<forall>r. delimited r \<longrightarrow> object_item (scan_value d) (?t x @ r) = Inr (x, r))" if "x \<in> set m" for x
    proof -
      obtain k v where x: "x = (k, v)" by force
      have k: "text_ok F k" and v: "reads_back F d v" using "5.prems"(2) that x d by auto
      have "solid (dump_string F k @ s)" for s by (auto simp: solid_def dump_string_def octet_def)
      moreover have "object_item (scan_value d) (?t x @ r) = Inr (x, r)" if r: "delimited r" for r
        unfolding x prod.case
      proof (rule scan_object_item [OF "5.prems"(1) k solid_dump [OF v]])
        show "scan_value d (dump_value F render (Suc level) v @ r) = Inr (v, r)"
          using "5.IH" [OF \<open>x \<in> set m\<close> x [symmetric] "5.prems"(1)] v r d by simp
      qed
      ultimately show ?thesis by (simp add: x)
    qed
    then have "\<forall>x \<in> set m. solid (?t x) \<and> (\<forall>r. delimited r \<longrightarrow> object_item (scan_value d) (?t x @ r) = Inr (x, r))" by blast
    from scan_bracketed [OF "5.prems"(1) consumes_item [OF consumes_value] _ this False, of "CHR ''}''" level "CHR ''{''" r]
    obtain s where "dump_value F render level (JDict m) @ r = CHR ''{'' # s" and "take 1 (skip_space s) \<noteq> ''}''"
      and "scan_items (CHR ''}'') (object_item (scan_value d)) (skip_space s) = Inr (m, r)" by auto
    moreover have "dict_update [] m = m" using "5.prems"(2) dict_update_distinct [of "[]" m] by simp
    ultimately show ?thesis by (simp add: d scan_with_def scan_object_def Let_def del: dump_value.simps)
  qed
next
  case (6 F depth)
  obtain in_object in_array where "scan_value depth = scan_with in_object in_array" using scan_value_with by blast
  then show ?case by (simp add: scan_with_def scan_literal_def json_literals_def starts_with_def)
next
  case (7 F depth b)
  obtain in_object in_array where "scan_value depth = scan_with in_object in_array" using scan_value_with by blast
  then show ?case by (simp add: scan_with_def scan_literal_def json_literals_def starts_with_def)
qed

lemma reads_back_printable: "reads_back F depth v \<Longrightarrow> printable v"
  by (induction F depth v rule: reads_back.induct) auto

subsection \<open>ASCII texts\<close>

lemma ascii_hex_char: "n < 16 \<Longrightarrow> octet (hex_char n) < 128"
  by (simp add: hex_char_def)

lemma ascii_escape_u: "ascii_text (escape_u n)"
  by (simp add: escape_u_def ascii_hex_char) (simp add: octet_def)

lemma ascii_escape_byte: "octet c < 128 \<Longrightarrow> ascii_text (escape_byte c)"
  by (auto simp: escape_byte_def short_escapes_def ascii_escape_u octet_def)

lemma ascii_dump_string: "jf_ascii F \<Longrightarrow> ascii_text (dump_string F s)"
  by (auto simp: dump_string_def list_all_iff escape_point_def ascii_escape_u ascii_escape_byte)
    (simp_all add: octet_def)

lemma ascii_blank: "list_all json_space s \<Longrightarrow> ascii_text s"
  by (auto simp: ascii_text_def list_all_iff json_space_def octet_def)

lemma ascii_separator: "take 1 s = [c] \<Longrightarrow> list_all json_space (tl s) \<Longrightarrow> octet c < 128 \<Longrightarrow> ascii_text s"
  by (cases s) (auto simp: ascii_blank)

lemma ascii_bracketed:
  assumes "format_ok F" and "list_all ascii_text items" and "octet l < 128" "octet r < 128"
  shows "ascii_text (bracketed F level l r items)"
proof -
  have "ascii_text (jf_item F)"
    using assms(1) ascii_separator [of "jf_item F" "CHR '',''"] by (auto simp: format_ok_def octet_def)
  moreover have "ascii_text (new_line F n)" for n
    using blank_new_line ascii_blank by (simp add: blank_def)
  ultimately show ?thesis
    using assms by (cases items) (auto simp: bracketed_def list_all_iff)
qed

lemma ascii_str_int: "ascii_text (str_int i)"
proof -
  have "ascii_text (str_nat n)" for n
    using str_nat_digits [of n] by (auto simp: ascii_text_def list_all_iff is_digit_def octet_def)
  then show ?thesis by (simp add: str_int_def) (simp add: octet_def)
qed

lemma ascii_dump:
  "jf_ascii F \<Longrightarrow> format_ok F \<Longrightarrow> reads_back F depth v \<Longrightarrow> ascii_text (dump_value F render level v)"
proof (induction F render level v arbitrary: depth rule: dump_value.induct)
  case (4 F render level f)
  then show ?case by (auto simp: octet_def split: pyfloat.splits)
next
  case (6 F render level xs)
  then have "list_all ascii_text (map (dump_value F render (Suc level)) xs)" by (auto simp: list_all_iff)
  then show ?case using 6 by (simp add: ascii_bracketed octet_def)
next
  case (7 F render level d)
  have "ascii_text (jf_colon F)"
    using 7(3) ascii_separator [of "jf_colon F" "CHR '':''"] by (auto simp: format_ok_def octet_def)
  with 7 have "list_all ascii_text (map (\<lambda>(k, v). dump_string F k @ jf_colon F @ dump_value F render (Suc level) v) d)"
    by (fastforce simp: list_all_iff ascii_dump_string)
  then show ?case using 7 by (simp add: ascii_bracketed octet_def)
qed (auto simp: octet_def ascii_str_int ascii_dump_string)

subsection \<open>The round trip\<close>

text \<open>What is printed is read back, whatever blanks surround it.\<close>

theorem loads_dumps:
  assumes F: "format_ok F" and v: "reads_back F depth v" and "json_dumps F render v = Inr s" and "blank b"
  shows "json_loads depth (s @ b) = Loaded v"
proof -
  have s: "s = dump_value F render 0 v" using assms(3) by (simp add: json_dumps_def split: if_splits)
  have solid: "solid s" unfolding s using v by (rule solid_dump)
  have skip: "skip_space (s @ b) = s @ b" "skip_space b = []"
    using skip_to_solid [of "[]" s b] solid skip_blank [OF assms(4), of "[]"] by (simp_all add: skip_space_def)
  have "delimited b"
    using assms(4) by (cases b) (auto simp: delimited_def blank_def json_space_def is_digit_def octet_def)
  then have "scan_value depth (s @ b) = Inr (v, b)" unfolding s by (rule scan_dump [OF F v])
  moreover have "\<not> starts_with BOM (s @ b)"
    using solid by (auto simp: solid_def starts_with_def BOM_def octet_def)
  ultimately show ?thesis by (simp add: json_loads_def skip)
qed

end
