(* ===== verification/Quick_Rooms.thy ===== *)
theory Quick_Rooms
  imports Room_Routes Py_Json
begin

section \<open>Quick rooms (\<open>quick_rooms.py\<close>, \<open>api/quick_room_routes.py\<close>)\<close>

text \<open>
  The shortcuts a user keeps in \<open>config/quick_rooms.json\<close>: the store that reads the file anew for
  every request and replaces it atomically, and the two handlers on it. The conversions between the bytes
  of the file and a JSON value, and pydantic's conversions to \<open>int\<close> and \<open>str\<close>, are the fields of \<open>json_text\<close>;
  \<open>python_json_text\<close> is Python's \<open>json\<close> with the arguments of the code.
\<close>

subsection \<open>Records and their validation\<close>

record quick_room =
  qr_room_id :: int
  qr_short_id :: int
  qr_uid :: "int option"
  qr_uname :: string
  qr_title :: string
  qr_live_status :: int
  qr_added_at :: string

record quick_config =
  qc_version :: int
  qc_rooms :: "quick_room list"

text \<open>
  \<open>json.loads\<close> of the decoded bytes of a file, \<open>json.dumps(payload, ensure_ascii=False, indent=2)\<close>, and
  whether a \<open>str\<close> can be encoded as UTF-8.
\<close>

record json_text =
  jt_loads :: "string \<Rightarrow> loads_result"
  jt_dumps :: "json \<Rightarrow> py_exn + string"
  jt_encodes :: "string \<Rightarrow> bool"
  jt_int :: "json \<Rightarrow> int option" \<comment> \<open>None is a \<open>ValidationError\<close>\<close>
  jt_str :: "json \<Rightarrow> string option"

definition optional_field :: "message \<Rightarrow> string \<Rightarrow> 'a \<Rightarrow> (json \<Rightarrow> 'a option) \<Rightarrow> 'a option" where
  "optional_field d k v0 conv = (case map_of d k of None \<Rightarrow> Some v0 | Some v \<Rightarrow> conv v)"

definition int_or_none :: "json_text \<Rightarrow> json \<Rightarrow> int option option" where
  "int_or_none J v = (if v = JNull then Some None else map_option Some (jt_int J v))"

text \<open>\<open>QuickRoomRecord\<close>, with the bounds of its fields; an unknown key is ignored.\<close>

definition valid_quick_room :: "quick_room \<Rightarrow> bool" where
  "valid_quick_room r \<longleftrightarrow> 0 < qr_room_id r \<and> 0 \<le> qr_short_id r"

definition quick_room_of :: "json_text \<Rightarrow> json \<Rightarrow> quick_room option" where
  "quick_room_of J v =
     Option.bind (dict_instance v) (\<lambda>d.
     Option.bind (Option.bind (map_of d ''room_id'') (jt_int J)) (\<lambda>room_id.
     Option.bind (optional_field d ''short_id'' 0 (jt_int J)) (\<lambda>short_id.
     Option.bind (optional_field d ''uid'' None (int_or_none J)) (\<lambda>uid.
     Option.bind (optional_field d ''uname'' [] (jt_str J)) (\<lambda>uname.
     Option.bind (optional_field d ''title'' [] (jt_str J)) (\<lambda>title.
     Option.bind (optional_field d ''live_status'' 0 (jt_int J)) (\<lambda>live_status.
     Option.bind (Option.bind (map_of d ''added_at'') (jt_str J)) (\<lambda>added_at.
     let r = \<lparr>qr_room_id = room_id, qr_short_id = short_id, qr_uid = uid, qr_uname = uname, qr_title = title,
              qr_live_status = live_status, qr_added_at = added_at\<rparr>
     in if valid_quick_room r then Some r else None))))))))"

fun quick_rooms_of :: "json_text \<Rightarrow> json list \<Rightarrow> quick_room list option" where
  "quick_rooms_of J [] = Some []"
| "quick_rooms_of J (v # vs) =
     Option.bind (quick_room_of J v) (\<lambda>r. Option.bind (quick_rooms_of J vs) (\<lambda>rs. Some (r # rs)))"

definition quick_config_of :: "json_text \<Rightarrow> json \<Rightarrow> quick_config option" where
  "quick_config_of J v =
     Option.bind (dict_instance v) (\<lambda>d.
     Option.bind (optional_field d ''version'' 1 (jt_int J)) (\<lambda>version.
     Option.bind (optional_field d ''rooms'' [] (\<lambda>x. Option.bind (list_instance x) (quick_rooms_of J))) (\<lambda>rooms.
     Some \<lparr>qc_version = version, qc_rooms = rooms\<rparr>)))"

text \<open>\<open>model_dump(mode="json")\<close>.\<close>

definition quick_room_json :: "quick_room \<Rightarrow> json" where
  "quick_room_json r =
     JDict [(''room_id'', JInt (qr_room_id r)), (''short_id'', JInt (qr_short_id r)),
            (''uid'', case qr_uid r of None \<Rightarrow> JNull | Some i \<Rightarrow> JInt i), (''uname'', JStr (qr_uname r)),
            (''title'', JStr (qr_title r)), (''live_status'', JInt (qr_live_status r)),
            (''added_at'', JStr (qr_added_at r))]"

definition quick_config_json :: "quick_config \<Rightarrow> json" where
  "quick_config_json c =
     JDict [(''version'', JInt (qc_version c)), (''rooms'', JList (map quick_room_json (qc_rooms c)))]"

subsection \<open>The store\<close>

datatype store_error = QuickRoomConfigError string | StoreRaises py_exn

text \<open>The two messages of \<open>QuickRoomConfigError\<close>, without the path at their end.\<close>

definition CANNOT_READ :: string where
  "CANNOT_READ = map char_of
     [229, 191, 171, 230, 141, 183, 230, 136, 191, 233, 151, 180, 233, 133, 141, 231, 189, 174,
      230, 151, 160, 230, 179, 149, 232, 175, 187, 229, 143, 150, 58, 32 :: nat]"

definition CANNOT_SAVE :: string where
  "CANNOT_SAVE = map char_of
     [229, 191, 171, 230, 141, 183, 230, 136, 191, 233, 151, 180, 233, 133, 141, 231, 189, 174,
      230, 151, 160, 230, 179, 149, 228, 191, 157, 229, 173, 152, 58, 32 :: nat]"

text \<open>
  \<open>_read_unlocked\<close>. \<open>readable\<close> is what reading the file raises; of the exceptions that can occur only
  \<open>OSError\<close>, \<open>JSONDecodeError\<close> and \<open>ValidationError\<close> are turned into \<open>QuickRoomConfigError\<close>.
\<close>

definition read_store ::
    "json_text \<Rightarrow> (string \<Rightarrow> (py_exn + unit)) \<Rightarrow> string \<Rightarrow> file_system \<Rightarrow> store_error + quick_config" where
  "read_store J readable path fs =
     (case fs path of
        None \<Rightarrow> Inr \<lparr>qc_version = 1, qc_rooms = []\<rparr>
      | Some txt \<Rightarrow>
          (case readable path of
             Inl OSError \<Rightarrow> Inl (QuickRoomConfigError (CANNOT_READ @ path))
           | Inl e \<Rightarrow> Inl (StoreRaises e)
           | Inr _ \<Rightarrow>
               (case jt_loads J txt of
                  DecodeError \<Rightarrow> Inl (QuickRoomConfigError (CANNOT_READ @ path))
                | LoadsRaises e \<Rightarrow> Inl (StoreRaises e)
                | Loaded raw \<Rightarrow>
                    (case quick_config_of J raw of
                       None \<Rightarrow> Inl (QuickRoomConfigError (CANNOT_READ @ path))
                     | Some c \<Rightarrow> Inr c))))"

text \<open>
  \<open>_write_unlocked\<close>: the outcome and the file systems it passes through. \<open>sizes\<close> are the lengths of the
  staging file that reach the disk while it is written; the fault is the call that raises \<open>OSError\<close>, and
  for \<open>WriteFails\<close> the last length. A text that cannot be encoded is a \<open>ValueError\<close> after the staging file
  was created.
\<close>

datatype write_fault = NoFault | MkdirFails | OpenFails | WriteFails nat | ReplaceFails

definition write_store_steps ::
    "json_text \<Rightarrow> write_fault \<Rightarrow> nat list \<Rightarrow> string \<Rightarrow> quick_config \<Rightarrow> file_system
      \<Rightarrow> (store_error + unit) \<times> file_system list" where
  "write_store_steps J fault sizes path c fs =
     (let failed = Inl (QuickRoomConfigError (CANNOT_SAVE @ path)) in
      if fault = MkdirFails then (failed, [fs])
      else case jt_dumps J (quick_config_json c) of
        Inl e \<Rightarrow> (Inl (StoreRaises e), [fs])
      | Inr dumped \<Rightarrow>
          (let txt = dumped @ [char_of (10::nat)];
               partial = map (\<lambda>n. fs(tmp_path path \<mapsto> take n txt)) sizes;
               staged = fs(tmp_path path \<mapsto> txt)
           in if fault = OpenFails then (failed, [fs])
              else if \<not> jt_encodes J txt then (Inl (StoreRaises ValueError), [fs(tmp_path path \<mapsto> [])])
              else case fault of
                WriteFails n \<Rightarrow> (failed, partial @ [fs(tmp_path path \<mapsto> take n txt)])
              | ReplaceFails \<Rightarrow> (failed, partial @ [staged])
              | _ \<Rightarrow> (Inr (), partial @ [staged, (staged(path \<mapsto> txt))(tmp_path path := None)])))"

definition list_rooms ::
    "json_text \<Rightarrow> (string \<Rightarrow> (py_exn + unit)) \<Rightarrow> string \<Rightarrow> file_system \<Rightarrow> store_error + quick_room list" where
  "list_rooms J readable path fs = map_sum id qc_rooms (read_store J readable path fs)"

text \<open>The loop of \<open>add\<close>: the first record of the room is refreshed in place, or the record is appended.\<close>

fun upsert_room :: "quick_room \<Rightarrow> quick_room list \<Rightarrow> quick_room list" where
  "upsert_room r [] = [r]"
| "upsert_room r (existing # rest) =
     (if qr_room_id existing = qr_room_id r then r\<lparr>qr_added_at := qr_added_at existing\<rparr> # rest
      else existing # upsert_room r rest)"

definition add_room_steps ::
    "json_text \<Rightarrow> (string \<Rightarrow> (py_exn + unit)) \<Rightarrow> write_fault \<Rightarrow> nat list \<Rightarrow> string \<Rightarrow> quick_room \<Rightarrow> file_system
      \<Rightarrow> (store_error + quick_room list) \<times> file_system list" where
  "add_room_steps J readable fault sizes path r fs =
     (case read_store J readable path fs of
        Inl e \<Rightarrow> (Inl e, [fs])
      | Inr c \<Rightarrow>
          (let c' = c\<lparr>qc_rooms := upsert_room r (qc_rooms c)\<rparr> in
           case write_store_steps J fault sizes path c' fs of
             (Inl e, steps) \<Rightarrow> (Inl e, steps)
           | (Inr _, steps) \<Rightarrow> (Inr (qc_rooms c'), steps)))"

definition add_room ::
    "json_text \<Rightarrow> (string \<Rightarrow> (py_exn + unit)) \<Rightarrow> write_fault \<Rightarrow> string \<Rightarrow> quick_room \<Rightarrow> file_system
      \<Rightarrow> (store_error + quick_room list) \<times> file_system" where
  "add_room J readable fault path r fs = map_prod id last (add_room_steps J readable fault [] path r fs)"

subsection \<open>The handlers\<close>

text \<open>
  What the handlers call: JSON, \<open>str\<close> of a value, \<open>datetime.now(UTC).isoformat()\<close> at a time, and the
  path of the file.
\<close>

record quick_services =
  qv_json :: json_text
  qv_render :: "json \<Rightarrow> string"
  qv_iso_now :: "rat \<Rightarrow> string"
  qv_path :: string

definition store_failure :: "store_error \<Rightarrow> 'a reply" where
  "store_failure e = (case e of QuickRoomConfigError m \<Rightarrow> HttpError 500 (TextDetail m) | StoreRaises x \<Rightarrow> Crash (Py x))"

definition list_quick_rooms_route ::
    "quick_services \<Rightarrow> (string \<Rightarrow> (py_exn + unit)) \<Rightarrow> ('ws, 'w) app \<Rightarrow> quick_room list reply" where
  "list_quick_rooms_route Q readable app =
     (case list_rooms (qv_json Q) readable (qv_path Q) (ap_files app) of Inl e \<Rightarrow> store_failure e | Inr rooms \<Rightarrow> Reply rooms)"

definition valid_add_request :: "int \<Rightarrow> bool" where
  "valid_add_request room_id \<longleftrightarrow> 0 < room_id"

definition record_of_resolved :: "string \<Rightarrow> resolved_room \<Rightarrow> quick_room" where
  "record_of_resolved added_at room =
     \<lparr>qr_room_id = rr_room_id room, qr_short_id = rr_short_id room, qr_uid = rr_uid room, qr_uname = rr_uname room,
      qr_title = rr_title room, qr_live_status = rr_live_status room, qr_added_at = added_at\<rparr>"

text \<open>Nothing catches the \<open>ValidationError\<close> of the record, a \<open>ValueError\<close>.\<close>

definition add_quick_room_route ::
    "('ws, 'w) services \<Rightarrow> quick_services \<Rightarrow> (string \<Rightarrow> (py_exn + unit)) \<Rightarrow> write_fault \<Rightarrow> int \<Rightarrow> ('ws, 'w) app
      \<Rightarrow> quick_room list reply \<times> ('ws, 'w) app" where
  "add_quick_room_route S Q readable fault room_id app =
     (case resolve_room_route S (qv_render Q) room_id app of
        (HttpError status d, app1) \<Rightarrow> (HttpError status d, app1)
      | (Crash e, app1) \<Rightarrow> (Crash e, app1)
      | (Reply room, app1) \<Rightarrow>
          (let r = record_of_resolved (qv_iso_now Q (clock (sv_env S) (ap_world app1))) room in
           if \<not> valid_quick_room r then (Crash (Py ValueError), app1)
           else (case add_room (qv_json Q) readable fault (qv_path Q) r (ap_files app1) of
                   (Inl e, fs) \<Rightarrow> (store_failure e, app1\<lparr>ap_files := fs\<rparr>)
                 | (Inr rooms, fs) \<Rightarrow> (Reply rooms, app1\<lparr>ap_files := fs\<rparr>))))"

subsection \<open>What is written is read back\<close>

definition reads_plain :: "json_text \<Rightarrow> bool" where
  "reads_plain J \<longleftrightarrow> (\<forall>i. jt_int J (JInt i) = Some i) \<and> (\<forall>s. jt_str J (JStr s) = Some s)"

lemma quick_room_of_json:
  assumes "reads_plain J" and "valid_quick_room r"
  shows "quick_room_of J (quick_room_json r) = Some r"
proof -
  have "optional_field [(k, case qr_uid r of None \<Rightarrow> JNull | Some i \<Rightarrow> JInt i)] k None (int_or_none J) = Some (qr_uid r)" for k
    using assms(1) by (cases "qr_uid r") (simp_all add: optional_field_def int_or_none_def reads_plain_def)
  then show ?thesis
    using assms by (simp add: quick_room_of_def quick_room_json_def optional_field_def reads_plain_def Let_def valid_quick_room_def)
qed

lemma quick_rooms_of_json:
  assumes "reads_plain J" and "\<forall>r \<in> set rs. valid_quick_room r"
  shows "quick_rooms_of J (map quick_room_json rs) = Some rs"
  using assms(2) by (induction rs) (simp_all add: quick_room_of_json [OF assms(1)])

lemma quick_config_of_json:
  assumes "reads_plain J" and "\<forall>r \<in> set (qc_rooms c). valid_quick_room r"
  shows "quick_config_of J (quick_config_json c) = Some c"
  using assms(1) quick_rooms_of_json [OF assms]
  by (simp add: quick_config_of_def quick_config_json_def optional_field_def reads_plain_def)

lemma quick_room_of_valid: "quick_room_of J v = Some r \<Longrightarrow> valid_quick_room r"
  by (auto simp: quick_room_of_def bind_eq_Some_conv Let_def split: if_splits)

lemma quick_rooms_of_valid: "quick_rooms_of J vs = Some rs \<Longrightarrow> r \<in> set rs \<Longrightarrow> valid_quick_room r"
  by (induction vs arbitrary: rs) (auto simp: bind_eq_Some_conv dest: quick_room_of_valid)

lemma read_store_valid:
  assumes "read_store J readable path fs = Inr c"
  shows "\<forall>r \<in> set (qc_rooms c). valid_quick_room r"
proof (cases "fs path")
  case None
  with assms show ?thesis by (auto simp: read_store_def)
next
  case (Some content)
  then obtain raw where "quick_config_of J raw = Some c"
    using assms by (auto simp: read_store_def split: sum.splits py_exn.splits loads_result.splits option.splits)
  then have "qc_rooms c = [] \<or> (\<exists>vs. quick_rooms_of J vs = Some (qc_rooms c))"
    by (auto simp: quick_config_of_def optional_field_def bind_eq_Some_conv split: option.splits)
  then show ?thesis using quick_rooms_of_valid by auto
qed

lemma read_store_depends: "fs path = fs' path \<Longrightarrow> read_store J readable path fs = read_store J readable path fs'"
  by (simp add: read_store_def)

lemma tmp_path_neq [simp]: "tmp_path p \<noteq> p" "p \<noteq> tmp_path p"
  by (simp_all add: tmp_path_def)

subsection \<open>The update\<close>

definition refreshes :: "quick_room \<Rightarrow> quick_room list \<Rightarrow> quick_room list \<Rightarrow> bool" where
  "refreshes r old rooms \<longleftrightarrow>
     (if qr_room_id r \<in> qr_room_id ` set old then
        \<exists>before e after. old = before @ e # after \<and> qr_room_id r \<notin> qr_room_id ` set before \<and>
          qr_room_id e = qr_room_id r \<and> rooms = before @ r\<lparr>qr_added_at := qr_added_at e\<rparr> # after
      else rooms = old @ [r])"

lemma upsert_room_refreshes: "refreshes r old (upsert_room r old)"
proof (induction old)
  case Nil
  show ?case by (simp add: refreshes_def)
next
  case (Cons a old)
  show ?case
  proof (cases "qr_room_id a = qr_room_id r")
    case True
    then have "\<exists>before e after. a # old = before @ e # after \<and> qr_room_id r \<notin> qr_room_id ` set before \<and>
        qr_room_id e = qr_room_id r \<and> upsert_room r (a # old) = before @ r\<lparr>qr_added_at := qr_added_at e\<rparr> # after"
      by (intro exI [of _ "[]"] exI [of _ a] exI [of _ old]) simp
    then show ?thesis using True by (simp add: refreshes_def)
  next
    case new: False
    show ?thesis
    proof (cases "qr_room_id r \<in> qr_room_id ` set old")
      case True
      with Cons.IH obtain before e after where "old = before @ e # after" "qr_room_id r \<notin> qr_room_id ` set before"
          "qr_room_id e = qr_room_id r" "upsert_room r old = before @ r\<lparr>qr_added_at := qr_added_at e\<rparr> # after"
        unfolding refreshes_def by auto
      with new have "\<exists>before e after. a # old = before @ e # after \<and> qr_room_id r \<notin> qr_room_id ` set before \<and>
          qr_room_id e = qr_room_id r \<and> upsert_room r (a # old) = before @ r\<lparr>qr_added_at := qr_added_at e\<rparr> # after"
        by (intro exI [of _ "a # before"] exI [of _ e] exI [of _ after]) auto
      then show ?thesis using True by (simp add: refreshes_def)
    next
      case False
      with Cons.IH new show ?thesis by (auto simp: refreshes_def)
    qed
  qed
qed

lemma upsert_room_valid:
  "valid_quick_room r \<Longrightarrow> \<forall>e \<in> set old. valid_quick_room e \<Longrightarrow> \<forall>e \<in> set (upsert_room r old). valid_quick_room e"
proof (induction old)
  case (Cons a old)
  have "valid_quick_room (r\<lparr>qr_added_at := t\<rparr>)" for t using Cons.prems(1) by (simp add: valid_quick_room_def)
  with Cons show ?case by simp
qed simp

lemma write_store_steps_cases:
  assumes "write_store_steps J fault sizes path c fs = (r, steps)"
  obtains e where "r = Inl e" "steps = [fs]" "\<And>m. e = QuickRoomConfigError m \<Longrightarrow> fault \<noteq> NoFault \<and> m = CANNOT_SAVE @ path"
      "\<And>x. e = StoreRaises x \<Longrightarrow> jt_dumps J (quick_config_json c) = Inl x"
  | body where "r = Inl (StoreRaises ValueError)" "steps = [fs(tmp_path path \<mapsto> [])]"
      "jt_dumps J (quick_config_json c) = Inr body" "\<not> jt_encodes J (body @ [char_of (10::nat)])"
  | body sizes' where "r = Inl (QuickRoomConfigError (CANNOT_SAVE @ path))" "fault \<noteq> NoFault" "sizes' \<noteq> []"
      "steps = map (\<lambda>n. fs(tmp_path path \<mapsto> take n body)) sizes'"
  | body where "r = Inr ()" "fault = NoFault" "jt_encodes J (body @ [char_of (10::nat)])"
      "jt_dumps J (quick_config_json c) = Inr body"
      "steps = map (\<lambda>n. fs(tmp_path path \<mapsto> take n (body @ [char_of (10::nat)]))) sizes @
         [fs(tmp_path path \<mapsto> body @ [char_of (10::nat)]),
          (fs(tmp_path path \<mapsto> body @ [char_of (10::nat)], path \<mapsto> body @ [char_of (10::nat)]))(tmp_path path := None)]"
proof (cases "jt_dumps J (quick_config_json c)")
  case (Inl x)
  then show thesis using assms that(1) by (cases "fault = MkdirFails") (auto simp: write_store_steps_def Let_def)
next
  case (Inr body)
  let ?body = "body @ [char_of (10::nat)]"
  have upto: "map (\<lambda>n. fs(tmp_path path \<mapsto> take n ?body)) sizes @ [fs(tmp_path path \<mapsto> take n ?body)]
      = map (\<lambda>n. fs(tmp_path path \<mapsto> take n ?body)) (sizes @ [n])" for n
    by simp
  note cases = that
  have cut: thesis
    if h: "r = Inl (QuickRoomConfigError (CANNOT_SAVE @ path))" "fault \<noteq> NoFault"
      "steps = map (\<lambda>n. fs(tmp_path path \<mapsto> take n ?body)) sizes @ [fs(tmp_path path \<mapsto> take n ?body)]" for n
    using h by (intro cases(3) [of "sizes @ [n]" ?body]) simp_all
  show thesis
  proof (cases "fault = MkdirFails \<or> fault = OpenFails \<or> \<not> jt_encodes J ?body")
    case True
    then show thesis using assms that(1,2) Inr by (auto simp: write_store_steps_def Let_def split: if_splits)
  next
    case False
    then have encodes: "jt_encodes J ?body" by simp
    show thesis
    proof (cases fault)
      case NoFault
      then show thesis using assms Inr encodes by (intro cases(4)) (auto simp: write_store_steps_def Let_def)
    next
      case (WriteFails n)
      then show thesis using assms Inr encodes by (intro cut [of n]) (auto simp: write_store_steps_def Let_def)
    next
      case ReplaceFails
      then show thesis using assms Inr encodes by (intro cut [of "length ?body"]) (auto simp: write_store_steps_def Let_def)
    qed (use False in simp_all)
  qed
qed

lemma write_store_steps_files:
  assumes "write_store_steps J fault sizes path c fs = (r, steps)" and "fs' \<in> set steps"
  shows "fs' path = fs path \<or> fs' = last steps" and "p \<notin> {path, tmp_path path} \<Longrightarrow> fs' p = fs p"
  by (rule write_store_steps_cases [OF assms(1)]; use assms(2) in auto)+

lemma write_store_steps_last:
  assumes "write_store_steps J fault sizes path c fs = (r, steps)"
  shows "r = Inl e \<Longrightarrow> last steps path = fs path \<and>
      (case e of QuickRoomConfigError m \<Rightarrow> fault \<noteq> NoFault \<and> m = CANNOT_SAVE @ path
       | StoreRaises x \<Rightarrow> jt_dumps J (quick_config_json c) = Inl x \<or> x = ValueError)"
    and "r = Inr u \<Longrightarrow> fault = NoFault \<and> last steps (tmp_path path) = None \<and>
      (\<exists>body. jt_dumps J (quick_config_json c) = Inr body \<and> jt_encodes J (body @ [char_of (10::nat)]) \<and>
        last steps path = Some (body @ [char_of (10::nat)]))"
  by (rule write_store_steps_cases [OF assms]; auto simp: last_map split: store_error.split)+

subsection \<open>Python's JSON\<close>

text \<open>The arguments of \<open>json.dumps\<close>; the item separator has no blank when there is an indentation.\<close>

definition indented :: json_format where
  "indented = \<lparr>jf_ascii = False, jf_indent = Some 2, jf_item = '','', jf_colon = '': ''\<rparr>"

text \<open>
  \<open>UnicodeDecodeError\<close> is no \<open>JSONDecodeError\<close>. \<open>render\<close> is the text of a float, \<open>to_int\<close> and \<open>to_str\<close> are
  the conversions of pydantic.
\<close>

definition python_json_text ::
    "nat \<Rightarrow> (pyfloat \<Rightarrow> string) \<Rightarrow> (json \<Rightarrow> int option) \<Rightarrow> (json \<Rightarrow> string option) \<Rightarrow> json_text" where
  "python_json_text depth render to_int to_str =
     \<lparr>jt_loads = (\<lambda>s. if utf8_decode True s = None then LoadsRaises ValueError else json_loads depth s),
      jt_dumps = json_dumps indented render, jt_encodes = (\<lambda>s. utf8_decode True s \<noteq> None),
      jt_int = to_int, jt_str = to_str\<rparr>"

lemma reads_back_quick_config:
  assumes "3 \<le> depth" and "printable (quick_config_json c)"
  shows "reads_back indented depth (quick_config_json c)"
  using assms by (auto simp: quick_config_json_def quick_room_json_def text_ok_def indented_def split: option.splits)

lemma quick_file_read_back:
  assumes "3 \<le> depth" and "json_dumps indented render (quick_config_json c) = Inr body"
  shows "json_loads depth (body @ [char_of (10::nat)]) = Loaded (quick_config_json c)"
proof (rule loads_dumps)
  show "json_dumps indented render (quick_config_json c) = Inr body" by (rule assms)
  then show "reads_back indented depth (quick_config_json c)"
    using reads_back_quick_config [OF assms(1)] by (simp add: json_dumps_def split: if_splits)
qed (simp_all add: format_ok_def indented_def json_space_def blank_def octet_def)

subsection \<open>Properties\<close>

text \<open>The text of a store, as far as it is JSON of Python.\<close>

lemma add_room_steps_written:
  assumes "read_store J readable path fs = Inr c" and "valid_quick_room r" and "reads_plain J"
    and "\<And>body c'. jt_dumps J (quick_config_json c') = Inr body \<Longrightarrow> jt_encodes J (body @ [char_of (10::nat)]) \<Longrightarrow>
      jt_loads J (body @ [char_of (10::nat)]) = Loaded (quick_config_json c')"
    and "readable path = Inr ()"
    and "add_room_steps J readable fault sizes path r fs = (Inr rooms, steps)"
  shows "fault = NoFault \<and> last steps (tmp_path path) = None \<and>
    list_rooms J readable path (last steps) = Inr rooms \<and> refreshes r (qc_rooms c) rooms"
proof -
  let ?c = "c\<lparr>qc_rooms := upsert_room r (qc_rooms c)\<rparr>"
  have rooms: "rooms = qc_rooms ?c" and w: "write_store_steps J fault sizes path ?c fs = (Inr (), steps)"
    using assms(1,6) by (auto simp: add_room_steps_def Let_def split: prod.splits sum.splits)
  from write_store_steps_last(2) [OF w refl] obtain body where
    body: "jt_dumps J (quick_config_json ?c) = Inr body" "jt_encodes J (body @ [char_of (10::nat)])"
      "last steps path = Some (body @ [char_of (10::nat)])" and rest: "fault = NoFault" "last steps (tmp_path path) = None"
    by blast
  have "\<forall>e \<in> set (qc_rooms ?c). valid_quick_room e"
    using upsert_room_valid [OF assms(2) read_store_valid [OF assms(1)]] by simp
  from quick_config_of_json [OF assms(3) this] assms(4) [OF body(1,2)]
  have "list_rooms J readable path (last steps) = Inr (qc_rooms ?c)"
    by (simp add: list_rooms_def read_store_def body(3) assms(5))
  with rest show ?thesis unfolding rooms by (simp add: upsert_room_refreshes)
qed

text \<open>
  C26. Adding a shortcut to a store that can be read. The file always holds the old or the new list,
  whatever step the process stops at, and no other file but the staging file changes. A failure is an
  I/O error, which is reported as such, or a value that Python cannot write as JSON text, and leaves the
  list as it was. Otherwise the text on disk is read back, by the JSON of Python, as exactly the list of
  the reply: the first record of the room with its fresh data and its original creation time, or the
  new record at the end, and every other record as it was.
\<close>

theorem add_room_correct:
  assumes "read_store (python_json_text depth render to_int to_str) readable path fs = Inr c" and "readable path = Inr ()"
    and "valid_quick_room r" and "reads_plain (python_json_text depth render to_int to_str)" and "3 \<le> depth"
    and "add_room_steps (python_json_text depth render to_int to_str) readable fault sizes path r fs = (result, steps)"
  shows "(\<forall>fs' \<in> set steps. (fs' path = fs path \<or> fs' path = last steps path) \<and>
      (\<forall>p. p \<notin> {path, tmp_path path} \<longrightarrow> fs' p = fs p)) \<and>
    (case result of
       Inl e \<Rightarrow> (case e of QuickRoomConfigError m \<Rightarrow> fault \<noteq> NoFault \<and> m = CANNOT_SAVE @ path | StoreRaises x \<Rightarrow> x = ValueError) \<and>
         list_rooms (python_json_text depth render to_int to_str) readable path (last steps) = Inr (qc_rooms c)
     | Inr rooms \<Rightarrow> fault = NoFault \<and> last steps (tmp_path path) = None \<and>
         list_rooms (python_json_text depth render to_int to_str) readable path (last steps) = Inr rooms \<and>
         refreshes r (qc_rooms c) rooms)"
proof -
  let ?J = "python_json_text depth render to_int to_str"
  let ?c = "c\<lparr>qc_rooms := upsert_room r (qc_rooms c)\<rparr>"
  obtain w where w: "write_store_steps ?J fault sizes path ?c fs = (w, steps)"
    and result: "result = map_sum id (\<lambda>_. qc_rooms ?c) w"
    using assms(1,6) by (auto simp: add_room_steps_def Let_def split: prod.splits sum.splits)
  have files: "\<forall>fs' \<in> set steps. (fs' path = fs path \<or> fs' path = last steps path) \<and> (\<forall>p. p \<notin> {path, tmp_path path} \<longrightarrow> fs' p = fs p)"
    using write_store_steps_files [OF w] by blast
  show ?thesis
  proof (cases w)
    case (Inl e)
    with write_store_steps_last(1) [OF w] have last: "last steps path = fs path"
      "case e of QuickRoomConfigError m \<Rightarrow> fault \<noteq> NoFault \<and> m = CANNOT_SAVE @ path | StoreRaises x \<Rightarrow> x = ValueError"
      by (auto simp: python_json_text_def json_dumps_def split: store_error.splits if_splits)
    then have "list_rooms ?J readable path (last steps) = Inr (qc_rooms c)"
      using assms(1) read_store_depends [of "last steps" path fs] by (simp add: list_rooms_def)
    with Inl result last files show ?thesis by simp
  next
    case (Inr u)
    have loads: "jt_loads ?J (body @ [char_of (10::nat)]) = Loaded (quick_config_json c')"
      if h: "jt_dumps ?J (quick_config_json c') = Inr body" "jt_encodes ?J (body @ [char_of (10::nat)])" for body c'
      using h quick_file_read_back [OF assms(5), of render c' body] by (simp add: python_json_text_def)
    have "add_room_steps ?J readable fault sizes path r fs = (Inr (qc_rooms ?c), steps)"
      using assms(6) result Inr by simp
    from add_room_steps_written [OF assms(1,3,4) loads assms(2) this] result Inr files show ?thesis by simp
  qed
qed

text \<open>A file with one room, which is refreshed.\<close>

definition quick_witness :: "string \<Rightarrow> quick_config" where
  "quick_witness title =
     \<lparr>qc_version = 1,
      qc_rooms = [\<lparr>qr_room_id = 6, qr_short_id = 0, qr_uid = None, qr_uname = ''a'', qr_title = title, qr_live_status = 0,
        qr_added_at = ''2024''\<rparr>]\<rparr>"

definition json_text_witness :: json_text where
  "json_text_witness = python_json_text 3 (\<lambda>_. []) int_instance str_instance"

definition quick_text_witness :: "string \<Rightarrow> string" where
  "quick_text_witness title = dump_value indented (\<lambda>_. []) 0 (quick_config_json (quick_witness title))"

lemma quick_text_ascii: "ascii_text (quick_text_witness ''old'')" "ascii_text (quick_text_witness ''new'')"
  by code_simp+

lemma quick_text_dumped: "json_dumps indented (\<lambda>_. []) (quick_config_json (quick_witness title)) = Inr (quick_text_witness title)"
proof -
  have "length (str_nat n) \<le> 4300" if "n < 10" for n
    by (subst str_nat.simps) (simp add: that)
  then show ?thesis
    by (simp add: json_dumps_def quick_text_witness_def quick_config_json_def quick_room_json_def quick_witness_def)
qed

definition quick_services_witness :: quick_services where
  "quick_services_witness =
     \<lparr>qv_json = json_text_witness, qv_render = (\<lambda>_. []), qv_iso_now = (\<lambda>t. ''2025''), qv_path = ''q''\<rparr>"

lemma add_room_correct_witness:
  "\<exists>steps. add_room_steps json_text_witness (\<lambda>_. Inr ()) NoFault [2] ''q'' (hd (qc_rooms (quick_witness ''new''))\<lparr>qr_added_at := ''2025''\<rparr>)
       [''q'' \<mapsto> quick_text_witness ''old'' @ [char_of (10::nat)]] = (Inr (qc_rooms (quick_witness ''new'')), steps) \<and>
     list_rooms json_text_witness (\<lambda>_. Inr ()) ''q'' (last steps) = Inr (qc_rooms (quick_witness ''new''))"
proof -
  let ?r = "hd (qc_rooms (quick_witness ''new''))\<lparr>qr_added_at := ''2025''\<rparr>"
  let ?fs = "[''q'' \<mapsto> quick_text_witness ''old'' @ [char_of (10::nat)]]"
  have ascii: "utf8_decode True (t @ [char_of (10::nat)]) \<noteq> None" if "ascii_text t" for t
    using that utf8_decode_ascii [of "t @ [char_of (10::nat)]"] by (simp add: octet_def)
  have plain: "reads_plain json_text_witness" by (simp add: reads_plain_def json_text_witness_def python_json_text_def)
  have valid: "valid_quick_room ?r" "\<forall>r \<in> set (qc_rooms (quick_witness ''old'')). valid_quick_room r"
    by (simp_all add: valid_quick_room_def quick_witness_def)
  have "json_loads 3 (quick_text_witness ''old'' @ [char_of (10::nat)]) = Loaded (quick_config_json (quick_witness ''old''))"
    by (rule quick_file_read_back [OF _ quick_text_dumped]) simp
  then have read: "read_store json_text_witness (\<lambda>_. Inr ()) ''q'' ?fs = Inr (quick_witness ''old'')"
    using quick_config_of_json [OF plain valid(2)] ascii [OF quick_text_ascii(1)]
    by (simp add: read_store_def) (simp add: json_text_witness_def python_json_text_def)
  have upsert: "(quick_witness ''old'')\<lparr>qc_rooms := qc_rooms (quick_witness ''new'')\<rparr> = quick_witness ''new''"
    by (simp add: quick_witness_def)
  have rooms: "upsert_room ?r (qc_rooms (quick_witness ''old'')) = qc_rooms (quick_witness ''new'')"
    by (simp add: quick_witness_def)
  obtain result steps where s: "add_room_steps json_text_witness (\<lambda>_. Inr ()) NoFault [2] ''q'' ?r ?fs = (result, steps)"
    by force
  have "jt_dumps json_text_witness (quick_config_json (quick_witness ''new'')) = Inr (quick_text_witness ''new'')"
    "jt_encodes json_text_witness (quick_text_witness ''new'' @ [char_of (10::nat)])"
    using ascii [OF quick_text_ascii(2)] quick_text_dumped by (simp_all add: json_text_witness_def python_json_text_def)
  with s have result: "result = Inr (qc_rooms (quick_witness ''new''))"
    by (auto simp: add_room_steps_def read write_store_steps_def Let_def upsert rooms simp del: upsert_room.simps)
  have "(case result of Inl e \<Rightarrow> False | Inr rooms \<Rightarrow> list_rooms json_text_witness (\<lambda>_. Inr ()) ''q'' (last steps) = Inr rooms)"
    using add_room_correct [OF read [unfolded json_text_witness_def] refl valid(1) plain [unfolded json_text_witness_def] _ s [unfolded json_text_witness_def]]
      result by (simp add: json_text_witness_def)
  with s result show ?thesis by simp
qed

end
