(* ===== verification/Local_Token.thy ===== *)
theory Local_Token
  imports Py_Urls
begin

section \<open>The host and token guard (\<open>api/middleware.py\<close>, \<open>config.py\<close>)\<close>

text \<open>
  \<open>LocalTokenMiddleware.dispatch\<close> decides whether an HTTP request reaches its handler. A request is
  what the middleware reads of it: the path, two headers and the \<open>token\<close> parameter of the query.
  The answer is to forward it or to reject it with a status; an exception is the left summand.
\<close>

subsection \<open>The process-wide token\<close>

text \<open>
  \<open>Settings.LOCAL_TOKEN\<close> over the module-level cache; \<open>fresh\<close> is the result of \<open>token_hex(16)\<close>.
\<close>

definition LOCAL_TOKEN :: "string \<Rightarrow> string option \<Rightarrow> string \<times> string option" where
  "LOCAL_TOKEN fresh cache = (case cache of None \<Rightarrow> (fresh, Some fresh) | Some t \<Rightarrow> (t, Some t))"

subsection \<open>Requests and paths\<close>

record web_request =
  wr_path :: string
  wr_host :: "string option"
  wr_authorization :: "string option"
  wr_query_token :: string

datatype verdict = Forward | Reject nat

definition FULLY_EXEMPT_PATH_PREFIXES :: "string list" where
  "FULLY_EXEMPT_PATH_PREFIXES = [''/health'', ''/openapi'', ''/docs'', ''/redoc'']"

definition TOKEN_EXEMPT_PATH_PREFIXES :: "string list" where
  "TOKEN_EXEMPT_PATH_PREFIXES = [''/api/auth/bootstrap'']"

definition PROTECTED_PATH_PREFIXES :: "string list" where
  "PROTECTED_PATH_PREFIXES = [''/api'', ''/ws'']"

definition ALLOWED_HOSTS :: "string list" where
  "ALLOWED_HOSTS = [''localhost'', ''127.0.0.1'']"

definition under_prefix :: "string list \<Rightarrow> string \<Rightarrow> bool" where
  "under_prefix prefixes path \<longleftrightarrow> list_ex (\<lambda>p. path = p \<or> starts_with (p @ ''/'') path) prefixes"

definition is_fully_exempt :: "string \<Rightarrow> bool" where
  "is_fully_exempt path = under_prefix FULLY_EXEMPT_PATH_PREFIXES path"

definition is_token_exempt :: "string \<Rightarrow> bool" where
  "is_token_exempt path = under_prefix TOKEN_EXEMPT_PATH_PREFIXES path"

definition is_protected :: "string \<Rightarrow> bool" where
  "is_protected path = under_prefix PROTECTED_PATH_PREFIXES path"

definition is_ws_path :: "string \<Rightarrow> bool" where
  "is_ws_path path \<longleftrightarrow> starts_with ''/ws'' path \<or> starts_with ''/api/ws'' path"

subsection \<open>Credentials\<close>

definition extract_bearer :: "string option \<Rightarrow> string option" where
  "extract_bearer authorization_header =
     (case authorization_header of
        None \<Rightarrow> None
      | Some h \<Rightarrow>
          (if h = [] then None
           else case partition_at (CHR '' '') h of
             (scheme, found, token) \<Rightarrow> if found \<and> scheme = ''Bearer'' then Some token else None))"

definition host_is_allowed :: "(string \<Rightarrow> bool) \<Rightarrow> web_request \<Rightarrow> py_exn + bool" where
  "host_is_allowed netloc_ok rq =
     (case wr_host rq of
        None \<Rightarrow> Inr False
      | Some raw_host \<Rightarrow>
          (if raw_host = [] then Inr False
           else case urlsplit netloc_ok (''//'' @ raw_host) of
             None \<Rightarrow> Inl ValueError
           | Some parsed \<Rightarrow> Inr (hostname parsed \<in> set ALLOWED_HOSTS)))"

text \<open>\<open>len\<close> counts code points: every byte of the encoding but the continuation bytes.\<close>

definition py_len :: "string \<Rightarrow> nat" where
  "py_len s = length (filter (\<lambda>c. \<not> (128 \<le> (of_char c :: nat) \<and> (of_char c :: nat) < 192)) s)"

definition ascii_string :: "string \<Rightarrow> bool" where
  "ascii_string s \<longleftrightarrow> list_all (\<lambda>c. (of_char c :: nat) < 128) s"

text \<open>\<open>compare_digest\<close> raises \<open>TypeError\<close> on a string that is not ASCII.\<close>

definition token_matches :: "string \<Rightarrow> string \<Rightarrow> py_exn + bool" where
  "token_matches supplied expected =
     (if py_len supplied \<noteq> py_len expected then Inr False
      else if \<not> ascii_string supplied \<or> \<not> ascii_string expected then Inl TypeError
      else Inr (supplied = expected))"

definition request_carries_valid_token :: "string \<Rightarrow> web_request \<Rightarrow> py_exn + bool" where
  "request_carries_valid_token expected rq =
     (case extract_bearer (wr_authorization rq) of
        Some bearer \<Rightarrow> token_matches bearer expected
      | None \<Rightarrow>
          if is_ws_path (wr_path rq) then
            (if wr_query_token rq = [] then Inr False else token_matches (wr_query_token rq) expected)
          else Inr False)"

subsection \<open>The gate\<close>

definition dispatch :: "(string \<Rightarrow> bool) \<Rightarrow> string \<Rightarrow> web_request \<Rightarrow> py_exn + verdict" where
  "dispatch netloc_ok expected rq =
     (let path = wr_path rq in
      if is_fully_exempt path then Inr Forward
      else if \<not> is_protected path then Inr Forward
      else bind_res (host_is_allowed netloc_ok rq) (\<lambda>allowed.
        if \<not> allowed then Inr (Reject 403)
        else if is_token_exempt path then Inr Forward
        else bind_res (request_carries_valid_token expected rq) (\<lambda>valid.
          if \<not> valid then Inr (Reject 401) else Inr Forward)))"

subsection \<open>Properties\<close>

lemma ascii_py_len: "ascii_string s \<Longrightarrow> py_len s = length s"
proof -
  assume "ascii_string s"
  then have "filter (\<lambda>c. \<not> (128 \<le> (of_char c :: nat) \<and> (of_char c :: nat) < 192)) s = s"
    by (auto simp: ascii_string_def list_all_iff filter_id_conv)
  then show ?thesis by (simp add: py_len_def)
qed

lemma token_matches_True:
  "ascii_string expected \<Longrightarrow> token_matches supplied expected = Inr True \<longleftrightarrow> supplied = expected"
  by (auto simp: token_matches_def)

lemma extract_bearer_Some: "extract_bearer a = Some t \<longleftrightarrow> a = Some (''Bearer '' @ t)"
proof
  assume "extract_bearer a = Some t"
  then obtain h where h: "a = Some h" "partition_at (CHR '' '') h = (''Bearer'', True, t)"
    by (auto simp: extract_bearer_def split: option.splits prod.splits if_splits)
  from partition_at_found [OF h(2)] h(1) show "a = Some (''Bearer '' @ t)" by simp
next
  assume "a = Some (''Bearer '' @ t)"
  moreover have "partition_at (CHR '' '') (''Bearer'' @ CHR '' '' # t) = (''Bearer'', True, t)" by (rule partition_at_append) simp
  ultimately show "extract_bearer a = Some t" by (simp add: extract_bearer_def)
qed

text \<open>A protected path is never exempt from the host guard.\<close>

lemma starts_with_iff: "starts_with p s \<longleftrightarrow> (\<exists>r. s = p @ r)"
  by (auto simp: starts_with_def) (metis append_take_drop_id)

lemma protected_not_exempt: "is_protected path \<Longrightarrow> \<not> is_fully_exempt path"
  by (auto simp: is_protected_def is_fully_exempt_def under_prefix_def PROTECTED_PATH_PREFIXES_def
      FULLY_EXEMPT_PATH_PREFIXES_def starts_with_iff)

lemma dispatch_forward:
  assumes "is_protected (wr_path rq)" and "ascii_string token" and "token \<noteq> []"
  shows "dispatch netloc_ok token rq = Inr Forward \<longleftrightarrow>
      host_is_allowed netloc_ok rq = Inr True \<and>
      (is_token_exempt (wr_path rq) \<or> wr_authorization rq = Some (''Bearer '' @ token) \<or>
       (is_ws_path (wr_path rq) \<and> (\<forall>t. wr_authorization rq \<noteq> Some (''Bearer '' @ t)) \<and> wr_query_token rq = token))"
proof -
  have np: "\<not> is_fully_exempt (wr_path rq)" using assms(1) by (rule protected_not_exempt)
  have valid: "request_carries_valid_token token rq = Inr True \<longleftrightarrow>
      wr_authorization rq = Some (''Bearer '' @ token) \<or>
      (is_ws_path (wr_path rq) \<and> (\<forall>t. wr_authorization rq \<noteq> Some (''Bearer '' @ t)) \<and> wr_query_token rq = token)"
  proof (cases "extract_bearer (wr_authorization rq)")
    case None
    then have "\<forall>t. wr_authorization rq \<noteq> Some (''Bearer '' @ t)" by (metis extract_bearer_Some option.distinct(1))
    then show ?thesis
      using None assms(3) by (auto simp: request_carries_valid_token_def token_matches_True [OF assms(2)])
  next
    case (Some bearer)
    then have "wr_authorization rq = Some (''Bearer '' @ bearer)" by (simp only: extract_bearer_Some)
    then show ?thesis
      using Some by (auto simp: request_carries_valid_token_def token_matches_True [OF assms(2)])
  qed
  show ?thesis
    unfolding valid [symmetric] using np assms(1)
    by (cases "host_is_allowed netloc_ok rq"; cases "request_carries_valid_token token rq") (auto simp: dispatch_def Let_def)
qed

text \<open>
  C14. A request under \<open>/api\<close> or \<open>/ws\<close> reaches its handler exactly when its host is local and, unless
  it is for the bootstrap path \<open>/api/auth/bootstrap\<close> or a path below it, which needs no token, it
  carries the token: in the header \<open>Authorization: Bearer TOKEN\<close>, or, on a
  socket path without a bearer header, as the query parameter. On a host that is not local the
  answer is 403 and does not depend on the token, so it cannot be used to probe the token.
\<close>

theorem protected_path_needs_token:
  assumes "is_protected (wr_path rq)" and "ascii_string token" and "token \<noteq> []"
  shows "(dispatch netloc_ok token rq = Inr Forward \<longleftrightarrow>
      host_is_allowed netloc_ok rq = Inr True \<and>
      (is_token_exempt (wr_path rq) \<or> wr_authorization rq = Some (''Bearer '' @ token) \<or>
       (is_ws_path (wr_path rq) \<and> (\<forall>t. wr_authorization rq \<noteq> Some (''Bearer '' @ t)) \<and> wr_query_token rq = token))) \<and>
    (is_token_exempt (wr_path rq) \<longleftrightarrow>
      wr_path rq = ''/api/auth/bootstrap'' \<or> starts_with ''/api/auth/bootstrap/'' (wr_path rq)) \<and>
    (host_is_allowed netloc_ok rq = Inr False \<longrightarrow> (\<forall>other. dispatch netloc_ok other rq = Inr (Reject 403)))"
proof -
  have "\<not> is_fully_exempt (wr_path rq)" using assms(1) by (rule protected_not_exempt)
  then have "dispatch netloc_ok other rq = Inr (Reject 403)" if "host_is_allowed netloc_ok rq = Inr False" for other
    using that assms(1) by (simp add: dispatch_def Let_def)
  moreover have "is_token_exempt (wr_path rq) \<longleftrightarrow>
      wr_path rq = ''/api/auth/bootstrap'' \<or> starts_with ''/api/auth/bootstrap/'' (wr_path rq)"
    by (simp add: is_token_exempt_def under_prefix_def TOKEN_EXEMPT_PATH_PREFIXES_def)
  ultimately show ?thesis unfolding dispatch_forward [OF assms] by blast
qed

definition request_witness :: web_request where
  "request_witness =
     \<lparr>wr_path = ''/api/ban'', wr_host = Some ''LocalHost:8000'', wr_authorization = Some ''Bearer 0f'', wr_query_token = []\<rparr>"

lemma protected_path_needs_token_witness:
  "dispatch (\<lambda>_. True) ''0f'' request_witness = Inr Forward"
proof -
  have "is_protected (wr_path request_witness)" and "ascii_string ''0f''" and "''0f'' \<noteq> []"
    by (simp_all add: request_witness_def is_protected_def under_prefix_def PROTECTED_PATH_PREFIXES_def starts_with_def ascii_string_def)
  moreover have "host_is_allowed (\<lambda>_. True) request_witness = Inr True"
    by code_simp
  ultimately show ?thesis
    using protected_path_needs_token [of request_witness "''0f''" "\<lambda>_. True"] by (simp add: request_witness_def)
qed

end
