(* ===== verification/Auth_Routes.thy ===== *)
theory Auth_Routes
  imports App_State Local_Token
begin

section \<open>Login routes and startup (\<open>api/auth_routes.py\<close>, \<open>main.py\<close>)\<close>

text \<open>
  The handlers of the login flow and the start of the process. The passport client, the readability
  of files and the path of the \<open>.env\<close> file are the fields of \<open>login_services\<close>; \<open>lv_passport\<close> is None when
  the lifespan did not run.
\<close>

record 'w login_services =
  lv_passport :: "'w passport option"
  lv_readable :: "string \<Rightarrow> (py_exn + unit)"
  lv_env_path :: string

text \<open>What leaves a handler when a login function raises.\<close>

definition login_exn :: "login_error \<Rightarrow> exn" where
  "login_exn e = (case e of Raised x \<Rightarrow> x | _ \<Rightarrow> Py (OtherError ''QrLoginError''))"

definition get_http_client :: "'w login_services \<Rightarrow> reply_detail + 'w passport" where
  "get_http_client L =
     (case lv_passport L of
        None \<Rightarrow> Inl (TextDetail ''http client not initialised'')
      | Some P \<Rightarrow> Inr P)"

subsection \<open>Bootstrap and status\<close>

definition auth_bootstrap :: "string \<Rightarrow> ('ws, 'w) app \<Rightarrow> string reply \<times> ('ws, 'w) app" where
  "auth_bootstrap fresh app = (case LOCAL_TOKEN fresh (ap_token app) of (t, cache) \<Rightarrow> (Reply t, app\<lparr>ap_token := cache\<rparr>))"

definition auth_status :: "('ws, 'w) app \<Rightarrow> auth_state" where
  "auth_status app = au_state (ap_auth app)"

definition auth_me :: "('ws, 'w) services \<Rightarrow> ('ws, 'w) app \<Rightarrow> (string \<times> int) reply \<times> ('ws, 'w) app" where
  "auth_me S app =
     (if au_state (ap_auth app) \<noteq> Authenticated then
        (HttpError 401 (if au_state (ap_auth app) = Expired then AuthExpiredDetail else StateDetail (au_state (ap_auth app))), app)
      else case get_current_user (sv_env S) (ap_auth_client app, ap_world app) of
        (r, (c, w)) \<Rightarrow>
          (let app1 = app\<lparr>ap_auth_client := c, ap_world := w\<rparr> in
           case r of
             Inl e \<Rightarrow> (Crash e, app1)
           | Inr None \<Rightarrow> (HttpError 401 AuthExpiredDetail, expire_login S app1)
           | Inr (Some data) \<Rightarrow>
               (case (jget data ''uname'', int_instance (jget data ''mid'')) of
                  (JStr uname, Some mid) \<Rightarrow> (Reply (uname, mid), app1)
                | _ \<Rightarrow> (HttpError 401 (TextDetail ''not authenticated: /nav payload missing uname / mid''), app1))))"

subsection \<open>QR login\<close>

definition qr_start :: "'w login_services \<Rightarrow> ('ws, 'w) app \<Rightarrow> (string \<times> string) reply \<times> ('ws, 'w) app" where
  "qr_start L app =
     (case get_http_client L of
        Inl d \<Rightarrow> (HttpError 503 d, app)
      | Inr P \<Rightarrow>
          (case qr_generate P (ap_world app) of
             (r, w) \<Rightarrow> (case r of Inl e \<Rightarrow> Crash (login_exn e) | Inr link \<Rightarrow> Reply link, app\<lparr>ap_world := w\<rparr>)))"

text \<open>
  The end of both logins: the settings and the state of the session are refreshed, and what that
  raises is logged.
\<close>

definition refresh_state ::
    "('ws, 'w) services \<Rightarrow> string \<Rightarrow> string \<Rightarrow> string option \<Rightarrow> ('ws, 'w) app \<Rightarrow> ('ws, 'w) app" where
  "refresh_state S sessdata bili_jct buvid3 app =
     (case mark_authenticated_after_login (sv_env S) sessdata bili_jct buvid3 (ap_settings app) (ap_auth app)
             (ap_auth_client app, ap_world app) of
        (_, st, a, (c, w)) \<Rightarrow> app\<lparr>ap_settings := st, ap_auth := a, ap_auth_client := c, ap_world := w\<rparr>)"

datatype qr_status = Scanning | Confirmed | QrExpired | Success

text \<open>After a successful poll: the fingerprint, the file, the state.\<close>

definition complete_login ::
    "('ws, 'w) services \<Rightarrow> 'w login_services \<Rightarrow> 'w passport \<Rightarrow> captured \<Rightarrow> ('ws, 'w) app \<Rightarrow> qr_status reply \<times> ('ws, 'w) app" where
  "complete_login S L P cookies app =
     (case fetch_buvid3 P (ap_world app) of
        (Inl e, w) \<Rightarrow> (Crash (login_exn e), app\<lparr>ap_world := w\<rparr>)
      | (Inr buvid3, w) \<Rightarrow>
          (case write_env_atomic (lv_readable L) (cp_sessdata cookies) (cp_bili_jct cookies) buvid3 (lv_env_path L) (ap_files app) of
             Inl e \<Rightarrow> (Crash (Py e), app\<lparr>ap_world := w\<rparr>)
           | Inr files \<Rightarrow>
               (Reply Success,
                refresh_state S (cp_sessdata cookies) (cp_bili_jct cookies) buvid3 (app\<lparr>ap_world := w, ap_files := files\<rparr>))))"

definition qr_poll_route ::
    "('ws, 'w) services \<Rightarrow> 'w login_services \<Rightarrow> string \<Rightarrow> ('ws, 'w) app \<Rightarrow> qr_status reply \<times> ('ws, 'w) app" where
  "qr_poll_route S L qrcode_key app =
     (case get_http_client L of
        Inl d \<Rightarrow> (HttpError 503 d, app)
      | Inr P \<Rightarrow>
          (case qr_poll P qrcode_key (ap_world app) of
             (r, w) \<Rightarrow>
               (let app1 = app\<lparr>ap_world := w\<rparr> in
                case r of
                  Inl QrAwaitingScanError \<Rightarrow> (Reply Scanning, app1)
                | Inl QrAwaitingConfirmError \<Rightarrow> (Reply Confirmed, app1)
                | Inl QrExpiredError \<Rightarrow> (Reply QrExpired, app1)
                | Inl e \<Rightarrow> (Crash (login_exn e), app1)
                | Inr cookies \<Rightarrow> complete_login S L P cookies app1)))"

subsection \<open>Manual login\<close>

record manual_cookies_request =
  mq_sessdata :: string
  mq_bili_jct :: string
  mq_buvid3 :: "string option"

definition valid_manual_cookies :: "manual_cookies_request \<Rightarrow> bool" where
  "valid_manual_cookies rq \<longleftrightarrow> mq_sessdata rq \<noteq> [] \<and> mq_bili_jct rq \<noteq> []"

definition manual_cookies ::
    "('ws, 'w) services \<Rightarrow> 'w login_services \<Rightarrow> manual_cookies_request \<Rightarrow> ('ws, 'w) app \<Rightarrow> (string \<times> int) reply \<times> ('ws, 'w) app" where
  "manual_cookies S L rq app =
     (case get_http_client L of
        Inl d \<Rightarrow> (HttpError 503 d, app)
      | Inr P \<Rightarrow>
          (case (case mq_buvid3 rq of Some b \<Rightarrow> (Inr (Some b), ap_world app) | None \<Rightarrow> fetch_buvid3 P (ap_world app)) of
             (Inl e, w) \<Rightarrow> (Crash (login_exn e), app\<lparr>ap_world := w\<rparr>)
           | (Inr buvid3, w) \<Rightarrow>
               (case save_cookies_manual (sv_env S) (ap_signer app) (lv_readable L) (mq_sessdata rq) (mq_bili_jct rq) buvid3
                       (lv_env_path L) (ap_files app) w of
                  (r, files, w') \<Rightarrow>
                    (let app1 = app\<lparr>ap_files := files, ap_world := w'\<rparr> in
                     case r of
                       Inl LoginIncompleteError \<Rightarrow> (HttpError 400 (TextDetail ''login incomplete''), app1)
                     | Inl e \<Rightarrow> (Crash (login_exn e), app1)
                     | Inr user \<Rightarrow> (Reply user, refresh_state S (mq_sessdata rq) (mq_bili_jct rq) buvid3 app1)))))"

subsection \<open>Startup\<close>

text \<open>
  \<open>migrate_legacy_env\<close>: \<open>moved\<close> and \<open>synced\<close> are what \<open>shutil.move\<close> and the flush of the directory do;
  an \<open>OSError\<close> of either is logged. A failed move keeps the old file; across file systems it may
  leave what it has copied, in part or whole, at the target.
\<close>

definition legacy_path :: "string \<Rightarrow> string \<Rightarrow> string" where
  "legacy_path repo_root backend_dir_name = repo_root @ ''/'' @ backend_dir_name @ ''/.env''"

definition target_path :: "string \<Rightarrow> string" where
  "target_path repo_root = repo_root @ ''/.env''"

definition migrate_legacy_env ::
    "(py_exn \<times> string option + unit) \<Rightarrow> (py_exn + unit) \<Rightarrow> string \<Rightarrow> string \<Rightarrow> file_system \<Rightarrow> (py_exn + bool) \<times> file_system" where
  "migrate_legacy_env moved synced repo_root backend_dir_name fs =
     (let legacy = legacy_path repo_root backend_dir_name; target = target_path repo_root in
      if fs legacy = None then (Inr False, fs)
      else if fs target \<noteq> None then (Inr False, fs)
      else (case moved of
              Inl (OSError, copied) \<Rightarrow> (Inr False, fs(target := copied))
            | Inl (e, copied) \<Rightarrow> (Inl e, fs(target := copied))
            | Inr _ \<Rightarrow>
                (let fs' = (fs(target := fs legacy))(legacy := None) in
                 case synced of Inl OSError \<Rightarrow> (Inr False, fs') | Inl e \<Rightarrow> (Inl e, fs') | Inr _ \<Rightarrow> (Inr True, fs'))))"

text \<open>The part of \<open>lifespan\<close> before the first request, and the part after the last one.\<close>

definition lifespan_start ::
    "('ws, 'w) services \<Rightarrow> bool \<Rightarrow> (py_exn \<times> string option + unit) \<Rightarrow> (py_exn + unit) \<Rightarrow> string \<Rightarrow> ('ws, 'w) app \<Rightarrow> (exn + unit) \<times> ('ws, 'w) app" where
  "lifespan_start S release moved synced repo_root app =
     (case (if release then (Inr False, ap_files app) else migrate_legacy_env moved synced repo_root ''backend'' (ap_files app)) of
        (Inl e, files) \<Rightarrow> (Inl (Py e), app\<lparr>ap_files := files\<rparr>)
      | (Inr _, files) \<Rightarrow>
          (case check_on_startup (sv_env S) (ap_settings app) (ap_auth app) (ap_auth_client app, ap_world app) of
             (r, a, (c, w)) \<Rightarrow>
               (let app1 = app\<lparr>ap_files := files, ap_auth := a, ap_auth_client := c, ap_world := w\<rparr> in
                case r of
                  Inl e \<Rightarrow> (Inl e, app1)
                | Inr _ \<Rightarrow> (Inr (), app1\<lparr>ap_auth := on_expired StopExpiredRuntime a\<rparr>))))"

definition lifespan_stop :: "('ws, 'w) app \<Rightarrow> ('ws, 'w) app" where
  "lifespan_stop app = app\<lparr>ap_auth := remove_on_expired StopExpiredRuntime (ap_auth app)\<rparr>"


subsection \<open>Properties\<close>

lemma poll_result_complete:
  assumes "poll_result P response = Inr cookies"
  shows "cp_sessdata cookies \<noteq> [] \<and> cp_bili_jct cookies \<noteq> []"
proof -
  from assms obtain body where
    "(case jget body ''data'' of
       JDict data \<Rightarrow>
         bind_res (raised (inner_code (jget data ''code''))) (\<lambda>code.
         if code = Some 86101 then Inl QrAwaitingScanError
         else if code = Some 86090 then Inl QrAwaitingConfirmError
         else if code = Some 86038 then Inl QrExpiredError
         else if code = Some 0 then
           bind_res (raised (capture_success_cookies P response)) (\<lambda>cookies.
           if cp_bili_jct cookies = [] then Inl LoginIncompleteError
           else if cp_sessdata cookies = [] then Inl LoginIncompleteError
           else Inr cookies)
         else Inl QrLoginError)
     | _ \<Rightarrow> Inl QrLoginError) = Inr cookies"
    unfolding poll_result_def bind_res_Inr_iff [of "raised (parse_json_object _ _)"] by blast
  then show ?thesis
    by (cases "jget body ''data''") (auto simp: bind_res_Inr_iff split: if_splits)
qed

lemma qr_poll_complete:
  assumes "qr_poll P key w = (Inr cookies, w')"
  shows "cp_sessdata cookies \<noteq> [] \<and> cp_bili_jct cookies \<noteq> []"
proof -
  obtain response where "poll_result P response = Inr cookies"
    using assms by (auto simp: qr_poll_def bind_io_def passport_get_def split: prod.splits sum.splits)
  then show ?thesis by (rule poll_result_complete)
qed

text \<open>The verdict of \<open>/nav\<close> on a login, where the session has no cookies of its own.\<close>

definition nav_verdict :: "(exn + message option) \<Rightarrow> auth_state \<Rightarrow> auth_state" where
  "nav_verdict answer before =
     (case answer of
        Inl e \<Rightarrow> (if \<exists>m. e = Bili (AuthExpiredError m) then Expired else before)
      | Inr d \<Rightarrow> (if d \<noteq> None \<and> d \<noteq> Some [] then Authenticated else Expired))"

definition pushed_client :: "settings \<Rightarrow> ('ws, 'w) app \<Rightarrow> bili_client" where
  "pushed_client st app = update_cookies (ap_auth_client app) (settings_cookies st)"

definition with_login :: "string \<Rightarrow> string \<Rightarrow> string option \<Rightarrow> settings \<Rightarrow> settings" where
  "with_login sessdata bili_jct buvid3 st =
     (let st1 = st\<lparr>st_SESSDATA := sessdata, st_BILI_JCT := bili_jct\<rparr>
      in case buvid3 of None \<Rightarrow> st1 | Some b \<Rightarrow> st1\<lparr>st_BUVID3 := Some b\<rparr>)"

lemma with_login_simps [simp]:
  "st_SESSDATA (with_login s j b st) = s" "st_BILI_JCT (with_login s j b st) = j"
  "st_BUVID3 (with_login s j b st) = (case b of None \<Rightarrow> st_BUVID3 st | Some x \<Rightarrow> Some x)"
  by (simp_all add: with_login_def Let_def split: option.split)

lemma refresh_state_effect:
  fixes app :: "('ws, 'w) app" and buvid3 :: "string option"
  assumes "au_sessdata_override (ap_auth app) = None" and "au_bili_jct_override (ap_auth app) = None"
    and "sessdata \<noteq> []" and "bili_jct \<noteq> []"
  defines "st \<equiv> with_login sessdata bili_jct buvid3 (ap_settings app)"
  shows "ap_settings (refresh_state S sessdata bili_jct buvid3 app) = st"
    and "ap_files (refresh_state S sessdata bili_jct buvid3 app) = ap_files app"
    and "au_state (ap_auth (refresh_state S sessdata bili_jct buvid3 app)) =
      nav_verdict (fst (get_user_info (sv_env S) (pushed_client st app, ap_world app))) (au_state (ap_auth app))"
proof -
  obtain r a c w where k: "check_on_startup (sv_env S) st (ap_auth app) (pushed_client st app, ap_world app) = (r, a, (c, w))"
    by (metis prod_cases4)
  then have eq: "refresh_state S sessdata bili_jct buvid3 app = app\<lparr>ap_settings := st, ap_auth := a, ap_auth_client := c, ap_world := w\<rparr>"
    by (simp add: refresh_state_def mark_authenticated_after_login_def with_login_def [symmetric] Let_def st_def pushed_client_def
        flip: with_login_def [unfolded Let_def])
  show "ap_settings (refresh_state S sessdata bili_jct buvid3 app) = st"
    and "ap_files (refresh_state S sessdata bili_jct buvid3 app) = ap_files app" by (simp_all add: eq)
  have "resolve_cookies st (ap_auth app) = (sessdata, bili_jct)"
    using assms(1,2) by (simp add: resolve_cookies_def load_cookie_settings_def st_def)
  then show "au_state (ap_auth (refresh_state S sessdata bili_jct buvid3 app)) =
      nav_verdict (fst (get_user_info (sv_env S) (pushed_client st app, ap_world app))) (au_state (ap_auth app))"
    using check_state [OF k] assms(3,4) by (simp add: eq nav_verdict_def)
qed


text \<open>
  C37. The lift of a legacy file keeps every file and never overwrites one, also when the move or the
  flush fails; but the process that does it does not use it: the settings were read before, so
  without cookies of its own the first start still asks for a login, and no request is made.
\<close>

theorem lifespan_migrates_without_reading:
  assumes "lifespan_start S release moved synced repo_root app = (r, app')"
  shows "ap_settings app' = ap_settings app \<and>
    (\<forall>p content. ap_files app p = Some content \<longrightarrow>
       ap_files app' p = Some content \<or>
       p = legacy_path repo_root ''backend'' \<and> ap_files app' (target_path repo_root) = Some content \<and> ap_files app (target_path repo_root) = None) \<and>
    (st_SESSDATA (ap_settings app) = [] \<and> au_sessdata_override (ap_auth app) = None \<and> (\<exists>u. r = Inr u) \<longrightarrow>
       auth_status app' = NeedsLogin \<and> ap_world app' = ap_world app)"
proof -
  define mig where "mig = (if release then (Inr False, ap_files app) else migrate_legacy_env moved synced repo_root ''backend'' (ap_files app))"
  obtain m files where m: "mig = (m, files)" by (metis surj_pair)
  have keep: "ap_files app p = Some content \<longrightarrow> files p = Some content \<or>
      p = legacy_path repo_root ''backend'' \<and> files (target_path repo_root) = Some content \<and> ap_files app (target_path repo_root) = None" for p content
    using m unfolding mig_def
    by (auto simp: migrate_legacy_env_def Let_def legacy_path_def target_path_def split: if_splits sum.splits prod.splits py_exn.splits)
  obtain c a cw where c: "check_on_startup (sv_env S) (ap_settings app) (ap_auth app) (ap_auth_client app, ap_world app) = (c, a, cw)"
    by (metis prod_cases3)
  have f: "ap_files app' = files" and s: "ap_settings app' = ap_settings app"
    using assms m c unfolding lifespan_start_def mig_def [symmetric] by (auto simp: Let_def split: sum.splits prod.splits)
  have "auth_status app' = NeedsLogin \<and> ap_world app' = ap_world app"
    if "st_SESSDATA (ap_settings app) = []" "au_sessdata_override (ap_auth app) = None" "r = Inr u" for u
  proof -
    have "c = Inr NeedsLogin" "au_state a = NeedsLogin" "snd cw = ap_world app"
      using c that(1,2) by (auto simp: check_on_startup_def resolve_cookies_def load_cookie_settings_def split: option.splits)
    then show ?thesis
      using assms m c that(3) unfolding lifespan_start_def mig_def [symmetric]
      by (auto simp: Let_def auth_status_def on_expired_def split: sum.splits prod.splits)
  qed
  then show ?thesis using keep f s by blast
qed


definition login_app_witness :: "(nat, unit) app" where
  "login_app_witness =
     \<lparr>ap_settings = default_settings, ap_token = None, ap_auth = new_auth_session None None,
      ap_auth_client = client_witness, ap_signer = new_signer 1200, ap_ban_client = None, ap_room_client = None,
      ap_manager = None, ap_room = None, ap_retired = [], ap_abandoned = [], ap_files = Map.empty, ap_world = ()\<rparr>"

definition login_services_witness :: "unit login_services" where
  "login_services_witness = \<lparr>lv_passport = Some passport_witness, lv_readable = (\<lambda>_. Inr ()), lv_env_path = ''.env''\<rparr>"

definition known_user_services :: "(nat, unit) services" where
  "known_user_services =
     \<lparr>sv_env = \<lparr>net = (\<lambda>rq w. (Inr (ok_response [(''mid'', JInt 5)]), w)), clock = (\<lambda>w. 0)\<rparr>,
      sv_iso_diff = (\<lambda>a b. None), sv_md5 = id, sv_order = sorted_list_of_set,
      sv_send = (\<lambda>ws m w. (Inr (), w)), sv_start = (\<lambda>r cw. (Inr None, cw))\<rparr>"


lemma lifespan_migrates_without_reading_witness:
  "\<exists>app'. lifespan_start known_user_services False (Inr ()) (Inr ()) ''/r''
       (login_app_witness\<lparr>ap_files := [''/r/backend/.env'' \<mapsto> ''SESSDATA=s'']\<rparr>) = (Inr (), app') \<and>
     ap_files app' ''/r/.env'' = Some ''SESSDATA=s'' \<and> auth_status app' = NeedsLogin"
proof -
  let ?app = "login_app_witness\<lparr>ap_files := [''/r/backend/.env'' \<mapsto> ''SESSDATA=s'']\<rparr>"
  obtain r app' where r: "lifespan_start known_user_services False (Inr ()) (Inr ()) ''/r'' ?app = (r, app')" by (metis surj_pair)
  then have "r = Inr ()" and f: "ap_files app' ''/r/.env'' = Some ''SESSDATA=s''"
    by (auto simp: lifespan_start_def migrate_legacy_env_def legacy_path_def target_path_def Let_def login_app_witness_def
        check_on_startup_def resolve_cookies_def load_cookie_settings_def new_auth_session_def default_settings_def)
  moreover have "st_SESSDATA (ap_settings ?app) = []" "au_sessdata_override (ap_auth ?app) = None"
    by (simp_all add: login_app_witness_def default_settings_def new_auth_session_def)
  ultimately have "auth_status app' = NeedsLogin"
    using lifespan_migrates_without_reading [OF r] by blast
  with r \<open>r = Inr ()\<close> f show ?thesis by blast
qed

end
