(* ===== verification/Process_Invariant.thy ===== *)
theory Process_Invariant
  imports Ban_Routes Quick_Rooms Auth_Routes
begin

section \<open>What every handler keeps\<close>

text \<open>
  Most handlers touch the shared state in four ways only: through an upstream client, through the
  manager of the bans, by expiring the login, and in fields no other part depends on. A property of
  the process that survives these survives the handlers, which is proved here once.
\<close>

subsection \<open>The background tasks\<close>

text \<open>
  One round of the reconcile task. It stops at a room that is set only when the fetch found the login
  expired, which is when the manager calls \<open>handle_auth_expired\<close>.
\<close>

definition reconcile_tick :: "('ws, 'w) services \<Rightarrow> ('ws, 'w) app \<Rightarrow> ('ws, 'w) app" where
  "reconcile_tick S app =
     (case ap_manager app of
        None \<Rightarrow> app
      | Some mg \<Rightarrow>
          if \<not> mg_reconciling mg then app
          else (case with_manager (reconcile_round (flagged_env (sv_env S)) (sv_iso_diff S) (ban_push S) Pair) mg app of
                  (next_step, app') \<Rightarrow>
                    if next_step = StopReconciling \<and> mg_room mg \<noteq> None then expire_login S app' else app'))"

subsection \<open>The manager stays well formed\<close>

lemma manager_ok_on_ban:
  assumes "on_ban iso_diff invoke uid ban mg cw = (r, mg', cw')" and "manager_ok iso_diff mg"
  shows "manager_ok iso_diff mg'"
proof (cases "normalize_ban_entry iso_diff ban (jget ban ''pending'' = JBool True)")
  case (Inr found)
  then show ?thesis
    using assms by (cases found) (auto simp: on_ban_def manager_ok_def Let_def dest!: normalize_ban_entry_ok
        intro!: cache_ok_update split: if_splits)
qed (use assms in \<open>simp add: on_ban_def\<close>)

lemma manager_ok_on_unban: "manager_ok iso_diff mg \<Longrightarrow> on_unban invoke uid mg cw = (mg', cw') \<Longrightarrow> manager_ok iso_diff mg'"
  by (auto simp: on_unban_def Let_def manager_ok_def cache_ok_delete)

lemma manager_ok_start:
  assumes "start_bans E iso_diff invoke room_id is_running mg cw = (r, mg', cw')" and "manager_ok iso_diff mg"
  shows "manager_ok iso_diff mg'"
proof -
  let ?mg2 = "(if mg_reconciling mg then stop_bans mg else mg)\<lparr>mg_room := Some (room_id, is_running)\<rparr>"
  obtain x mg3 cw3 where f: "refresh E iso_diff invoke False ?mg2 cw = (x, mg3, cw3)" by (metis prod_cases3)
  have "manager_ok iso_diff ?mg2" using assms(2) by (simp add: manager_ok_def stop_bans_def)
  then have "manager_ok iso_diff mg3" and "mg_room mg3 = Some (room_id, is_running)"
    using refresh_keeps(1,2) [OF f] by simp_all
  then show ?thesis
    using assms(1) f by (cases x) (auto simp: start_bans_def Let_def manager_ok_def)
qed

lemma manager_ok_reconcile:
  assumes "reconcile_round E iso_diff invoke Pair mg cw = (n, mg', cw')" and "manager_ok iso_diff mg"
  shows "manager_ok iso_diff mg'"
proof -
  obtain f cw1 where f: "fetch_snapshot E iso_diff mg cw = (f, cw1)" by (metis surj_pair)
  show ?thesis
  proof (cases f)
    case (Inl e)
    then have "mg' = mg" using assms(1) f by (auto simp: reconcile_round_def split: if_splits exn.splits bili_error.splits)
    with assms(2) show ?thesis by simp
  next
    case (Inr entries)
    have ok: "cache_ok iso_diff (mg_bans mg)" and wf: "wf_dict (mg_bans mg)"
      using assms(2) by (simp_all add: manager_ok_def cache_ok_def)
    have fetched: "be_uid e = uid \<and> ban_entry_ok iso_diff e" if "map_of (fetched_map entries) uid = Some e" for uid e
      using fetch_snapshot_ok [OF f [unfolded Inr]] map_of_SomeD [OF that] by (auto simp: fetched_map_def)
    have "cache_ok iso_diff (fst (reconcile_with entries (mg_bans mg)))"
    proof (rule cache_okI)
      show "wf_dict (fst (reconcile_with entries (mg_bans mg)))" using wf by (rule wf_reconcile_with)
    next
      fix uid e
      assume "map_of (fst (reconcile_with entries (mg_bans mg))) uid = Some e"
      then show "be_uid e = uid \<and> ban_entry_ok iso_diff e"
        using fetched cache_ok_lookup [OF ok] unfolding map_of_reconcile_with [OF wf]
        by (auto simp: merged_def split: option.splits if_splits)
    qed
    then have "manager_ok iso_diff (mg\<lparr>mg_bans := fst (reconcile_with entries (mg_bans mg))\<rparr>)"
      using assms(2) by (simp add: manager_ok_def)
    moreover have "mg' = mg \<or> mg' = mg\<lparr>mg_bans := fst (reconcile_with entries (mg_bans mg))\<rparr>"
      using assms(1) f Inr by (auto simp: reconcile_round_def Let_def split: if_splits prod.splits)
    ultimately show ?thesis using assms(2) by auto
  qed
qed


subsection \<open>The contract\<close>

locale process_invariant =
  fixes S :: "('ws, 'w) services" and P :: "('ws, 'w) app \<Rightarrow> bool"
  assumes managed: "P app \<Longrightarrow> ap_manager app = Some mg \<Longrightarrow> manager_ok (sv_iso_diff S) mg \<and> ap_ban_client app \<noteq> None"
    and untouched: "P app \<Longrightarrow> ap_manager app' = ap_manager app \<Longrightarrow> ap_room app' = ap_room app \<Longrightarrow>
      ap_retired app' = ap_retired app \<Longrightarrow> ap_ban_client app \<noteq> None \<longrightarrow> ap_ban_client app' \<noteq> None \<Longrightarrow>
      ap_token app' = ap_token app \<Longrightarrow> P app'"
    and managed_by: "P app \<Longrightarrow> ap_manager app' = Some mg \<Longrightarrow> manager_ok (sv_iso_diff S) mg \<Longrightarrow> ap_ban_client app' \<noteq> None \<Longrightarrow>
      ap_room app' = ap_room app \<Longrightarrow> ap_retired app' = ap_retired app \<Longrightarrow> ap_token app' = ap_token app \<Longrightarrow> P app'"
    and bootstrap: "P app \<Longrightarrow> P (app\<lparr>ap_token := snd (LOCAL_TOKEN fresh (ap_token app))\<rparr>)"
    and stops: "P app \<Longrightarrow> P (snd (stop_room_route S app))"
begin

lemma idle [simp]:
  "P (app\<lparr>ap_world := w\<rparr>) = P app" "P (app\<lparr>ap_auth := a\<rparr>) = P app"
  "P (app\<lparr>ap_settings := st\<rparr>) = P app" "P (app\<lparr>ap_files := fs\<rparr>) = P app"
  "P (app\<lparr>ap_auth_client := c\<rparr>) = P app"
  "P (app\<lparr>ap_room_client := rc\<rparr>) = P app" "P (app\<lparr>ap_signer := sg\<rparr>) = P app"
  by (rule iffI; erule untouched; simp)+

lemma manager_call:
  assumes "P app" and "with_manager call mg app = (r, app')"
    and "\<And>cw r' mg' cw'. call mg cw = (r', mg', cw') \<Longrightarrow> manager_ok (sv_iso_diff S) mg'"
  shows "P app'"
proof -
  from assms(2) obtain c w mg' cw' where c: "call mg (c, (ap_room app \<noteq> None, w)) = (r, mg', cw')" and m: "ap_manager app' = Some mg'"
    by (rule with_manager_call)
  have "manager_ok (sv_iso_diff S) mg'" using c by (rule assms(3))
  then show ?thesis using with_manager_frame [OF assms(2)] by (intro managed_by [OF assms(1) m]) simp_all
qed

lemma ban_client_call: "with_ban_client call app = (r, app') \<Longrightarrow> P app \<Longrightarrow> P app'"
  using with_ban_client_frame [of call app r app'] by (intro untouched [of app app']) simp_all

lemma room_client_call: "with_room_client call app = (r, app') \<Longrightarrow> P app \<Longrightarrow> P app'"
  by (auto simp: with_room_client_def split: prod.splits)

lemma manages_ok: "P app \<Longrightarrow> manages app room_id = Some mg \<Longrightarrow> manager_ok (sv_iso_diff S) mg \<and> ap_manager app = Some mg"
  using managed [of app mg] by (auto simp: manages_def split: option.splits if_splits)

lemma expire: "P app \<Longrightarrow> P (expire_login S app)"
proof -
  assume ok: "P app"
  have "P a \<Longrightarrow> P (snd (on_expiry S cb () a))" for cb a by (simp add: on_expiry_def stops)
  then have "P a \<Longrightarrow> P (expire_each (on_expiry S) cbs () a)" for cbs a
    unfolding expiry_fanout.dispatch_fold by (induction cbs arbitrary: a) simp_all
  then show ?thesis using ok by (simp add: expire_login_def handle_auth_expired_def Let_def)
qed

lemma failure: "P app \<Longrightarrow> P (snd (upstream_failure S e app))"
  using expire by (auto simp: upstream_failure_def split: exn.split bili_error.split)

lemma announce:
  assumes ok: "P app" and mg: "manager_ok (sv_iso_diff S) mg"
  shows "P (snd (announce_ban S rq mg app))"
proof (cases "normalize_ban_entry (sv_iso_diff S) (pending_row rq (now_seconds S (ap_world app))) True")
  case (Inr found)
  show ?thesis
  proof (cases found)
    case (Some entry)
    let ?call = "on_ban (sv_iso_diff S) (ban_push S) (bq_uid rq) (ban_row entry)"
    obtain r1 app1 where c1: "with_manager ?call mg app = (r1, app1)" by (metis surj_pair)
    have ok1: "P app1"
      using manager_ok_on_ban mg by (intro manager_call [OF ok c1]) blast
    have "P (refresh_after_ban S mg1 app1)" if m1: "ap_manager app1 = Some mg1" for mg1
    proof -
      obtain r2 app2 where c2: "with_manager (refresh (flagged_env (sv_env S)) (sv_iso_diff S) (ban_push S) True) mg1 app1 = (r2, app2)"
        by (metis surj_pair)
      have "manager_ok (sv_iso_diff S) mg1" using managed [OF ok1 m1] ..
      then have "P app2"
        using refresh_keeps(1) by (intro manager_call [OF ok1 c2]) blast
      then show ?thesis
        using expire by (auto simp: refresh_after_ban_def c2 split: sum.split exn.split bili_error.split)
    qed
    with ok1 show ?thesis
      by (simp add: announce_ban_def Let_def Inr Some c1 split: sum.split option.split)
  qed (use ok Inr in \<open>simp add: announce_ban_def Let_def\<close>)
qed (use ok in \<open>simp add: announce_ban_def Let_def\<close>)


lemma ban_routes:
  assumes ok: "P app"
  shows "P (snd (post_ban_route S rq app))" (is ?post)
    and "P (snd (delete_ban_route S uq app))" (is ?delete)
    and "P (snd (get_ban_list_route S room_id do_refresh app))" (is ?list)
proof -
  obtain w1 app1 where c1: "with_ban_client (ban_user (sv_env S) (bq_room_id rq) (bq_uid rq) (bq_hour rq)) app = (w1, app1)"
    by (metis surj_pair)
  have ok1: "P app1" using ban_client_call [OF c1 ok] .
  have "P (snd (announce_ban S rq mg app1))" if "manages app1 (bq_room_id rq) = Some mg" for mg
    using announce [OF ok1] manages_ok [OF ok1 that] by blast
  then show ?post
    using ok ok1 failure [OF ok1] by (auto simp: post_ban_route_def c1 split: sum.split option.split)
  obtain w2 app2 where c2: "with_ban_client (unban_user (sv_env S) (uq_room_id uq) (uq_block_id uq)) app = (w2, app2)"
    by (metis surj_pair)
  have ok2: "P app2" using ban_client_call [OF c2 ok] .
  have "P app3"
    if "manages app2 (uq_room_id uq) = Some mg"
      and "with_manager (\<lambda>m cw. case on_unban (ban_push S) (uq_uid uq) m cw of (m', cw') \<Rightarrow> ((), m', cw')) mg app2 = (r, app3)" for mg r app3
  proof (rule manager_call [OF ok2 that(2)])
    fix cw r' mg' cw'
    assume "(case on_unban (ban_push S) (uq_uid uq) mg cw of (m', cw') \<Rightarrow> ((), m', cw')) = (r', mg', cw')"
    then have "on_unban (ban_push S) (uq_uid uq) mg cw = (mg', cw')"
      by (cases "on_unban (ban_push S) (uq_uid uq) mg cw") simp
    then show "manager_ok (sv_iso_diff S) mg'"
      using manager_ok_on_unban manages_ok [OF ok2 that(1)] by blast
  qed
  then show ?delete
    using ok ok2 failure [OF ok2] by (auto simp: delete_ban_route_def c2 split: sum.split option.split prod.split)
  obtain w3 app3 where c3: "read_ban_list S room_id do_refresh app = (w3, app3)" by (metis surj_pair)
  have ok3: "P app3"
  proof (cases "manages app room_id")
    case None
    then show ?thesis using c3 ban_client_call ok by (simp add: read_ban_list_def) blast
  next
    case (Some mg)
    show ?thesis
    proof (cases do_refresh)
      case True
      let ?app = "app\<lparr>ap_ban_client := Some (get_bili_client app (ap_ban_client app))\<rparr>"
      have okA: "P ?app" by (rule untouched [OF ok]) simp_all
      have callA: "with_manager (refresh (flagged_env (sv_env S)) (sv_iso_diff S) (ban_push S) True) mg ?app = (w3, app3)"
        using c3 True Some by (simp add: read_ban_list_def Let_def)
      show ?thesis
        by (rule manager_call [OF okA callA], rule refresh_keeps(1), assumption) (use manages_ok [OF ok Some] in blast)
    next
      case False
      then show ?thesis using c3 Some ok by (simp add: read_ban_list_def)
    qed
  qed
  then show ?list
    using ok failure [OF ok3] by (auto simp: get_ban_list_route_def c3 split: sum.split)
qed


lemma push:
  assumes "P app"
  shows "P (snd (subscribe_push S ws app))"
proof (cases "ap_manager app")
  case (Some mg)
  let ?call = "\<lambda>m cw. case subscribe (ban_push S) ws m cw of (m', cw') \<Rightarrow> ((), m', cw')"
  obtain r app' where c: "with_manager ?call mg app = (r, app')" by (metis surj_pair)
  have "P app'"
    using assms Some by (intro manager_call [OF assms c]) (use managed [OF assms Some] in \<open>auto simp: subscribe_def manager_ok_def\<close>)
  then show ?thesis by (simp only: subscribe_push_def Some option.case c prod.case snd_conv)
qed (use assms in \<open>simp add: subscribe_push_def\<close>)

lemma ban_sockets:
  assumes ok: "P app"
  shows "P (snd (ws_banlist_join S ws room_id app))"
    and "P app' \<Longrightarrow> P (ws_banlist_leave ws app')"
proof -
  let ?app1 = "ensure_manager app"
  have ok1: "P ?app1"
    using ok by (auto simp: ensure_manager_def new_ban_manager_def manager_ok_def intro: managed_by [OF ok] split: option.split)
  have "P (snd (ws_banlist_join S ws room_id app))"
    if none: "manages ?app1 room_id = None" and m: "ap_manager ?app1 = Some mg" for mg
  proof -
    let ?call = "start_bans (flagged_env (sv_env S)) (sv_iso_diff S) (ban_push S) room_id fst"
    obtain r app2 where c: "with_manager ?call mg ?app1 = (r, app2)" by (metis surj_pair)
    have "manager_ok (sv_iso_diff S) mg" using managed [OF ok1 m] ..
    then have ok2: "P app2"
      using manager_ok_start by (intro manager_call [OF ok1 c]) blast
    then show ?thesis
      using expire [OF ok2] push [OF ok2]
      by (auto simp: ws_banlist_join_def Let_def none m c split: sum.split exn.split bili_error.split)
  qed
  then show "P (snd (ws_banlist_join S ws room_id app))"
    using push [OF ok1] ok1 by (cases "manages ?app1 room_id"; cases "ap_manager ?app1") (auto simp: ws_banlist_join_def Let_def)
  show "P (ws_banlist_leave ws app')" if ok': "P app'"
  proof (cases "ap_manager app'")
    case None
    then show ?thesis by (intro untouched [OF ok']) (simp_all add: ws_banlist_leave_def)
  next
    case (Some mg)
    then show ?thesis
      using managed [OF ok' Some]
      by (intro managed_by [OF ok', of _ "unsubscribe ws mg"]) (simp_all add: ws_banlist_leave_def unsubscribe_def manager_ok_def)
  qed
qed

lemma resolve:
  assumes "P app"
  shows "P (snd (resolve_room_route S render input app))"
proof -
  obtain r app1 where c: "with_room_client (resolve_room_id (sv_env S) input) app = (r, app1)" by (metis surj_pair)
  show ?thesis
    using room_client_call [OF c assms] by (auto simp: resolve_room_route_def c split: sum.split option.split)
qed

lemma add_quick_room:
  assumes "P app"
  shows "P (snd (add_quick_room_route S Q readable fault room_id app))"
proof -
  obtain r app1 where c: "resolve_room_route S (qv_render Q) room_id app = (r, app1)" by (metis surj_pair)
  then have "P app1" using resolve [OF assms, of "qv_render Q" room_id] by simp
  then show ?thesis
    by (simp add: add_quick_room_route_def c Let_def split: reply.split prod.split sum.split)
qed

lemma reconcile:
  assumes ok: "P app"
  shows "P (reconcile_tick S app)"
proof (cases "ap_manager app")
  case (Some mg)
  let ?call = "reconcile_round (flagged_env (sv_env S)) (sv_iso_diff S) (ban_push S) Pair"
  obtain n app1 where c: "with_manager ?call mg app = (n, app1)" by (metis surj_pair)
  have mg: "manager_ok (sv_iso_diff S) mg" using managed [OF ok Some] ..
  have ok1: "P app1"
    by (rule manager_call [OF ok c], rule manager_ok_reconcile, assumption, rule mg)
  show ?thesis
    using ok ok1 expire [OF ok1] by (simp add: reconcile_tick_def Some c)
qed (use ok in \<open>simp add: reconcile_tick_def\<close>)

lemma session_state: "P app \<Longrightarrow> P (refresh_state S s j b app)"
  by (simp add: refresh_state_def split: prod.split)

lemma auth_routes:
  assumes ok: "P app"
  shows "P (snd (qr_start L app))" and "P (snd (qr_poll_route S L key app))"
    and "P (snd (manual_cookies S L rq app))" and "P (snd (auth_me S app))"
    and "P (snd (auth_bootstrap fresh app))"
proof -
  show "P (snd (qr_start L app))"
    using ok by (simp add: qr_start_def split: sum.split prod.split)
  have "P (snd (complete_login S L ps cookies a))" if "P a" for ps cookies a
    using that by (simp add: complete_login_def session_state split: prod.split sum.split)
  then show "P (snd (qr_poll_route S L key app))"
    using ok by (auto simp: qr_poll_route_def Let_def split: sum.split prod.split login_error.split)
  show "P (snd (manual_cookies S L rq app))"
    using ok by (auto simp: manual_cookies_def Let_def session_state split: sum.split prod.split login_error.split)
  show "P (snd (auth_me S app))"
    using ok expire by (auto simp: auth_me_def Let_def split: sum.split prod.split option.split json.split)
  show "P (snd (auth_bootstrap fresh app))"
    using bootstrap [OF ok, of fresh] by (cases "LOCAL_TOKEN fresh (ap_token app)") (simp add: auth_bootstrap_def)
qed

end

end
