(* ===== verification/Live_Stream.thy ===== *)
theory Live_Stream
  imports Room_Routes
begin

section \<open>From the socket of the room to the browsers\<close>

text \<open>
  The two tasks of the live-socket client (\<open>_listen\<close> and \<open>_process_queue\<close> of
  \<open>bilibili/danmaku_ws.py\<close>) and the sender tasks of the bridge as steps on the state of the process,
  and the invariant that ties the frames of the upstream to what each browser is sent.
\<close>

subsection \<open>The tasks of the active room\<close>

definition with_live_client ::
    "(danmaku_client \<Rightarrow> 'a \<times> danmaku_client) \<Rightarrow> ('ws, 'w) app \<Rightarrow> 'a option \<times> ('ws, 'w) app" where
  "with_live_client call app =
     (case ap_room app of
        None \<Rightarrow> (None, app)
      | Some ar \<Rightarrow>
          (case se_client (ar_session ar) of
             None \<Rightarrow> (None, app)
           | Some dc \<Rightarrow>
               (case call dc of
                  (r, dc') \<Rightarrow> (Some r, app\<lparr>ap_room := Some (ar\<lparr>ar_session := (ar_session ar)\<lparr>se_client := Some dc'\<rparr>\<rparr>)\<rparr>))))"

text \<open>The listener receives a frame; \<open>t\<close> is the time of the event loop.\<close>

definition wire_frame :: "codec \<Rightarrow> nat \<Rightarrow> rat \<Rightarrow> bytes option \<Rightarrow> ('ws, 'w) app \<Rightarrow> ('ws, 'w) app" where
  "wire_frame C stack t data app = snd (with_live_client (listen_frame C stack t data) app)"

text \<open>The consumer takes the next message and hands it to the session; what that raises is only logged.\<close>

definition dispatch_one :: "('ws, 'w) services \<Rightarrow> rat \<Rightarrow> ('ws, 'w) app \<Rightarrow> message option \<times> ('ws, 'w) app" where
  "dispatch_one S t app =
     (case with_live_client (process_one t) app of
        (Some (Some raw), app') \<Rightarrow> (Some raw, snd (room_message S raw app'))
      | (_, app') \<Rightarrow> (None, app'))"

text \<open>A sender task of a bridge goes on: it takes an item, or its \<open>send_json\<close> completes or fails.\<close>

definition run_sender :: "nat \<Rightarrow> bool \<Rightarrow> 'ws bridge \<Rightarrow> 'ws bridge" where
  "run_sender t sent b =
     (case br_channels b t of
        None \<Rightarrow> b
      | Some ch \<Rightarrow>
          if ch_done ch then b
          else if ch_sending ch = None then sender_takes t b
          else if sent then sender_sent t b
          else sender_fails t (ch_ws ch) b)"

definition sender_tick :: "nat \<Rightarrow> bool \<Rightarrow> ('ws, 'w) app \<Rightarrow> ('ws, 'w) app" where
  "sender_tick t sent app =
     app\<lparr>ap_room := map_option (\<lambda>ar. ar\<lparr>ar_bridge := run_sender t sent (ar_bridge ar)\<rparr>) (ap_room app)\<rparr>"

lemma run_sender_ok:
  assumes "bridge_ok b"
  shows "bridge_ok (run_sender t sent b)" and "br_closed (run_sender t sent b) = br_closed b"
    and "br_clients b = {} \<Longrightarrow> br_clients (run_sender t sent b) = {}"
    and "br_queues b = [] \<Longrightarrow> br_queues (run_sender t sent b) = []"
proof -
  show "bridge_ok (run_sender t sent b)"
    using assms by (auto simp: run_sender_def bridge_ok_sender_takes bridge_ok_sender_sent bridge_ok_sender_fails split: option.split)
  have detach: "br_closed (detach_client c ws s) = br_closed s" "br_clients (detach_client c ws s) = br_clients s - {ws}"
    "br_queues (detach_client c ws s) = AList.delete ws (br_queues s)" for c ws and s :: "'a bridge"
    by (simp_all add: detach_client_def Let_def split: option.split)
  have takes: "br_closed (sender_takes t b) = br_closed b \<and> br_clients (sender_takes t b) = br_clients b \<and>
      br_queues (sender_takes t b) = br_queues b"
    by (simp add: sender_takes_def finish_sender_def split: option.split prod.split)
  show "br_closed (run_sender t sent b) = br_closed b"
    using takes by (simp add: run_sender_def sender_sent_def sender_fails_def finish_sender_def detach Let_def split: option.split)
  show "br_clients b = {} \<Longrightarrow> br_clients (run_sender t sent b) = {}"
    using takes by (simp add: run_sender_def sender_sent_def sender_fails_def finish_sender_def detach Let_def split: option.split)
  show "br_queues b = [] \<Longrightarrow> br_queues (run_sender t sent b) = []"
    using takes by (simp add: run_sender_def sender_sent_def sender_fails_def finish_sender_def detach Let_def split: option.split)
qed

subsection \<open>The queue between the two tasks\<close>

definition of_priority :: "message_priority \<Rightarrow> message list \<Rightarrow> message list" where
  "of_priority p msgs = filter (\<lambda>m. classify_message m = p) msgs"

definition waiting :: "message_buffer \<Rightarrow> message list" where
  "waiting b = map bm_payload (buffer_contents b)"

lemma of_priority_append [simp]: "of_priority p (xs @ ys) = of_priority p xs @ of_priority p ys"
  by (simp add: of_priority_def)

lemma of_priority_waiting:
  assumes "buffer_inv b"
  shows "of_priority p (waiting b) = map bm_payload (b_queues b p)"
proof -
  have "filter (\<lambda>m. classify_message (bm_payload m) = p) (b_queues b q) = (if q = p then b_queues b q else [])" for q
    using assms by (auto simp: buffer_inv_def filter_empty_conv intro!: filter_True)
  then show ?thesis
    by (cases p) (simp_all add: of_priority_def waiting_def contents_eq filter_map comp_def)
qed

text \<open>A lane only loses messages, and none unless one is reported as dropped.\<close>

lemma put_nowait_lane:
  assumes "buffer_inv b" and "put_nowait b m now = (r, b')"
  shows "subseq (of_priority p (waiting b')) (of_priority p (waiting b) @ of_priority p [m])"
    and "dropped r = None \<Longrightarrow> of_priority p (waiting b') = of_priority p (waiting b) @ of_priority p [m]"
proof -
  have lane: "of_priority q (waiting b') = map bm_payload (b_queues b' q)"
      "of_priority q (waiting b) = map bm_payload (b_queues b q)" for q
    using put_nowait_inv [OF assms] assms(1) by (simp_all add: of_priority_waiting)
  have one: "of_priority p [m] = (if classify_message m = p then [m] else [])" by (simp add: of_priority_def)
  show "dropped r = None \<Longrightarrow> of_priority p (waiting b') = of_priority p (waiting b) @ of_priority p [m]"
    using assms(2) by (auto simp: lane one put_nowait_def Let_def split: if_splits option.splits)
  have "subseq (map bm_payload (qs p)) (map bm_payload (b_queues b p))" if "evict ps (b_queues b) = Some (v, qs)" for ps v qs
    using that by (rule evict_SomeD) auto
  then show "subseq (of_priority p (waiting b')) (of_priority p (waiting b) @ of_priority p [m])"
    using assms(2) by (auto simp: lane one put_nowait_def Let_def subseq_rev_drop_many split: if_splits option.splits)
qed

text \<open>
  The messages handed over so far and the waiting ones, against the messages that were put: each
  priority in the order of arrival, and complete if the drop counter has not moved from \<open>d\<close>.
\<close>

definition lanes_kept :: "nat \<Rightarrow> message list \<Rightarrow> message list \<Rightarrow> danmaku_client \<Rightarrow> bool" where
  "lanes_kept d put handed dc \<longleftrightarrow>
     (\<exists>b. dc_msg_queue dc = Some b \<and> buffer_inv b \<and> d \<le> dm_dropped_messages (dc_metrics dc) \<and>
       (\<forall>p. subseq (of_priority p (handed @ waiting b)) (of_priority p put)) \<and>
       (dm_dropped_messages (dc_metrics dc) = d \<longrightarrow> (\<forall>p. of_priority p (handed @ waiting b) = of_priority p put)))"

lemma lanes_kept_enqueue:
  assumes "lanes_kept d put handed dc"
  shows "lanes_kept d (put @ [msg]) handed (enqueue now msg dc)"
proof -
  from assms obtain b where b: "dc_msg_queue dc = Some b" "buffer_inv b" "d \<le> dm_dropped_messages (dc_metrics dc)"
    and sub: "\<And>p. subseq (of_priority p handed @ of_priority p (waiting b)) (of_priority p put)"
    and eq: "\<And>p. dm_dropped_messages (dc_metrics dc) = d \<Longrightarrow> of_priority p handed @ of_priority p (waiting b) = of_priority p put"
    by (auto simp: lanes_kept_def)
  obtain r b' where put: "put_nowait b msg now = (r, b')" by force
  let ?drops = "dm_dropped_messages (dc_metrics (enqueue now msg dc))"
  have queue: "dc_msg_queue (enqueue now msg dc) = Some b'"
    and count: "?drops = dm_dropped_messages (dc_metrics dc) + (if dropped r = None then 0 else 1)"
    using b(1) put by (auto simp: enqueue_def record_drop_def Let_def split: option.split)
  have "subseq (of_priority p (handed @ waiting b')) (of_priority p (put @ [msg]))" for p
  proof -
    have "subseq (of_priority p handed @ of_priority p (waiting b'))
        ((of_priority p handed @ of_priority p (waiting b)) @ of_priority p [msg])"
      using put_nowait_lane(1) [OF b(2) put] by (simp add: subseq_append')
    also have "subseq \<dots> (of_priority p put @ of_priority p [msg])" by (simp only: subseq_append sub)
    finally show ?thesis by simp
  qed
  moreover have "of_priority p (handed @ waiting b') = of_priority p (put @ [msg])" if "?drops = d" for p
  proof -
    have none: "dropped r = None" and "dm_dropped_messages (dc_metrics dc) = d"
      using that count b(3) by (auto split: if_splits)
    then show ?thesis using eq [of p] put_nowait_lane(2) [OF b(2) put none] by simp
  qed
  ultimately show ?thesis
    using queue count b(3) put_nowait_inv [OF b(2) put] by (auto simp: lanes_kept_def)
qed

lemma lanes_kept_cong:
  "dc_msg_queue dc' = dc_msg_queue dc \<Longrightarrow> dm_dropped_messages (dc_metrics dc') = dm_dropped_messages (dc_metrics dc) \<Longrightarrow>
   lanes_kept d put handed dc' = lanes_kept d put handed dc"
  by (simp add: lanes_kept_def)

lemma lanes_kept_listen:
  assumes "lanes_kept d put handed dc"
  shows "lanes_kept d (put @ Danmaku_Ws.offered C stack data) handed (snd (listen_frame C stack now data dc))"
proof -
  have each: "lanes_kept d put handed c \<Longrightarrow> lanes_kept d (put @ msgs) handed (fold (enqueue now) msgs c)" for put msgs c
  proof (induction msgs arbitrary: put c)
    case (Cons msg msgs)
    from Cons.IH [OF lanes_kept_enqueue [OF Cons.prems]] show ?case by simp
  qed simp
  have idle: "lanes_kept d put handed (dc\<lparr>dc_metrics := (dc_metrics dc)\<lparr>dm_frames_received := a, dm_parse_errors := e\<rparr>\<rparr>)"
    "lanes_kept d put handed (dc\<lparr>dc_metrics := (dc_metrics dc)\<lparr>dm_frames_received := a, dm_decoded_messages := e\<rparr>\<rparr>)" for a e
    using assms by (simp_all add: lanes_kept_def)
  show ?thesis
    using assms idle by (auto simp: listen_frame_def Danmaku_Ws.offered_def Let_def intro!: each split: option.split sum.split)
qed

lemma lanes_kept_process:
  assumes "lanes_kept d put handed dc" and "process_one now dc = (found, dc')"
  shows "lanes_kept d put (handed @ (case found of None \<Rightarrow> [] | Some m \<Rightarrow> [m])) dc'"
proof -
  from assms(1) obtain b where b: "dc_msg_queue dc = Some b" "buffer_inv b" by (auto simp: lanes_kept_def)
  show ?thesis
  proof (cases "dc_running dc")
    case running: True
    show ?thesis
    proof (cases "buffer_get b")
      case (Waits b')
      then have b': "b' = b\<lparr>b_not_empty := False\<rparr>" and "b_size b = 0" by (simp_all add: get_Waits_state)
      then have "buffer_inv b'" using b(2) contents_cong [of b' b] by (auto simp: buffer_inv_def)
      moreover have "waiting b' = waiting b" using contents_cong [of b' b] b' by (simp add: waiting_def)
      ultimately show ?thesis using assms b Waits running by (auto simp: process_one_def lanes_kept_def)
    next
      case (GetRaises e)
      with get_never_raises [OF b(2), of e] show ?thesis by simp
    next
      case (Delivers bm b')
      then have "buffer_inv b'" and w: "waiting b = bm_payload bm # waiting b'"
        using get_Delivers_inv [OF b(2) Delivers] by (simp_all add: waiting_def)
      moreover have "of_priority p (bm_payload bm # waiting b') = of_priority p [bm_payload bm] @ of_priority p (waiting b')" for p
        by (simp add: of_priority_def)
      ultimately show ?thesis using assms b Delivers running by (auto simp: process_one_def lanes_kept_def Let_def)
    qed
  qed (use assms in \<open>simp add: process_one_def\<close>)
qed

subsection \<open>What the session emits\<close>

text \<open>The events of a sequence of raw messages, and the session they leave.\<close>

fun emits :: "message list \<Rightarrow> 'cb room_session \<Rightarrow> bridge_event list \<times> 'cb room_session" where
  "emits [] s = ([], s)"
| "emits (raw # raws) s =
     (case ingest raw s of
        Inl e \<Rightarrow> emits raws s
      | Inr (found, s1) \<Rightarrow>
          (case emits raws s1 of (es, s2) \<Rightarrow> ((case found of None \<Rightarrow> es | Some e \<Rightarrow> e # es), s2)))"

lemma emits_snoc:
  "emits (raws @ [raw]) s =
     (case emits raws s of (es, s1) \<Rightarrow>
      case ingest raw s1 of
        Inl e \<Rightarrow> (es, s1)
      | Inr (found, s2) \<Rightarrow> (es @ (case found of None \<Rightarrow> [] | Some e \<Rightarrow> [e]), s2))"
proof (induction raws arbitrary: s)
  case (Cons r raws)
  then show ?case by (auto split: sum.split prod.split option.split)
qed (auto split: sum.split prod.split option.split)

text \<open>The client plays no part in it.\<close>

lemma ingest_client:
  "ingest raw (s\<lparr>se_client := c\<rparr>) =
     (case ingest raw s of Inl e \<Rightarrow> Inl e | Inr (found, s') \<Rightarrow> Inr (found, s'\<lparr>se_client := c\<rparr>))"
  by (auto simp: ingest_def remember_id_def Let_def split: sum.split option.split bridge_event.split prod.split)

lemma ingest_same:
  assumes "s\<lparr>se_client := None\<rparr> = s'\<lparr>se_client := None\<rparr>"
  shows "\<exists>c. s = s'\<lparr>se_client := c\<rparr>"
  using assms by (intro exI [of _ "se_client s"]) (cases s; cases s'; simp)

subsection \<open>What a message does to the active room\<close>

lemma ingest_keeps:
  "ingest raw s = Inr (found, s') \<Longrightarrow> se_callbacks s' = se_callbacks s \<and> se_client s' = se_client s"
  by (auto simp: ingest_def remember_id_def Let_def split: sum.splits option.splits bridge_event.splits if_splits prod.splits)

definition message_effect ::
    "('ws, 'w) services \<Rightarrow> 'w \<Rightarrow> message \<Rightarrow> 'ws active_room \<Rightarrow> 'ws active_room" where
  "message_effect S w raw ar =
     (case ingest raw (ar_session ar) of
        Inl e \<Rightarrow> ar
      | Inr (found, s) \<Rightarrow>
          \<lparr>ar_session = s,
           ar_bridge = (case found of None \<Rightarrow> ar_bridge ar | Some e \<Rightarrow> on_event (sv_order S) (now_seconds S w) e (ar_bridge ar))\<rparr>)"

lemma room_message_effect:
  assumes "ap_room app = Some ar" and "room_ok ar"
  shows "snd (room_message S raw app) = app\<lparr>ap_room := Some (message_effect S (ap_world app) raw ar)\<rparr>"
proof (cases "ingest raw (ar_session ar)")
  case (Inl e)
  then show ?thesis using assms(1) by (simp add: room_message_def on_raw_message_def message_effect_def)
next
  case (Inr fs)
  obtain found s' where fs: "fs = (found, s')" by force
  have cb: "se_callbacks s' = [BridgeOnEvent]"
    using ingest_keeps [OF Inr [unfolded fs]] assms(2) by (simp add: room_ok_def)
  show ?thesis
    using assms(1) Inr fs
    by (cases found) (simp_all add: room_message_def on_raw_message_def message_effect_def broadcast_to_bridge [OF cb])
qed

lemma room_ok_message:
  assumes "valid_order (sv_order S)" and "room_ok ar"
  shows "room_ok (message_effect S w raw ar)"
proof (cases "ingest raw (ar_session ar)")
  case (Inr fs)
  obtain found s' where fs: "fs = (found, s')" by force
  show ?thesis
    using ingest_keeps [OF Inr [unfolded fs]] assms Inr fs
    by (cases found) (auto simp: message_effect_def room_ok_def bridge_ok_on_event on_event_open)
qed (use assms in \<open>simp add: message_effect_def\<close>)

subsection \<open>The invariant of the stream\<close>

text \<open>
  Since the room was in the state \<open>ar0\<close>, the client received the messages \<open>put\<close> and handed over the
  messages \<open>handed\<close>; channel \<open>t\<close> belongs to a browser that owed \<open>X\<close> then.
\<close>

definition live_inv ::
    "'ws active_room \<Rightarrow> nat \<Rightarrow> message list \<Rightarrow> nat \<Rightarrow> message list \<Rightarrow> message list \<Rightarrow> ('ws, 'w) app \<Rightarrow> bool" where
  "live_inv ar0 t X d put handed app \<longleftrightarrow>
     (\<exists>ar dc. ap_room app = Some ar \<and> room_ok ar \<and> se_client (ar_session ar) = Some dc \<and> lanes_kept d put handed dc \<and>
       (ar_session ar)\<lparr>se_client := None\<rparr> = (snd (emits handed (ar_session ar0)))\<lparr>se_client := None\<rparr> \<and>
       follows (ar_bridge ar) t (X @ map model_dump (fst (emits handed (ar_session ar0)))))"

lemma live_inv_cong: "ap_room app' = ap_room app \<Longrightarrow> live_inv ar0 t X d put handed app' = live_inv ar0 t X d put handed app"
  by (simp add: live_inv_def)

lemma room_ok_client: "room_ok ar \<Longrightarrow> room_ok (ar\<lparr>ar_session := (ar_session ar)\<lparr>se_client := Some dc\<rparr>\<rparr>)"
  by (simp add: room_ok_def)

lemma live_inv_frame:
  assumes "live_inv ar0 t X d put handed app"
  shows "live_inv ar0 t X d (put @ Danmaku_Ws.offered C stack data) handed (wire_frame C stack now data app)"
proof -
  from assms obtain ar dc where ar: "ap_room app = Some ar" "room_ok ar" "se_client (ar_session ar) = Some dc"
    and kept: "lanes_kept d put handed dc" and core: "(ar_session ar)\<lparr>se_client := None\<rparr> = (snd (emits handed (ar_session ar0)))\<lparr>se_client := None\<rparr>"
    and fol: "follows (ar_bridge ar) t (X @ map model_dump (fst (emits handed (ar_session ar0))))"
    by (auto simp: live_inv_def)
  obtain reset dc' where l: "listen_frame C stack now data dc = (reset, dc')" by force
  then have "lanes_kept d (put @ Danmaku_Ws.offered C stack data) handed dc'"
    using lanes_kept_listen [OF kept, of C stack data now] by simp
  then show ?thesis
    using ar core fol room_ok_client [OF ar(2), of dc'] by (simp add: live_inv_def wire_frame_def with_live_client_def l)
qed

lemma live_inv_dispatch:
  assumes order: "valid_order (sv_order S)" and inv: "live_inv ar0 t X d put handed app" and "dispatch_one S now app = (found, app')"
  shows "live_inv ar0 t X d put (handed @ (case found of None \<Rightarrow> [] | Some m \<Rightarrow> [m])) app'"
proof -
  from inv obtain ar dc where ar: "ap_room app = Some ar" "room_ok ar" "se_client (ar_session ar) = Some dc"
    and kept: "lanes_kept d put handed dc" and core: "(ar_session ar)\<lparr>se_client := None\<rparr> = (snd (emits handed (ar_session ar0)))\<lparr>se_client := None\<rparr>"
    and fol: "follows (ar_bridge ar) t (X @ map model_dump (fst (emits handed (ar_session ar0))))"
    by (auto simp: live_inv_def)
  obtain m dc' where p: "process_one now dc = (m, dc')" by force
  let ?ar = "ar\<lparr>ar_session := (ar_session ar)\<lparr>se_client := Some dc'\<rparr>\<rparr>"
  have ok: "room_ok ?ar" using ar(2) by (rule room_ok_client)
  have kept': "lanes_kept d put (handed @ (case m of None \<Rightarrow> [] | Some m \<Rightarrow> [m])) dc'" using kept p by (rule lanes_kept_process)
  have call: "with_live_client (process_one now) app = (Some m, app\<lparr>ap_room := Some ?ar\<rparr>)"
    using ar p by (simp add: with_live_client_def)
  show ?thesis
  proof (cases m)
    case None
    then have "found = None" and app': "app' = app\<lparr>ap_room := Some ?ar\<rparr>"
      using assms(3) call by (simp_all add: dispatch_one_def)
    with None ok kept' core fol show ?thesis unfolding live_inv_def app' by simp
  next
    case (Some raw)
    let ?ar' = "message_effect S (ap_world app) raw ?ar" and ?s = "snd (emits handed (ar_session ar0))"
    have found: "found = Some raw" and app': "app' = app\<lparr>ap_room := Some ?ar'\<rparr>"
      using assms(3) call Some room_message_effect [of "app\<lparr>ap_room := Some ?ar\<rparr>" ?ar S raw] ok by (simp_all add: dispatch_one_def)
    have "ar_session ?ar = ?s\<lparr>se_client := Some dc'\<rparr>"
      using core by (cases "ar_session ar"; cases ?s) simp
    then have ing: "ingest raw (ar_session ?ar)
        = (case ingest raw ?s of Inl e \<Rightarrow> Inl e | Inr (found, s') \<Rightarrow> Inr (found, s'\<lparr>se_client := Some dc'\<rparr>))"
      by (simp add: ingest_client)
    have cl: "se_client (ar_session ?ar') = Some dc'"
      using ingest_keeps [of raw "ar_session ?ar"] by (auto simp: message_effect_def split: sum.split prod.split)
    have snoc: "(ar_session ?ar')\<lparr>se_client := None\<rparr> = (snd (emits (handed @ [raw]) (ar_session ar0)))\<lparr>se_client := None\<rparr>"
      using ing core by (cases "emits handed (ar_session ar0)") (auto simp: message_effect_def emits_snoc split: sum.split prod.split)
    have "follows (ar_bridge ?ar') t (X @ map model_dump (fst (emits (handed @ [raw]) (ar_session ar0))))"
    proof (cases "ingest raw ?s")
      case (Inl e)
      then show ?thesis using ing fol by (cases "emits handed (ar_session ar0)") (simp add: message_effect_def emits_snoc)
    next
      case (Inr fs)
      obtain f s' where fs: "fs = (f, s')" by force
      have "bridge_ok (ar_bridge ar)" using ar(2) by (simp add: room_ok_def)
      from follows_event [OF this order fol] ing Inr fs fol show ?thesis
        by (cases f; cases "emits handed (ar_session ar0)") (simp_all add: message_effect_def emits_snoc)
    qed
    then show ?thesis
      unfolding live_inv_def app' found using kept' Some cl snoc room_ok_message [OF order ok] by simp
  qed
qed

lemma live_inv_bridge:
  assumes "live_inv ar0 t X d put handed app" and "\<And>b. bridge_ok b \<Longrightarrow> bridge_ok (f b) \<and> br_closed (f b) = br_closed b \<and> quiet b (f b)"
    and "ap_room app' = map_option (\<lambda>ar. ar\<lparr>ar_bridge := f (ar_bridge ar)\<rparr>) (ap_room app)"
  shows "live_inv ar0 t X d put handed app'"
  using assms(1,2) follows_quiet by (fastforce simp: live_inv_def assms(3) room_ok_def)

lemma run_sender_quiet: "bridge_ok b \<Longrightarrow> quiet b (run_sender t sent b)"
  by (auto simp: run_sender_def quiet_refl intro!: quiet_step [of "\<lambda>_. []"] bridge_step.intros split: option.split)

lemma live_inv_browsers:
  assumes "live_inv ar0 t X d put handed app"
  shows "live_inv ar0 t X d put handed (snd (ws_rooms_join S ws room_id app))"
    and "live_inv ar0 t X d put handed (ws_rooms_leave ws app)"
    and "live_inv ar0 t X d put handed (sender_tick u sent app)"
proof -
  have "live_inv ar0 t X d put handed (app\<lparr>ap_room := map_option (\<lambda>ar. ar\<lparr>ar_bridge := register_ws now ws (ar_bridge ar)\<rparr>) (ap_room app)\<rparr>)" for now
    by (rule live_inv_bridge [OF assms, of "register_ws now ws"])
       (simp_all add: bridge_ok_register quiet_register, simp add: register_ws_def Let_def)
  then show "live_inv ar0 t X d put handed (snd (ws_rooms_join S ws room_id app))"
    using assms by (auto simp: ws_rooms_join_def split: option.split)
  show "live_inv ar0 t X d put handed (ws_rooms_leave ws app)"
    by (rule live_inv_bridge [OF assms, of "detach_client None ws"])
       (simp_all add: bridge_ok_detach quiet_detach ws_rooms_leave_def)
  show "live_inv ar0 t X d put handed (sender_tick u sent app)"
    by (rule live_inv_bridge [OF assms, of "run_sender u sent"])
       (simp_all add: run_sender_ok run_sender_quiet sender_tick_def)
qed

lemma live_inv_join:
  assumes "ap_room app = Some ar" and "room_ok ar" and "se_client (ar_session ar) = Some dc"
    and "dc_msg_queue dc = Some b" and "buffer_inv b" and "ws_rooms_join S ws room_id app = (Registered, app0)"
  shows "live_inv ar (br_next (ar_bridge ar)) (map model_dump (replay_snapshot (now_seconds S (ap_world app)) (ar_bridge ar)))
    (dm_dropped_messages (dc_metrics dc)) (waiting b) [] app0"
proof -
  let ?b = "register_ws (now_seconds S (ap_world app)) ws (ar_bridge ar)"
  have app0: "app0 = app\<lparr>ap_room := Some (ar\<lparr>ar_bridge := ?b\<rparr>)\<rparr>"
    using assms(1,6) by (auto simp: ws_rooms_join_def split: if_splits)
  have "room_ok (ar\<lparr>ar_bridge := ?b\<rparr>)"
    using assms(2) by (simp add: room_ok_def bridge_ok_register) (simp add: register_ws_def Let_def)
  moreover have "follows ?b (br_next (ar_bridge ar)) (map model_dump (replay_snapshot (now_seconds S (ap_world app)) (ar_bridge ar)))"
    using assms(2) by (intro follows_register) (simp add: room_ok_def)
  ultimately show ?thesis
    using assms(3,4,5) by (simp add: live_inv_def app0 lanes_kept_def)
qed

end
