(* ===== verification/Web_App.thy ===== *)
theory Web_App
  imports Process_Invariant Live_Stream
begin

section \<open>The running service\<close>

text \<open>
  The handlers, the tasks and the frames of the upstream as the steps of one process, in any order,
  and the invariant they keep on the shared state. A step is one handler run without interference.
\<close>

subsection \<open>The background tasks\<close>

text \<open>The sender tasks of a bridge that was closed run on until they meet the sentinel.\<close>

definition retired_sender_tick :: "nat \<Rightarrow> nat \<Rightarrow> bool \<Rightarrow> ('ws, 'w) app \<Rightarrow> ('ws, 'w) app" where
  "retired_sender_tick i t sent app =
     (if i < length (ap_retired app) then
        app\<lparr>ap_retired := (ap_retired app)[i := (ap_retired app ! i)\<lparr>ar_bridge := run_sender t sent (ar_bridge (ap_retired app ! i))\<rparr>]\<rparr>
      else app)"

subsection \<open>Steps\<close>

text \<open>The parsers behind the frame codec, and the depth of the interpreter stack.\<close>

record wire_services =
  wv_codec :: codec
  wv_stack :: nat

datatype 'ws app_op =
    PostBan ban_request
  | DeleteBan unban_request
  | GetBanList int bool
  | JoinBanlist 'ws int
  | LeaveBanlist 'ws
  | ResolveRoom int
  | StartRoom int
  | StopRoom
  | JoinRoom 'ws int
  | LeaveRoom 'ws
  | WireFrame rat "bytes option"
  | Dispatch rat
  | QrStart
  | QrPoll string
  | ManualLogin manual_cookies_request
  | AuthMe
  | Bootstrap string
  | AddQuickRoom write_fault int
  | Reconcile
  | Sender nat bool
  | RetiredSender nat nat bool

fun app_step ::
    "('ws, 'w) services \<Rightarrow> 'w login_services \<Rightarrow> quick_services \<Rightarrow> wire_services \<Rightarrow> 'ws app_op \<Rightarrow> ('ws, 'w) app \<Rightarrow> ('ws, 'w) app" where
  "app_step S L Q W (PostBan rq) app = snd (post_ban_route S rq app)"
| "app_step S L Q W (DeleteBan rq) app = snd (delete_ban_route S rq app)"
| "app_step S L Q W (GetBanList room_id do_refresh) app = snd (get_ban_list_route S room_id do_refresh app)"
| "app_step S L Q W (JoinBanlist ws room_id) app = snd (ws_banlist_join S ws room_id app)"
| "app_step S L Q W (LeaveBanlist ws) app = ws_banlist_leave ws app"
| "app_step S L Q W (ResolveRoom input) app = snd (resolve_room_route S (qv_render Q) input app)"
| "app_step S L Q W (StartRoom room_id) app = snd (start_room_route S room_id app)"
| "app_step S L Q W StopRoom app = snd (stop_room_route S app)"
| "app_step S L Q W (JoinRoom ws room_id) app = snd (ws_rooms_join S ws room_id app)"
| "app_step S L Q W (LeaveRoom ws) app = ws_rooms_leave ws app"
| "app_step S L Q W (WireFrame t data) app = wire_frame (wv_codec W) (wv_stack W) t data app"
| "app_step S L Q W (Dispatch t) app = snd (dispatch_one S t app)"
| "app_step S L Q W QrStart app = snd (qr_start L app)"
| "app_step S L Q W (QrPoll key) app = snd (qr_poll_route S L key app)"
| "app_step S L Q W (ManualLogin rq) app = snd (manual_cookies S L rq app)"
| "app_step S L Q W AuthMe app = snd (auth_me S app)"
| "app_step S L Q W (Bootstrap fresh) app = snd (auth_bootstrap fresh app)"
| "app_step S L Q W (AddQuickRoom fault room_id) app = snd (add_quick_room_route S Q (lv_readable L) fault room_id app)"
| "app_step S L Q W Reconcile app = reconcile_tick S app"
| "app_step S L Q W (Sender t sent) app = sender_tick t sent app"
| "app_step S L Q W (RetiredSender i t sent) app = retired_sender_tick i t sent app"

definition app_run ::
    "('ws, 'w) services \<Rightarrow> 'w login_services \<Rightarrow> quick_services \<Rightarrow> wire_services \<Rightarrow> 'ws app_op list \<Rightarrow> ('ws, 'w) app \<Rightarrow> ('ws, 'w) app" where
  "app_run S L Q W ops app = fold (app_step S L Q W) ops app"

subsection \<open>The invariant\<close>

definition bans_ok :: "(string \<Rightarrow> string \<Rightarrow> rat option) \<Rightarrow> ('ws, 'w) app \<Rightarrow> bool" where
  "bans_ok iso_diff app \<longleftrightarrow> (\<forall>mg. ap_manager app = Some mg \<longrightarrow> manager_ok iso_diff mg \<and> ap_ban_client app \<noteq> None)"

definition rooms_ok :: "('ws, 'w) app \<Rightarrow> bool" where
  "rooms_ok app \<longleftrightarrow> (\<forall>ar. ap_room app = Some ar \<longrightarrow> room_ok ar) \<and> (\<forall>ar \<in> set (ap_retired app). room_closed ar)"

definition app_ok :: "(string \<Rightarrow> string \<Rightarrow> rat option) \<Rightarrow> ('ws, 'w) app \<Rightarrow> bool" where
  "app_ok iso_diff app \<longleftrightarrow> bans_ok iso_diff app \<and> rooms_ok app"

lemmas app_ok_defs = app_ok_def bans_ok_def rooms_ok_def

text \<open>The part about rooms needs the order in which a set is traversed to list its elements.\<close>

definition service_ok :: "('ws, 'w) services \<Rightarrow> ('ws, 'w) app \<Rightarrow> bool" where
  "service_ok S app \<longleftrightarrow> bans_ok (sv_iso_diff S) app \<and> (valid_order (sv_order S) \<longrightarrow> rooms_ok app)"

lemma service_ok_iff: "valid_order (sv_order S) \<Longrightarrow> service_ok S app = app_ok (sv_iso_diff S) app"
  by (simp add: service_ok_def app_ok_def)

lemma service_ok_stop:
  assumes "service_ok S app"
  shows "service_ok S (snd (stop_room_route S app))"
proof -
  have "rooms_ok (snd (stop_room_route S app))" if order: "valid_order (sv_order S)"
  proof -
    have ok: "rooms_ok app" using assms order by (simp add: service_ok_def)
    then have room: "ap_room app = Some ar \<Longrightarrow> room_ok ar" for ar by (simp add: rooms_ok_def)
    obtain retired w where "shut_room S app = app\<lparr>ap_room := None, ap_world := w, ap_retired := ap_retired app @ retired\<rparr>"
      and "length retired = (if ap_room app = None then 0 else 1)" and "\<forall>ar \<in> set retired. room_closed ar"
      by (rule shut_room_effect [OF order room])
    then show ?thesis using ok by (auto simp: stop_room_route_def stop_banlist_manager_def rooms_ok_def)
  qed
  then show ?thesis by (simp add: service_ok_def bans_ok_def stop_room_effect)
qed

interpretation service: process_invariant S "service_ok S"
  for S :: "('ws, 'w) services"
proof unfold_locales
  show "service_ok S app \<Longrightarrow> service_ok S (snd (stop_room_route S app))" for app :: "('ws, 'w) app"
    by (rule service_ok_stop)
qed (auto simp: service_ok_def bans_ok_def rooms_ok_def)

lemma app_ok_senders:
  assumes "app_ok iso_diff app"
  shows "app_ok iso_diff (sender_tick t sent app)" and "app_ok iso_diff (retired_sender_tick i t sent app)"
proof -
  have "room_ok ar \<Longrightarrow> room_ok (ar\<lparr>ar_bridge := run_sender t sent (ar_bridge ar)\<rparr>)" for ar :: "'a active_room"
    using run_sender_ok [of "ar_bridge ar" t sent] by (simp add: room_ok_def)
  then show "app_ok iso_diff (sender_tick t sent app)"
    using assms by (auto simp: app_ok_defs sender_tick_def)
  have "room_closed ar \<Longrightarrow> room_closed (ar\<lparr>ar_bridge := run_sender t sent (ar_bridge ar)\<rparr>)" for ar :: "'a active_room"
    using run_sender_ok [of "ar_bridge ar" t sent] by (simp add: room_closed_def)
  then show "app_ok iso_diff (retired_sender_tick i t sent app)"
    using assms by (auto simp: app_ok_defs retired_sender_tick_def dest!: subsetD [OF set_update_subset_insert])
qed

lemma app_ok_start:
  assumes ok: "app_ok (sv_iso_diff S) app" and order: "valid_order (sv_order S)"
  shows "app_ok (sv_iso_diff S) (snd (start_room_route S room_id app))"
proof -
  note okS = service_ok_iff [OF order]
  have room: "ap_room app = Some ar \<Longrightarrow> room_ok ar" for ar using ok by (simp add: app_ok_defs)
  obtain r s app1 where c: "connect_room S room_id (shut_room S (stop_banlist_manager app)) = (r, s, app1)" by (metis prod_cases3)
  note pro = start_prologue [OF order room c]
  from pro(5) obtain retired where "ap_retired app1 = ap_retired app @ retired" and "\<forall>ar \<in> set retired. room_closed ar" by blast
  then have ok1: "app_ok (sv_iso_diff S) app1" using ok by (auto simp: app_ok_defs pro(1,2))
  show ?thesis
  proof (cases "r = Inr True")
    case True
    have s: "se_status s = Connected" "se_client s \<noteq> None" "se_callbacks s = []"
      using connect_room_success [of S room_id "shut_room S (stop_banlist_manager app)" s app1] c True by simp_all
    obtain ar where ar: "create_bridge S s (ap_world app1) = Some ar" "room_ok ar" "br_clients (ar_bridge ar) = {}"
      and "ar_session ar = add_callback BridgeOnEvent s" by (rule create_bridge_ok [OF s(2,3)])
    obtain role app2 where l: "lookup_role S (case se_room_id s of Some i \<Rightarrow> i | None \<Rightarrow> room_id) (app1\<lparr>ap_room := Some ar\<rparr>) = (role, app2)"
      by (metis surj_pair)
    have "app_ok (sv_iso_diff S) (app1\<lparr>ap_room := Some ar\<rparr>)" using ok1 ar(2) by (simp add: app_ok_defs)
    then have "app_ok (sv_iso_diff S) app2"
      unfolding okS [symmetric] by (rule service.untouched) (simp_all add: lookup_role_frame [OF l])
    then show ?thesis by (simp add: start_room_route_def c True ar(1) l Let_def)
  next
    case False
    have "app_ok (sv_iso_diff S) (drop_session s app1)" using ok1 by (simp add: app_ok_defs)
    with False show ?thesis
      using ok1 service.expire [of S "drop_session s app1", unfolded okS]
      by (cases r) (auto simp: start_room_route_def c split: exn.split bili_error.split)
  qed
qed

lemma app_ok_tasks:
  assumes order: "valid_order (sv_order S)" and ok: "app_ok iso_diff app"
  shows "app_ok iso_diff (wire_frame C stack t data app)" and "app_ok iso_diff (snd (dispatch_one S t app))"
    and "app_ok iso_diff (snd (ws_rooms_join S ws room_id app))" and "app_ok iso_diff (ws_rooms_leave ws app)"
proof -
  have live: "app_ok iso_diff (snd (with_live_client call app))" for call :: "danmaku_client \<Rightarrow> 'c \<times> danmaku_client"
    using ok room_ok_client by (auto simp: with_live_client_def app_ok_defs split: option.split prod.split)
  have message: "app_ok iso_diff a \<Longrightarrow> app_ok iso_diff (snd (room_message S raw a))" for raw a
    using room_message_effect [of a _ S raw] room_ok_message [OF order]
    by (cases "ap_room a") (auto simp: room_message_def app_ok_defs)
  show "app_ok iso_diff (wire_frame C stack t data app)" by (simp add: wire_frame_def live)
  obtain r app1 where c: "with_live_client (process_one t) app = (r, app1)" by force
  then have "app_ok iso_diff app1" using live [of "process_one t"] by simp
  then show "app_ok iso_diff (snd (dispatch_one S t app))"
    using message by (simp add: dispatch_one_def c split: option.split)
  have register: "br_closed (register_ws now w b) = br_closed b" for now w and b :: "'a bridge"
    by (simp add: register_ws_def Let_def)
  show "app_ok iso_diff (snd (ws_rooms_join S ws room_id app))" and "app_ok iso_diff (ws_rooms_leave ws app)"
    using ok by (auto simp: ws_rooms_join_def ws_rooms_leave_def app_ok_defs room_ok_def bridge_ok_register bridge_ok_detach
        register split: option.split)
qed

lemma app_ok_step:
  assumes order: "valid_order (sv_order S)" and ok: "app_ok (sv_iso_diff S) app"
  shows "app_ok (sv_iso_diff S) (app_step S L Q W op app)"
proof -
  note kept = service.ban_routes [of S app] service.ban_sockets [of S app] service.resolve [of S app] service.stops [of S app]
    service.auth_routes [of S app] service.add_quick_room [of S app] service.reconcile [of S app]
  show ?thesis
    using kept [unfolded service_ok_iff [OF order]] app_ok_tasks [OF order ok] app_ok_start [OF ok order] app_ok_senders [OF ok] ok
    by (cases op) simp_all
qed

lemma app_ok_run:
  assumes "valid_order (sv_order S)"
  shows "app_ok (sv_iso_diff S) app \<Longrightarrow> app_ok (sv_iso_diff S) (app_run S L Q W ops app)"
  unfolding app_run_def by (induction ops arbitrary: app) (simp_all add: app_ok_step [OF assms])


subsection \<open>A fresh process\<close>

text \<open>The singletons as the modules create them; only the client of the session is built eagerly.\<close>

definition new_app :: "settings \<Rightarrow> file_system \<Rightarrow> 'w \<Rightarrow> ('ws, 'w) app" where
  "new_app st files w =
     \<lparr>ap_settings = st, ap_token = None, ap_auth = new_auth_session None None,
      ap_auth_client = new_client (settings_cookies st) (st_BILI_JCT st) (new_signer 3600), ap_signer = new_signer 3600,
      ap_ban_client = None, ap_room_client = None, ap_manager = None, ap_room = None, ap_retired = [], ap_abandoned = [],
      ap_files = files, ap_world = w\<rparr>"

lemma app_ok_new [simp]: "app_ok iso_diff (new_app st files w)"
  by (simp add: app_ok_defs new_app_def)

lemma app_ok_lifespan: "app_ok iso_diff app \<Longrightarrow> app_ok iso_diff (snd (lifespan_start S release moved synced repo_root app))"
  by (simp add: lifespan_start_def Let_def app_ok_defs split: prod.split sum.split)

lemma normalize_cached_ok:
  "\<forall>e \<in> set entries. ban_entry_ok iso_diff e \<Longrightarrow> normalize_cached iso_diff entries = Inr entries"
  by (induction entries) (simp_all add: normalize_ban_row)

subsection \<open>The room of a browser\<close>

text \<open>A room stays the active one until it is retired; what the steps other than its own leave alone.\<close>

definition same_room :: "('ws, 'w) app \<Rightarrow> ('ws, 'w) app \<Rightarrow> bool" where
  "same_room app0 app \<longleftrightarrow>
     length (ap_retired app0) \<le> length (ap_retired app) \<and>
     (ap_room app0 \<noteq> None \<longrightarrow> ap_room app = ap_room app0 \<or> length (ap_retired app0) < length (ap_retired app))"

lemma shut_room_retires:
  "length (ap_retired (shut_room S app)) = length (ap_retired app) + (if ap_room app = None then 0 else 1)"
  "ap_room (shut_room S app) = None"
  by (auto simp: shut_room_def split: option.split prod.split)

interpretation bystander: process_invariant S "\<lambda>app. bans_ok (sv_iso_diff S) app \<and> same_room app0 app"
  for S :: "('ws, 'w) services" and app0
proof unfold_locales
  fix app :: "('ws, 'w) app"
  show "bans_ok (sv_iso_diff S) app \<and> same_room app0 app \<Longrightarrow>
      bans_ok (sv_iso_diff S) (snd (stop_room_route S app)) \<and> same_room app0 (snd (stop_room_route S app))"
    by (auto simp: stop_room_route_def stop_banlist_manager_def bans_ok_def same_room_def shut_room_retires)
qed (auto simp: bans_ok_def same_room_def)

lemma same_room_refl: "same_room app app"
  by (simp add: same_room_def)

lemma start_retires:
  assumes "bans_ok (sv_iso_diff S) app"
  shows "length (ap_retired app) + (if ap_room app = None then 0 else 1) \<le> length (ap_retired (snd (start_room_route S room_id app)))"
proof -
  let ?app0 = "shut_room S (stop_banlist_manager app)"
  obtain r s app1 where c: "connect_room S room_id ?app0 = (r, s, app1)" by (metis prod_cases3)
  note frame = connect_room_frame [OF c]
  have "ap_manager ?app0 = None" by (auto simp: shut_room_def stop_banlist_manager_def split: option.split prod.split)
  then have "bans_ok (sv_iso_diff S) app1" using frame by (simp add: bans_ok_def)
  then have "bans_ok (sv_iso_diff S) (drop_session s app1)" by (simp add: bans_ok_def)
  then have "same_room (drop_session s app1) (expire_login S (drop_session s app1))"
    using bystander.expire [of S "drop_session s app1" "drop_session s app1"] same_room_refl by blast
  then have "length (ap_retired app1) \<le> length (ap_retired (expire_login S (drop_session s app1)))" by (simp add: same_room_def)
  moreover have "length (ap_retired app1) = length (ap_retired app) + (if ap_room app = None then 0 else 1)"
    by (simp add: frame shut_room_retires) (simp add: stop_banlist_manager_def)
  ultimately show ?thesis
    by (auto simp: start_room_route_def c Let_def dest!: lookup_role_frame(3) split: sum.split exn.split bili_error.split option.split prod.split)
qed

text \<open>The messages that a run puts on the queue of the active room, and those it hands to the session.\<close>

fun heard_by :: "wire_services \<Rightarrow> 'ws app_op \<Rightarrow> message list" where
  "heard_by W (WireFrame t data) = Danmaku_Ws.offered (wv_codec W) (wv_stack W) data"
| "heard_by W op = []"

definition heard :: "wire_services \<Rightarrow> 'ws app_op list \<Rightarrow> message list" where
  "heard W ops = concat (map (heard_by W) ops)"

fun handed_by :: "('ws, 'w) services \<Rightarrow> 'ws app_op \<Rightarrow> ('ws, 'w) app \<Rightarrow> message list" where
  "handed_by S (Dispatch t) app = (case fst (dispatch_one S t app) of None \<Rightarrow> [] | Some m \<Rightarrow> [m])"
| "handed_by S op app = []"

fun handed ::
    "('ws, 'w) services \<Rightarrow> 'w login_services \<Rightarrow> quick_services \<Rightarrow> wire_services \<Rightarrow> 'ws app_op list \<Rightarrow> ('ws, 'w) app \<Rightarrow> message list" where
  "handed S L Q W [] app = []"
| "handed S L Q W (op # ops) app = handed_by S op app @ handed S L Q W ops (app_step S L Q W op app)"

text \<open>The steps of the stream itself.\<close>

fun streams :: "'ws app_op \<Rightarrow> bool" where
  "streams (WireFrame t data) = True"
| "streams (Dispatch t) = True"
| "streams (JoinRoom ws room_id) = True"
| "streams (LeaveRoom ws) = True"
| "streams (Sender t sent) = True"
| "streams op = False"

lemma stream_step_retires:
  assumes "streams op"
  shows "ap_retired (app_step S L Q W op app) = ap_retired app"
proof -
  have live: "with_live_client call app = (r, app') \<Longrightarrow> ap_retired app' = ap_retired app" for call :: "danmaku_client \<Rightarrow> 'c \<times> danmaku_client" and r app'
    by (auto simp: with_live_client_def split: option.splits prod.splits)
  have msg: "ap_retired (snd (room_message S raw a)) = ap_retired a" for raw and a :: "('a, 'b) app"
    by (auto simp: room_message_def split: option.split prod.split)
  have "ap_retired (snd (dispatch_one S t app)) = ap_retired app" for t
  proof -
    obtain r app1 where c: "with_live_client (process_one t) app = (r, app1)" by force
    with live [OF c] msg show ?thesis by (simp add: dispatch_one_def split: option.split)
  qed
  moreover have "ap_retired (wire_frame C stack t data app) = ap_retired app" for C stack t data
    using live [of "listen_frame C stack t data"] by (metis prod.collapse wire_frame_def)
  ultimately show ?thesis
    using assms by (cases op) (auto simp: ws_rooms_join_def ws_rooms_leave_def sender_tick_def split: option.split)
qed

lemma other_step_same_room:
  assumes "bans_ok (sv_iso_diff S) app" and "\<not> streams op"
  shows "same_room app (app_step S L Q W op app)"
proof -
  have P: "bans_ok (sv_iso_diff S) app \<and> same_room app app" using assms(1) by (simp add: same_room_refl)
  note kept = bystander.ban_routes [OF P] bystander.ban_sockets(1) [OF P] bystander.ban_sockets(2) [OF P P] bystander.resolve [OF P] bystander.stops [OF P]
    bystander.auth_routes [OF P] bystander.add_quick_room [OF P] bystander.reconcile [OF P]
  have "same_room app (snd (start_room_route S room_id app))" for room_id
    using start_retires [OF assms(1), of room_id] by (auto simp: same_room_def split: if_splits)
  moreover have "same_room app (retired_sender_tick i t sent app)" for i t sent
    by (simp add: retired_sender_tick_def same_room_def)
  ultimately show ?thesis using assms(2) kept by (cases op) simp_all
qed

lemma step_retires:
  "bans_ok (sv_iso_diff S) app \<Longrightarrow> length (ap_retired app) \<le> length (ap_retired (app_step S L Q W op app))"
  using stream_step_retires [of op S L Q W app] other_step_same_room [of S app op L Q W]
  by (cases "streams op") (simp_all add: same_room_def)

lemma run_retires:
  assumes "valid_order (sv_order S)"
  shows "app_ok (sv_iso_diff S) app \<Longrightarrow> length (ap_retired app) \<le> length (ap_retired (app_run S L Q W ops app))"
proof (induction ops arbitrary: app)
  case (Cons op ops)
  have "length (ap_retired app) \<le> length (ap_retired (app_step S L Q W op app))"
    using Cons.prems by (intro step_retires) (simp add: app_ok_def)
  also have "\<dots> \<le> length (ap_retired (app_run S L Q W ops (app_step S L Q W op app)))"
    using Cons.prems by (intro Cons.IH app_ok_step [OF assms])
  finally show ?case by (simp add: app_run_def)
qed (simp add: app_run_def)

lemma live_inv_step:
  assumes order: "valid_order (sv_order S)" and ok: "app_ok (sv_iso_diff S) app" and inv: "live_inv ar0 t X d put hs app"
    and stays: "length (ap_retired (app_step S L Q W op app)) = length (ap_retired app)"
  shows "live_inv ar0 t X d (put @ heard_by W op) (hs @ handed_by S op app) (app_step S L Q W op app)"
proof (cases "streams op")
  case True
  then show ?thesis
    using live_inv_frame [OF inv] live_inv_browsers [OF inv] live_inv_dispatch [OF order inv prod.collapse [symmetric]]
    by (cases op) simp_all
next
  case False
  have "ap_room app \<noteq> None" using inv by (auto simp: live_inv_def)
  moreover have "same_room app (app_step S L Q W op app)"
    using ok False by (intro other_step_same_room) (simp_all add: app_ok_def)
  ultimately have "ap_room (app_step S L Q W op app) = ap_room app" using stays by (simp add: same_room_def)
  moreover have "heard_by W op = [] \<and> handed_by S op app = []" using False by (cases op) simp_all
  ultimately show ?thesis using inv live_inv_cong [of "app_step S L Q W op app" app] by simp
qed

lemma live_inv_run:
  assumes order: "valid_order (sv_order S)"
  shows "app_ok (sv_iso_diff S) app \<Longrightarrow> live_inv ar0 t X d put hs app \<Longrightarrow>
    length (ap_retired (app_run S L Q W ops app)) = length (ap_retired app) \<Longrightarrow>
    live_inv ar0 t X d (put @ heard W ops) (hs @ handed S L Q W ops app) (app_run S L Q W ops app)"
proof (induction ops arbitrary: put hs app)
  case (Cons op ops)
  let ?app = "app_step S L Q W op app"
  have ok: "app_ok (sv_iso_diff S) ?app" using Cons.prems(1) by (rule app_ok_step [OF order])
  have run: "app_run S L Q W (op # ops) app = app_run S L Q W ops ?app" by (simp add: app_run_def)
  have "length (ap_retired app) \<le> length (ap_retired ?app)"
    using Cons.prems(1) by (intro step_retires) (simp add: app_ok_def)
  moreover have "length (ap_retired ?app) \<le> length (ap_retired (app_run S L Q W ops ?app))"
    using ok by (rule run_retires [OF order])
  ultimately have stays: "length (ap_retired ?app) = length (ap_retired app)"
    and rest: "length (ap_retired (app_run S L Q W ops ?app)) = length (ap_retired ?app)"
    using Cons.prems(3) run by simp_all
  show ?case
    using Cons.IH [OF ok live_inv_step [OF order Cons.prems(1,2) stays] rest] run by (simp add: heard_def)
qed (simp add: heard_def app_run_def)

subsection \<open>Properties\<close>

text \<open>
  C2. From the wire to a browser, through everything the process does meanwhile: a browser joins the
  active room, then handlers, tasks and frames of the upstream run in any order without the room
  being stopped or replaced. Then the browser is sent exactly the replay followed by the events of
  the messages that were handed to the session, each once and in order (a prefix of it at any time;
  all of it is sent or queued as long as the browser keeps up), and the messages handed over and
  still waiting are, in each priority, the messages of the received frames in the order of arrival:
  some may be missing, but none is invented, repeated or reordered, and none at all is missing while
  the drop counter of the client has not moved.
\<close>

theorem wire_to_browser:
  assumes "valid_order (sv_order S)" and "app_ok (sv_iso_diff S) app" and "ap_room app = Some ar"
    and "se_client (ar_session ar) = Some dc" and "dc_msg_queue dc = Some b" and "buffer_inv b"
    and "ws_rooms_join S ws room_id app = (Registered, app0)"
    and "app' = app_run S L Q W ops app0" and "length (ap_retired app') = length (ap_retired app0)"
  shows "\<exists>ar' dc' b' ch. ap_room app' = Some ar' \<and> se_client (ar_session ar') = Some dc' \<and> dc_msg_queue dc' = Some b' \<and>
    br_channels (ar_bridge ar') (br_next (ar_bridge ar)) = Some ch \<and>
    (let hs = handed S L Q W ops app0;
         owed = map model_dump (replay_snapshot (now_seconds S (ap_world app)) (ar_bridge ar) @ fst (emits hs (ar_session ar)));
         taken = (\<lambda>p. of_priority p (hs @ waiting b'));
         arrived = (\<lambda>p. of_priority p (waiting b @ heard W ops))
     in prefix (ch_sent ch) owed \<and>
        (map_of (br_queues (ar_bridge ar')) (ch_ws ch) = Some (br_next (ar_bridge ar)) \<longrightarrow> ch_stream ch = owed) \<and>
        (\<forall>p. subseq (taken p) (arrived p)) \<and>
        (dm_dropped_messages (dc_metrics dc') = dm_dropped_messages (dc_metrics dc) \<longrightarrow> (\<forall>p. taken p = arrived p)))"
proof -
  have "room_ok ar" using assms(2,3) by (simp add: app_ok_def rooms_ok_def)
  then have inv: "live_inv ar (br_next (ar_bridge ar)) (map model_dump (replay_snapshot (now_seconds S (ap_world app)) (ar_bridge ar)))
      (dm_dropped_messages (dc_metrics dc)) (waiting b) [] app0"
    by (intro live_inv_join [OF assms(3) _ assms(4-7)])
  have "app_ok (sv_iso_diff S) app0" using app_ok_tasks(3) [OF assms(1,2), of ws room_id] assms(7) by simp
  from live_inv_run [OF assms(1) this inv assms(9) [unfolded assms(8)]]
  obtain ar' dc' b' ch where room: "ap_room app' = Some ar'" "se_client (ar_session ar') = Some dc'" "dc_msg_queue dc' = Some b'"
      "br_channels (ar_bridge ar') (br_next (ar_bridge ar)) = Some ch"
    and stream: "prefix (ch_stream ch) (map model_dump (replay_snapshot (now_seconds S (ap_world app)) (ar_bridge ar)
        @ fst (emits (handed S L Q W ops app0) (ar_session ar))))"
      "registered (ar_bridge ar') (br_next (ar_bridge ar)) ch \<longrightarrow>
        ch_stream ch = map model_dump (replay_snapshot (now_seconds S (ap_world app)) (ar_bridge ar)
          @ fst (emits (handed S L Q W ops app0) (ar_session ar)))"
    and lanes: "\<forall>p. subseq (of_priority p (handed S L Q W ops app0 @ waiting b')) (of_priority p (waiting b @ heard W ops))"
      "dm_dropped_messages (dc_metrics dc') = dm_dropped_messages (dc_metrics dc) \<longrightarrow>
        (\<forall>p. of_priority p (handed S L Q W ops app0 @ waiting b') = of_priority p (waiting b @ heard W ops))"
    unfolding assms(8) live_inv_def lanes_kept_def follows_def by auto
  have "prefix (ch_sent ch) (ch_stream ch)" by (simp add: ch_stream_def)
  with room stream lanes show ?thesis
    unfolding Let_def registered_def by (blast intro: prefix_order.trans)
qed

definition stream_client :: danmaku_client where
  "stream_client = (new_danmaku_client 6)\<lparr>dc_running := True,
     dc_msg_queue := Some \<lparr>b_maxsize = 20000, b_queues = (\<lambda>_. []), b_size = 0, b_not_empty = False\<rparr>\<rparr>"

definition stream_app :: "(nat, unit) app" where
  "stream_app = room_app_witness\<lparr>ap_room := Some (room_witness\<lparr>ar_session := (ar_session room_witness)
     \<lparr>se_client := Some stream_client, se_room_id := Some 6\<rparr>\<rparr>)\<rparr>"

lemma wire_to_browser_witness:
  "\<exists>ar' ch. ap_room (app_run room_services login_services_witness quick_services_witness \<lparr>wv_codec = refusal_codec, wv_stack = 1\<rparr>
       [WireFrame 3 (Some (frame_bytes refusal_frame)), Dispatch 4, Sender 0 True] (snd (ws_rooms_join room_services 8 6 stream_app)))
     = Some ar' \<and> br_channels (ar_bridge ar') 1 = Some ch"
proof -
  let ?ops = "[WireFrame 3 (Some (frame_bytes refusal_frame)), Dispatch 4, Sender 0 True] :: nat app_op list"
    and ?W = "\<lparr>wv_codec = refusal_codec, wv_stack = 1\<rparr>" and ?app0 = "snd (ws_rooms_join room_services 8 6 stream_app)"
    and ?ar = "room_witness\<lparr>ar_session := (ar_session room_witness)\<lparr>se_client := Some stream_client, se_room_id := Some 6\<rparr>\<rparr>"
  let ?app' = "app_run room_services login_services_witness quick_services_witness ?W ?ops ?app0"
  have order: "valid_order (sv_order room_services)" by (simp add: room_services_def valid_order_sorted)
  have room: "ap_room stream_app = Some ?ar" by (simp add: stream_app_def)
  have "room_ok ?ar" using room_witness_ok by (simp add: room_ok_def)
  then have ok: "app_ok (sv_iso_diff room_services) stream_app"
    by (simp add: app_ok_defs stream_app_def room_app_witness_def)
  have join: "ws_rooms_join room_services 8 6 stream_app = (Registered, ?app0)"
    by (simp add: ws_rooms_join_def room)
  have queue: "dc_msg_queue stream_client = Some \<lparr>b_maxsize = 20000, b_queues = (\<lambda>_. []), b_size = 0, b_not_empty = False\<rparr>"
    by (simp add: stream_client_def)
  have inv: "buffer_inv \<lparr>b_maxsize = 20000, b_queues = (\<lambda>_. []), b_size = 0, b_not_empty = False\<rparr>"
    by (simp add: buffer_inv_def buffer_contents_def)
  have "ap_retired ?app' = ap_retired ?app0"
    by (simp add: app_run_def stream_step_retires del: app_step.simps)
  moreover have "br_next (ar_bridge ?ar) = 1"
    by (simp add: room_witness_def register_ws_def bridge_witness_def new_bridge_def Let_def)
  ultimately show ?thesis
    using wire_to_browser [OF order ok room _ queue inv join refl, of login_services_witness quick_services_witness ?W ?ops] by auto
qed

text \<open>
  C3. Whatever the handlers, the tasks and the upstream do, in any order, after the start of a
  process: the cached bans are well formed and stored under their own uid, the active room has a
  client, and its session feeds an open bridge and nothing else, and every room that was replaced
  or stopped has a closed bridge without sockets and no client. In particular the ban list of a
  managed room is always served from the cache: no cached row is dropped, changed or makes the
  handler fail.
\<close>

theorem service_invariant:
  assumes "valid_order (sv_order S)"
    and "app = app_run S L Q W ops (snd (lifespan_start S release moved synced repo_root (new_app st files w)))"
  shows "app_ok (sv_iso_diff S) app \<and>
    (\<forall>room_id mg. au_state (ap_auth app) = Authenticated \<and> manages app room_id = Some mg \<longrightarrow>
       get_ban_list_route S room_id False app = (Reply (room_id, dict_values (mg_bans mg)), app))"
proof -
  have ok: "app_ok (sv_iso_diff S) app"
    unfolding assms(2) by (rule app_ok_run [OF assms(1)], rule app_ok_lifespan, rule app_ok_new)
  have "get_ban_list_route S room_id False app = (Reply (room_id, dict_values (mg_bans mg)), app)"
    if "au_state (ap_auth app) = Authenticated" "manages app room_id = Some mg" for room_id mg
  proof -
    have "\<forall>e \<in> set (dict_values (mg_bans mg)). ban_entry_ok (sv_iso_diff S) e"
      using service.manages_ok [of S, unfolded service_ok_iff [OF assms(1)], OF ok that(2)] by (auto simp: manager_ok_def cache_ok_def dict_values_def)
    from normalize_cached_ok [OF this] that show ?thesis
      by (simp add: get_ban_list_route_def require_authenticated_def read_ban_list_def)
  qed
  with ok show ?thesis by blast
qed

lemma service_invariant_witness:
  "app_ok (sv_iso_diff room_services)
     (app_run room_services login_services_witness quick_services_witness
        \<lparr>wv_codec = codec_witness, wv_stack = 9\<rparr>
        [StartRoom 6, JoinRoom 7 6, WireFrame 3 (Some [45]), Dispatch 4, AddQuickRoom NoFault 6, StopRoom]
        (snd (lifespan_start room_services True (Inr ()) (Inr ()) ''/r'' (new_app default_settings Map.empty ()))))"
proof -
  have "valid_order (sv_order room_services)" by (simp add: room_services_def valid_order_sorted)
  from service_invariant [OF this refl] show ?thesis by blast
qed


end
