(* ===== verification/Http_Surface.thy ===== *)
theory Http_Surface
  imports Web_App
begin

section \<open>What a request reaches (\<open>main.py\<close>, \<open>api/router.py\<close>)\<close>

text \<open>
  The application that \<open>create_app\<close> assembles: the guard around the routes of the four routers. FastAPI
  matches a path against the templates in the order of their inclusion and hands the parsed and
  validated parameters to the handler. The guard sees HTTP requests only: \<open>BaseHTTPMiddleware\<close> passes
  the handshake of a WebSocket on.
\<close>

subsection \<open>Routes\<close>

datatype endpoint =
    BootstrapEp | QrStartEp | QrPollEp | AuthStatusEp | AuthMeEp | ManualEp
  | ResolveEp | StartEp | StopEp | RoomsEp | ListQuickEp | AddQuickEp
  | PostBanEp | DeleteBanEp | BanListEp | HealthEp

type_synonym route = "string \<times> string \<times> endpoint" \<comment> \<open>method, template, handler\<close>

definition included :: "string \<Rightarrow> route list \<Rightarrow> route list" where
  "included base routes = map (\<lambda>(method, template, ep). (method, base @ template, ep)) routes"

definition bootstrap_path :: route where "bootstrap_path = (''GET'', ''/bootstrap'', BootstrapEp)"
definition qr_start_path :: route where "qr_start_path = (''POST'', ''/qr/start'', QrStartEp)"
definition qr_poll_path :: route where "qr_poll_path = (''GET'', ''/qr/poll'', QrPollEp)"
definition status_path :: route where "status_path = (''GET'', ''/status'', AuthStatusEp)"
definition me_path :: route where "me_path = (''GET'', ''/me'', AuthMeEp)"
definition manual_path :: route where "manual_path = (''POST'', ''/manual'', ManualEp)"
definition resolve_path :: route where "resolve_path = (''GET'', ''/rooms/resolve'', ResolveEp)"
definition start_path :: route where "start_path = (''POST'', ''/rooms/start'', StartEp)"
definition stop_path :: route where "stop_path = (''POST'', ''/rooms/stop'', StopEp)"
definition rooms_path :: route where "rooms_path = (''GET'', ''/rooms'', RoomsEp)"
definition list_quick_path :: route where "list_quick_path = (''GET'', [], ListQuickEp)"
definition add_quick_path :: route where "add_quick_path = (''POST'', [], AddQuickEp)"
definition post_ban_path :: route where "post_ban_path = (''POST'', ''/ban'', PostBanEp)"
definition delete_ban_path :: route where "delete_ban_path = (''DELETE'', ''/ban'', DeleteBanEp)"
definition ban_list_path :: route where "ban_list_path = (''GET'', ''/ban-list/{room_id}'', BanListEp)"
definition health_path :: route where "health_path = (''GET'', ''/health'', HealthEp)"

lemmas path_defs =
  bootstrap_path_def qr_start_path_def qr_poll_path_def status_path_def me_path_def manual_path_def resolve_path_def
  start_path_def stop_path_def rooms_path_def list_quick_path_def add_quick_path_def post_ban_path_def
  delete_ban_path_def ban_list_path_def health_path_def

definition auth_router :: "route list" where
  "auth_router = included ''/auth'' [bootstrap_path, qr_start_path, qr_poll_path, status_path, me_path, manual_path]"

definition room_router :: "route list" where
  "room_router = included [] [resolve_path, start_path, stop_path, rooms_path]"

definition quick_room_router :: "route list" where
  "quick_room_router = included ''/quick-rooms'' [list_quick_path, add_quick_path]"

definition ban_router :: "route list" where
  "ban_router = included [] [post_ban_path, delete_ban_path, ban_list_path]"

definition api_router :: "route list" where
  "api_router = included ''/api'' (auth_router @ room_router @ quick_room_router @ ban_router)"

text \<open>The routes of \<open>create_app\<close>; the files of the front end, which are mounted last, have no state.\<close>

definition app_routes :: "route list" where
  "app_routes = api_router @ [health_path]"

text \<open>A template in braces stands for one non-empty segment.\<close>

definition segment_matches :: "string \<Rightarrow> string \<Rightarrow> bool" where
  "segment_matches t s = (if take 1 t = ''{'' then s \<noteq> [] else t = s)"

definition path_matches :: "string \<Rightarrow> string \<Rightarrow> bool" where
  "path_matches template path =
     list_all2 segment_matches (split_on (CHR ''/'') template) (split_on (CHR ''/'') path)"

definition find_route :: "string \<Rightarrow> string \<Rightarrow> endpoint option" where
  "find_route method path =
     map_option (\<lambda>(m, t, ep). ep) (find (\<lambda>(m, t, ep). m = method \<and> path_matches t path) app_routes)"

subsection \<open>Requests\<close>

text \<open>
  What FastAPI has parsed for the handler; \<open>rp_parsed\<close> is whether it could. The fault is that of the
  write of a quick room.
\<close>

record request_parameters =
  rp_parsed :: bool
  rp_room_id :: int
  rp_refresh :: bool
  rp_key :: string
  rp_ban :: ban_request
  rp_unban :: unban_request
  rp_cookies :: manual_cookies_request
  rp_fault :: write_fault

text \<open>
  \<open>hq_path\<close> is the path of the request line, by which the routes are chosen. The guard reads the one of
  \<open>request.url\<close>, which Starlette puts together with the \<open>Host\<close> header.
\<close>

record http_request =
  hq_method :: string
  hq_path :: string
  hq_web :: web_request
  hq_params :: request_parameters

text \<open>The step a handler makes; the other handlers only read.\<close>

fun endpoint_op :: "string \<Rightarrow> endpoint \<Rightarrow> request_parameters \<Rightarrow> 'ws app_op option" where
  "endpoint_op fresh BootstrapEp ps = Some (Bootstrap fresh)"
| "endpoint_op fresh QrStartEp ps = Some QrStart"
| "endpoint_op fresh QrPollEp ps = Some (QrPoll (rp_key ps))"
| "endpoint_op fresh AuthMeEp ps = Some AuthMe"
| "endpoint_op fresh ManualEp ps = Some (ManualLogin (rp_cookies ps))"
| "endpoint_op fresh ResolveEp ps = Some (ResolveRoom (rp_room_id ps))"
| "endpoint_op fresh StartEp ps = Some (StartRoom (rp_room_id ps))"
| "endpoint_op fresh StopEp ps = Some StopRoom"
| "endpoint_op fresh AddQuickEp ps = Some (AddQuickRoom (rp_fault ps) (rp_room_id ps))"
| "endpoint_op fresh PostBanEp ps = Some (PostBan (rp_ban ps))"
| "endpoint_op fresh DeleteBanEp ps = Some (DeleteBan (rp_unban ps))"
| "endpoint_op fresh BanListEp ps = Some (GetBanList (rp_room_id ps) (rp_refresh ps))"
| "endpoint_op fresh _ ps = None"

text \<open>The bounds of the request models.\<close>

fun parameters_valid :: "endpoint \<Rightarrow> request_parameters \<Rightarrow> bool" where
  "parameters_valid PostBanEp ps = valid_ban_request (rp_ban ps)"
| "parameters_valid DeleteBanEp ps = valid_unban_request (rp_unban ps)"
| "parameters_valid ManualEp ps = valid_manual_cookies (rp_cookies ps)"
| "parameters_valid StartEp ps = (0 < rp_room_id ps)"
| "parameters_valid AddQuickEp ps = valid_add_request (rp_room_id ps)"
| "parameters_valid _ ps = True"

datatype http_answer = Rejected nat | GuardRaises py_exn | NoRoute | Unprocessable | Handled endpoint

text \<open>The guard computes the token when it gets to the comparison.\<close>

definition guard_reads_token :: "(string \<Rightarrow> bool) \<Rightarrow> web_request \<Rightarrow> bool" where
  "guard_reads_token netloc_ok rq \<longleftrightarrow>
     is_protected (wr_path rq) \<and> \<not> is_fully_exempt (wr_path rq) \<and> host_is_allowed netloc_ok rq = Inr True \<and>
     \<not> is_token_exempt (wr_path rq)"

definition guard :: "(string \<Rightarrow> bool) \<Rightarrow> string \<Rightarrow> web_request \<Rightarrow> ('ws, 'w) app \<Rightarrow> (py_exn + verdict) \<times> ('ws, 'w) app" where
  "guard netloc_ok fresh rq app =
     (case LOCAL_TOKEN fresh (ap_token app) of
        (token, cache) \<Rightarrow>
          (dispatch netloc_ok token rq, if guard_reads_token netloc_ok rq then app\<lparr>ap_token := cache\<rparr> else app))"

definition run_endpoint ::
    "('ws, 'w) services \<Rightarrow> 'w login_services \<Rightarrow> quick_services \<Rightarrow> wire_services \<Rightarrow> string \<Rightarrow> http_request \<Rightarrow> ('ws, 'w) app
      \<Rightarrow> http_answer \<times> ('ws, 'w) app" where
  "run_endpoint S L Q W fresh rq app =
     (case find_route (hq_method rq) (hq_path rq) of
        None \<Rightarrow> (NoRoute, app)
      | Some ep \<Rightarrow>
          if \<not> rp_parsed (hq_params rq) \<or> \<not> parameters_valid ep (hq_params rq) then (Unprocessable, app)
          else (Handled ep,
                case endpoint_op fresh ep (hq_params rq) of None \<Rightarrow> app | Some op \<Rightarrow> app_step S L Q W op app))"

definition serve_http ::
    "('ws, 'w) services \<Rightarrow> 'w login_services \<Rightarrow> quick_services \<Rightarrow> wire_services \<Rightarrow> (string \<Rightarrow> bool) \<Rightarrow> string \<Rightarrow> http_request
      \<Rightarrow> ('ws, 'w) app \<Rightarrow> http_answer \<times> ('ws, 'w) app" where
  "serve_http S L Q W netloc_ok fresh rq app =
     (case guard netloc_ok fresh (hq_web rq) app of
        (Inl e, app1) \<Rightarrow> (GuardRaises e, app1)
      | (Inr (Reject status), app1) \<Rightarrow> (Rejected status, app1)
      | (Inr Forward, app1) \<Rightarrow> run_endpoint S L Q W fresh rq app1)"

text \<open>The two socket routes, whose handshake the guard does not see.\<close>

definition ws_rooms_template :: string where "ws_rooms_template = ''/ws/rooms/{room_id}''"
definition ws_banlist_template :: string where "ws_banlist_template = ''/ws/rooms/{room_id}/banlist''"

definition serve_socket ::
    "('ws, 'w) services \<Rightarrow> 'w login_services \<Rightarrow> quick_services \<Rightarrow> wire_services \<Rightarrow> web_request \<Rightarrow> 'ws \<Rightarrow> int \<Rightarrow> ('ws, 'w) app \<Rightarrow> ('ws, 'w) app" where
  "serve_socket S L Q W rq ws room_id app =
     (if path_matches (''/api'' @ ws_rooms_template) (wr_path rq) then app_step S L Q W (JoinRoom ws room_id) app
      else if path_matches (''/api'' @ ws_banlist_template) (wr_path rq) then app_step S L Q W (JoinBanlist ws room_id) app
      else app)"

text \<open>What happens to the process: requests, handshakes, and its own tasks and sockets.\<close>

datatype 'ws event = Request http_request | Handshake web_request 'ws int | Task "'ws app_op"

fun serve ::
    "('ws, 'w) services \<Rightarrow> 'w login_services \<Rightarrow> quick_services \<Rightarrow> wire_services \<Rightarrow> (string \<Rightarrow> bool) \<Rightarrow> string \<Rightarrow> 'ws event
      \<Rightarrow> ('ws, 'w) app \<Rightarrow> ('ws, 'w) app" where
  "serve S L Q W netloc_ok fresh (Request rq) app = snd (serve_http S L Q W netloc_ok fresh rq app)"
| "serve S L Q W netloc_ok fresh (Handshake rq ws room_id) app = serve_socket S L Q W rq ws room_id app"
| "serve S L Q W netloc_ok fresh (Task op) app = app_step S L Q W op app"

definition serve_all ::
    "('ws, 'w) services \<Rightarrow> 'w login_services \<Rightarrow> quick_services \<Rightarrow> wire_services \<Rightarrow> (string \<Rightarrow> bool) \<Rightarrow> string \<Rightarrow> 'ws event list
      \<Rightarrow> ('ws, 'w) app \<Rightarrow> ('ws, 'w) app" where
  "serve_all S L Q W netloc_ok fresh events app = fold (serve S L Q W netloc_ok fresh) events app"

subsection \<open>Every route of the interface is protected\<close>

lemma split_on_Cons:
  "split_on c s = p # ps \<Longrightarrow> (if ps = [] then s = p else \<exists>t. s = p @ c # t \<and> split_on c t = ps)"
proof (induction s arbitrary: p ps)
  case (Cons x s)
  show ?case
  proof (cases "x = c")
    case True
    with Cons.prems show ?thesis by auto
  next
    case False
    obtain q qs where s: "split_on c s = q # qs" by (cases "split_on c s") auto
    with Cons.prems False have "p = x # q" "ps = qs" by auto
    with Cons.IH [OF s] show ?thesis by (cases "qs = []") auto
  qed
qed simp

lemma api_path_protected:
  assumes "path_matches (''/api'' @ CHR ''/'' # t) path"
  shows "is_protected path"
proof -
  obtain ps where path: "split_on (CHR ''/'') path = [] # ''api'' # ps"
    and "list_all2 segment_matches (split_on (CHR ''/'') t) ps"
    using assms by (auto simp: path_matches_def segment_matches_def list_all2_Cons1 split: if_splits)
  then have "ps \<noteq> []" by auto
  then have "\<exists>r. path = ''/api/'' @ r"
    using split_on_Cons [OF path] split_on_Cons [of "CHR ''/''" _ "''api''" ps] by fastforce
  then show ?thesis by (auto simp: is_protected_def under_prefix_def PROTECTED_PATH_PREFIXES_def starts_with_def)
qed

lemma find_route_Some:
  assumes "find_route method path = Some ep"
  shows "ep = HealthEp \<or> is_protected path"
proof -
  obtain t where t: "(method, t, ep) \<in> set app_routes" "path_matches t path"
    using assms by (auto simp: find_route_def find_Some_iff) (metis nth_mem)
  then consider "ep = HealthEp" | t' where "t = ''/api'' @ CHR ''/'' # t'"
    by (auto simp: app_routes_def api_router_def auth_router_def room_router_def quick_room_router_def ban_router_def
        included_def path_defs)
  then show ?thesis using api_path_protected t(2) by cases auto
qed

lemma find_bootstrap:
  assumes "find_route method path = Some ep" and "is_token_exempt path"
  shows "ep = BootstrapEp"
proof -
  note routes = find_route_def app_routes_def api_router_def auth_router_def room_router_def quick_room_router_def ban_router_def
    included_def path_defs path_matches_def segment_matches_def
  consider "path = ''/api/auth/bootstrap''" | r where "path = ''/api/auth/bootstrap/'' @ r"
    using assms(2) by (auto simp: is_token_exempt_def under_prefix_def TOKEN_EXEMPT_PATH_PREFIXES_def starts_with_iff)
  then show ?thesis
  proof cases
    case 1
    then show ?thesis using assms(1) by (simp add: routes split: if_splits)
  next
    case 2
    then show ?thesis using assms(1) by (simp add: routes split: if_splits)
  qed
qed

subsection \<open>The token stays\<close>

definition keyed :: "('ws, 'w) services \<Rightarrow> string \<Rightarrow> ('ws, 'w) app \<Rightarrow> bool" where
  "keyed S token app \<longleftrightarrow> bans_ok (sv_iso_diff S) app \<and> ap_token app = Some token"

lemma shut_room_token [simp]: "ap_token (shut_room S app) = ap_token app" "ap_token (stop_banlist_manager app) = ap_token app"
  by (auto simp: shut_room_def stop_banlist_manager_def split: option.split prod.split)

interpretation keyed: process_invariant S "keyed S token"
  for S :: "('ws, 'w) services" and token
proof unfold_locales
  show "keyed S token app \<Longrightarrow> keyed S token (snd (stop_room_route S app))" for app :: "('ws, 'w) app"
    by (auto simp: keyed_def stop_room_route_def bans_ok_def stop_banlist_manager_def)
qed (auto simp: keyed_def bans_ok_def LOCAL_TOKEN_def)

lemma keyed_start:
  assumes ok: "keyed S token app"
  shows "keyed S token (snd (start_room_route S room_id app))"
proof -
  let ?app0 = "shut_room S (stop_banlist_manager app)"
  obtain r s app1 where c: "connect_room S room_id ?app0 = (r, s, app1)" by (metis prod_cases3)
  note frame = connect_room_frame [OF c]
  have "ap_manager ?app0 = None" by (auto simp: shut_room_def stop_banlist_manager_def split: option.split prod.split)
  then have ok1: "keyed S token app1" using ok by (simp add: keyed_def bans_ok_def frame)
  have looked: "keyed S token app3" if h: "lookup_role S i (app1\<lparr>ap_room := x\<rparr>) = (role, app3)" for i x role app3
    using ok1 lookup_role_frame [OF h] by (simp add: keyed_def bans_ok_def)
  have dropped: "keyed S token (drop_session s app1)" using ok1 by (simp add: keyed_def bans_ok_def)
  show ?thesis
    using ok1 dropped keyed.expire [OF dropped]
    by (auto simp: start_room_route_def c Let_def dest: looked
        split: sum.split exn.split bili_error.split option.split prod.split)
qed

lemma keyed_step:
  assumes ok: "keyed S token app"
  shows "keyed S token (app_step S L Q W op app)"
proof -
  have live: "keyed S token (snd (with_live_client call app))" for call :: "danmaku_client \<Rightarrow> 'c \<times> danmaku_client"
    using ok by (auto simp: with_live_client_def keyed_def bans_ok_def split: option.split prod.split)
  have tasks: "keyed S token (wire_frame C stack t data app)" "keyed S token (snd (dispatch_one S t app))"
      "keyed S token (snd (ws_rooms_join S ws room_id app))" "keyed S token (ws_rooms_leave ws app)"
      "keyed S token (sender_tick n sent app)" "keyed S token (retired_sender_tick i n sent app)"
    for C stack t data ws room_id n i sent
    using ok live live [of "process_one t"]
    by (auto simp: wire_frame_def dispatch_one_def ws_rooms_join_def ws_rooms_leave_def sender_tick_def retired_sender_tick_def
        room_message_def keyed_def bans_ok_def Let_def split: option.split prod.split)
  show ?thesis
    using tasks keyed.ban_routes [OF ok] keyed.ban_sockets [OF ok] keyed.resolve [OF ok] keyed.stops [OF ok]
      keyed.auth_routes [OF ok] keyed.add_quick_room [OF ok] keyed.reconcile [OF ok] keyed_start [OF ok] ok
    by (cases op) simp_all
qed

subsection \<open>What a stranger can do\<close>

text \<open>A request of the front end comes from this machine and carries the token in its header.\<close>

fun entitled :: "(string \<Rightarrow> bool) \<Rightarrow> string \<Rightarrow> 'ws event \<Rightarrow> bool" where
  "entitled netloc_ok token (Request rq) \<longleftrightarrow>
     host_is_allowed netloc_ok (hq_web rq) = Inr True \<and> wr_authorization (hq_web rq) = Some (''Bearer '' @ token)"
| "entitled netloc_ok token _ \<longleftrightarrow> True"

lemma find_route_ws: "is_ws_path path \<Longrightarrow> find_route method path = None"
proof -
  assume ws: "is_ws_path path"
  note routes = find_route_def app_routes_def api_router_def auth_router_def room_router_def quick_room_router_def ban_router_def
    included_def path_defs path_matches_def segment_matches_def
  from ws consider r where "path = ''/ws'' @ r" | r where "path = ''/api/ws'' @ r"
    by (auto simp: is_ws_path_def starts_with_iff)
  then show ?thesis
  proof cases
    case (1 r)
    obtain p ps where "split_on (CHR ''/'') r = p # ps" by (cases "split_on (CHR ''/'') r") auto
    with 1 show ?thesis by (simp add: routes)
  next
    case (2 r)
    obtain p ps where "split_on (CHR ''/'') r = p # ps" by (cases "split_on (CHR ''/'') r") auto
    with 2 show ?thesis by (simp add: routes)
  qed
qed

lemma serve_stranger:
  assumes "ap_token app = Some token" and "ascii_string token" and "token \<noteq> []"
    and path: "hq_path rq = wr_path (hq_web rq)" and "\<not> entitled netloc_ok token (Request rq)"
  shows "snd (serve_http S L Q W netloc_ok fresh rq app) = app \<and>
    (\<forall>ep. fst (serve_http S L Q W netloc_ok fresh rq app) = Handled ep \<longrightarrow> ep \<in> {BootstrapEp, HealthEp})"
proof -
  have same: "app\<lparr>ap_token := Some token\<rparr> = app" using assms(1) by simp
  have guard: "guard netloc_ok fresh (hq_web rq) app = (dispatch netloc_ok token (hq_web rq), app)"
    using assms(1) same by (simp add: guard_def LOCAL_TOKEN_def)
  have eps: "ep \<in> {BootstrapEp, HealthEp}"
    if forward: "dispatch netloc_ok token (hq_web rq) = Inr Forward" and ep: "find_route (hq_method rq) (hq_path rq) = Some ep" for ep
  proof (cases "is_protected (hq_path rq)")
    case True
    then have "is_token_exempt (hq_path rq)"
      using dispatch_forward [of "hq_web rq" token netloc_ok] forward assms(2,3,5) find_route_ws [of "hq_path rq" "hq_method rq"] ep
      by (auto simp: path)
    then show ?thesis using find_bootstrap [OF ep] by simp
  qed (use find_route_Some [OF ep] in simp)
  have boot: "app_step S L Q W (Bootstrap fresh) app = app"
    using assms(1) same by (simp add: auth_bootstrap_def LOCAL_TOKEN_def)
  show ?thesis
  proof (cases "dispatch netloc_ok token (hq_web rq) = Inr Forward")
    case True
    then have "serve_http S L Q W netloc_ok fresh rq app = run_endpoint S L Q W fresh rq app"
      by (simp add: serve_http_def guard)
    then show ?thesis
      using eps [OF True] boot by (cases "find_route (hq_method rq) (hq_path rq)") (auto simp: run_endpoint_def simp del: app_step.simps)
  next
    case False
    then show ?thesis by (auto simp: serve_http_def guard split: sum.split verdict.split)
  qed
qed

lemma serve_entitled:
  assumes "ap_token app = Some token" and "ascii_string token" and "token \<noteq> []"
    and "entitled netloc_ok token (Request rq)" and "find_route (hq_method rq) (hq_path rq) = Some ep"
    and "rp_parsed (hq_params rq)" and "parameters_valid ep (hq_params rq)"
  shows "fst (serve_http S L Q W netloc_ok fresh rq app) = Handled ep"
proof -
  have "dispatch netloc_ok token (hq_web rq) = Inr Forward"
    using dispatch_forward [of "hq_web rq" token netloc_ok] assms(2-4)
    by (cases "is_protected (wr_path (hq_web rq))") (simp_all add: dispatch_def Let_def)
  then show ?thesis
    using assms(1,5-7) by (simp add: serve_http_def guard_def LOCAL_TOKEN_def run_endpoint_def)
qed

lemma keyed_serve:
  assumes ok: "keyed S token app"
  shows "keyed S token (serve S L Q W netloc_ok fresh e app)"
proof (cases e)
  case (Request rq)
  have "app\<lparr>ap_token := Some token\<rparr> = app" using ok by (simp add: keyed_def)
  then have "guard netloc_ok fresh (hq_web rq) app = (dispatch netloc_ok token (hq_web rq), app)"
    using ok by (simp add: guard_def LOCAL_TOKEN_def keyed_def)
  moreover have "keyed S token (snd (run_endpoint S L Q W fresh rq app))"
    using ok keyed_step [OF ok] by (simp add: run_endpoint_def split: option.split del: app_step.simps)
  ultimately show ?thesis
    using ok Request by (simp add: serve_http_def split: sum.split verdict.split)
qed (simp_all add: serve_socket_def ok keyed_step [OF ok] del: app_step.simps)

text \<open>
  Steps that may be left out of a run: the ones of a stranger, who leaves every state of the invariant
  as it is.
\<close>

locale unaffected =
  fixes step :: "'e \<Rightarrow> 's \<Rightarrow> 's" and inv :: "'s \<Rightarrow> bool" and stranger :: "'e \<Rightarrow> bool"
  assumes kept: "inv s \<Longrightarrow> inv (step e s)"
    and ignored: "inv s \<Longrightarrow> stranger e \<Longrightarrow> step e s = s"
begin

lemma run_kept: "inv s \<Longrightarrow> inv (fold step es s)"
  by (induction es arbitrary: s) (simp_all add: kept)

lemma run_purged: "inv s \<Longrightarrow> fold step es s = fold step (filter (\<lambda>e. \<not> stranger e) es) s"
  by (induction es arbitrary: s) (simp_all add: kept ignored)

end

text \<open>The guard and the routes read the same path of the request.\<close>

fun same_path :: "'ws event \<Rightarrow> bool" where
  "same_path (Request rq) \<longleftrightarrow> hq_path rq = wr_path (hq_web rq)"
| "same_path _ \<longleftrightarrow> True"

interpretation guarded: unaffected "serve S L Q W netloc_ok fresh" "\<lambda>app. keyed S token app \<and> ascii_string token \<and> token \<noteq> []"
    "\<lambda>e. \<not> entitled netloc_ok token e \<and> same_path e"
  for S :: "('ws, 'w) services" and L Q W netloc_ok fresh token
proof unfold_locales
  fix app :: "('ws, 'w) app" and e :: "'ws event"
  assume ok: "keyed S token app \<and> ascii_string token \<and> token \<noteq> []"
  then show "keyed S token (serve S L Q W netloc_ok fresh e app) \<and> ascii_string token \<and> token \<noteq> []"
    using keyed_serve by blast
  assume stranger: "\<not> entitled netloc_ok token e \<and> same_path e"
  show "serve S L Q W netloc_ok fresh e app = app"
  proof (cases e)
    case (Request rq)
    then have "ap_token app = Some token" "hq_path rq = wr_path (hq_web rq)" "\<not> entitled netloc_ok token (Request rq :: 'ws event)"
      using ok stranger by (simp_all add: keyed_def)
    then show ?thesis
      using ok serve_stranger unfolding Request serve.simps by blast
  qed (use stranger in simp_all)
qed

text \<open>
  C13. Requests that do not come from this machine with the token do not interfere: whatever else happens
  to the process, it ends in the same state as without them, and the only handlers they reach are
  the health probe and the bootstrap. This covers every route of the service, and guessed tokens and
  tokens in the query. A request that has both does reach the handler of its route. (The path that the
  guard reads is that of the request line, unless the \<open>Host\<close> header itself contains one.)
\<close>

theorem strangers_do_not_interfere:
  assumes "bans_ok (sv_iso_diff S) app" and "ap_token app = Some token" and "ascii_string token" and "token \<noteq> []"
    and "\<And>rq. Request rq \<in> set events \<Longrightarrow> hq_path rq = wr_path (hq_web rq)"
  shows "serve_all S L Q W netloc_ok fresh events app = serve_all S L Q W netloc_ok fresh (filter (entitled netloc_ok token) events) app \<and>
    (\<forall>rq before ep. Request rq \<in> set events \<and> \<not> entitled netloc_ok token (Request rq :: 'ws event) \<and>
       fst (serve_http S L Q W netloc_ok fresh rq (serve_all S L Q W netloc_ok fresh before app)) = Handled ep \<longrightarrow>
       ep \<in> {BootstrapEp, HealthEp}) \<and>
    (\<forall>rq before ep. entitled netloc_ok token (Request rq :: 'ws event) \<and> find_route (hq_method rq) (hq_path rq) = Some ep \<and>
       rp_parsed (hq_params rq) \<and> parameters_valid ep (hq_params rq) \<longrightarrow>
       fst (serve_http S L Q W netloc_ok fresh rq (serve_all S L Q W netloc_ok fresh before app)) = Handled ep)"
proof -
  have ok: "keyed S token app \<and> ascii_string token \<and> token \<noteq> []" using assms(1-4) by (simp add: keyed_def)
  have path: "same_path e" if "e \<in> set events" for e using assms(5) that by (cases e) auto
  then have "filter (\<lambda>e. \<not> (\<not> entitled netloc_ok token e \<and> same_path e)) events = filter (entitled netloc_ok token) events"
    by (intro filter_cong) auto
  then have run: "serve_all S L Q W netloc_ok fresh events app
      = serve_all S L Q W netloc_ok fresh (filter (entitled netloc_ok token) events) app"
    using guarded.run_purged [OF ok, of L Q W netloc_ok fresh events] by (simp only: serve_all_def)
  have token: "ap_token (serve_all S L Q W netloc_ok fresh before app) = Some token" for before
    using guarded.run_kept [OF ok] by (simp add: keyed_def serve_all_def)
  have "ep \<in> {BootstrapEp, HealthEp}"
    if h: "Request rq \<in> set events" "\<not> entitled netloc_ok token (Request rq :: 'ws event)"
      "fst (serve_http S L Q W netloc_ok fresh rq (serve_all S L Q W netloc_ok fresh before app)) = Handled ep" for rq before ep
    using serve_stranger [OF token assms(3,4) assms(5) [OF h(1)] h(2)] h(3) by blast
  with run serve_entitled [OF token assms(3,4)] show ?thesis by blast
qed

text \<open>A stranger who wants to stop the room, and the user who does.\<close>

definition no_parameters :: request_parameters where
  "no_parameters =
     \<lparr>rp_parsed = True, rp_room_id = 6, rp_refresh = False, rp_key = [], rp_ban = \<lparr>bq_room_id = 6, bq_uid = 1, bq_hour = 0, bq_reason = [], bq_uname = []\<rparr>,
      rp_unban = \<lparr>uq_room_id = 6, uq_block_id = 1, uq_uid = 1\<rparr>,
      rp_cookies = \<lparr>mq_sessdata = [], mq_bili_jct = [], mq_buvid3 = None\<rparr>, rp_fault = NoFault\<rparr>"

definition stop_request :: "string option \<Rightarrow> http_request" where
  "stop_request authorization =
     \<lparr>hq_method = ''POST'', hq_path = ''/api/rooms/stop'',
      hq_web = \<lparr>wr_path = ''/api/rooms/stop'', wr_host = Some ''localhost:8000'', wr_authorization = authorization, wr_query_token = ''0f''\<rparr>,
      hq_params = no_parameters\<rparr>"

lemma strangers_do_not_interfere_witness:
  "serve_all room_services login_services_witness quick_services_witness \<lparr>wv_codec = codec_witness, wv_stack = 9\<rparr> (\<lambda>_. True) ''1e''
     [Request (stop_request (Some ''Bearer 00'')), Request (stop_request (Some ''Bearer 0f''))] (room_app_witness\<lparr>ap_token := Some ''0f''\<rparr>) =
   serve_all room_services login_services_witness quick_services_witness \<lparr>wv_codec = codec_witness, wv_stack = 9\<rparr> (\<lambda>_. True) ''1e''
     [Request (stop_request (Some ''Bearer 0f''))] (room_app_witness\<lparr>ap_token := Some ''0f''\<rparr>)"
proof -
  let ?events = "[Request (stop_request (Some ''Bearer 00'')), Request (stop_request (Some ''Bearer 0f''))] :: nat event list"
  have "host_is_allowed (\<lambda>_. True) (hq_web (stop_request a)) = Inr True" for a
  proof -
    have "host_is_allowed (\<lambda>_. True) (hq_web (stop_request None)) = Inr True" by code_simp
    then show ?thesis by (simp add: host_is_allowed_def stop_request_def)
  qed
  moreover have "wr_authorization (hq_web (stop_request a)) = a" for a by (simp add: stop_request_def)
  ultimately have legit: "filter (entitled (\<lambda>_. True) ''0f'') ?events = [Request (stop_request (Some ''Bearer 0f''))]"
    by simp
  have bans: "bans_ok (sv_iso_diff room_services) (room_app_witness\<lparr>ap_token := Some ''0f''\<rparr>)"
    by (simp add: bans_ok_def room_app_witness_def)
  have paths: "hq_path rq = wr_path (hq_web rq)" if "Request rq \<in> set ?events" for rq
    using that by (auto simp: stop_request_def)
  have "ap_token (room_app_witness\<lparr>ap_token := Some ''0f''\<rparr>) = Some ''0f''" "ascii_string ''0f''" "''0f'' \<noteq> []"
    by (simp_all add: ascii_string_def)
  then have "serve_all room_services login_services_witness quick_services_witness \<lparr>wv_codec = codec_witness, wv_stack = 9\<rparr> (\<lambda>_. True) ''1e''
      ?events (room_app_witness\<lparr>ap_token := Some ''0f''\<rparr>) =
    serve_all room_services login_services_witness quick_services_witness \<lparr>wv_codec = codec_witness, wv_stack = 9\<rparr> (\<lambda>_. True) ''1e''
      (filter (entitled (\<lambda>_. True) ''0f'') ?events) (room_app_witness\<lparr>ap_token := Some ''0f''\<rparr>)"
    using paths by (intro strangers_do_not_interfere [OF bans, THEN conjunct1])
  then show ?thesis by (simp only: legit)
qed

text \<open>
  A handshake needs neither: whatever the request carries, its socket joins the stream of the room.
\<close>

theorem handshake_is_not_guarded:
  assumes "wr_path rq = ''/api/ws/rooms/6''"
  shows "serve S L Q W netloc_ok fresh (Handshake rq ws 6) app = snd (ws_rooms_join S ws 6 app)"
  using assms by (simp add: serve_socket_def path_matches_def segment_matches_def ws_rooms_template_def)

text \<open>
  The guard is the outermost layer, for every method: a preflight request, which carries no token, does
  not get to the CORS layer behind it.
\<close>

theorem preflight_is_rejected:
  assumes "hq_method rq = ''OPTIONS''" and "wr_authorization (hq_web rq) = None"
    and "is_protected (wr_path (hq_web rq))" and "\<not> is_token_exempt (wr_path (hq_web rq))" and "\<not> is_ws_path (wr_path (hq_web rq))"
    and "host_is_allowed netloc_ok (hq_web rq) = Inr True"
  shows "fst (serve_http S L Q W netloc_ok fresh rq app) = Rejected 401"
  using assms protected_not_exempt [of "wr_path (hq_web rq)"]
  by (simp add: serve_http_def guard_def dispatch_def request_carries_valid_token_def extract_bearer_def Let_def split: prod.split)

end
