(* ===== verification/Room_Switch.thy ===== *)
theory Room_Switch
  imports Room_Routes
begin

section \<open>Overlapping room requests (\<open>api/room_routes.py\<close>)\<close>

text \<open>
  \<open>start_room_route\<close> and \<open>stop_room_route\<close> hold no lock, so another request may run at each of their
  awaits. Here a handler is the sequence of its awaits, and any number of handlers interleave. Kept
  of a session and its bridge is what the handlers test and change: whether the session has a client,
  whether this client is running, whether the bridge is open, and which bridge is published. Proved
  are what holds under every interleaving, what requests that wait for each other guarantee, what
  overlapping requests leak, and that the atomic routes of \<open>Room_Routes\<close> are undisturbed handlers.
\<close>

subsection \<open>State\<close>

text \<open>Sessions are numbered in the order of their construction; a bridge has the number of its session.\<close>

record rooms =
  rs_published :: "nat option"   \<comment> \<open>\<open>room_bridge\<close>\<close>
  rs_clients :: "nat set"        \<comment> \<open>connected sessions whose \<open>_client\<close> is not None\<close>
  rs_running :: "nat set"        \<comment> \<open>sessions whose client started and is not stopped\<close>
  rs_open :: "nat set"           \<comment> \<open>bridges whose \<open>_closed\<close> is False\<close>
  rs_next :: nat

definition no_rooms :: rooms where
  "no_rooms = \<lparr>rs_published = None, rs_clients = {}, rs_running = {}, rs_open = {}, rs_next = 0\<rparr>"

text \<open>
  \<open>ExpireLogin\<close> is \<open>handle_auth_expired\<close> with the listener of \<open>lifespan\<close>, which awaits
  \<open>stop_room_route\<close>; a start whose connection finds the login expired goes on as one.
\<close>

datatype room_request = StartRoom | StopRoom | ExpireLogin

text \<open>
  \<open>Refused\<close> is any reply of a start that brings no room up, and \<open>Broke n\<close> the internal server error of
  a start whose \<open>connect\<close> raised after the client of its session had started, as when the active Super
  Chats of \<open>_load_active_super_chats\<close> cannot be read: nobody stops this client.
\<close>

datatype room_reply = Started nat | Stopped | Refused | Broke nat

text \<open>
  The await a handler is suspended in, or its end. An awaited call may itself suspend more than once;
  what it does to this state is done before its first or after its last suspension, except that
  \<open>disconnect\<close> drops the client before it broadcasts the status, where another handler goes on as if
  its own \<open>disconnect\<close> had just returned. Handlers are not cancelled.
\<close>

datatype phase =
    StoppingBans room_request         \<comment> \<open>\<open>stop_banlist_manager()\<close>\<close>
  | Disconnecting room_request nat    \<comment> \<open>\<open>previous.room_session.disconnect()\<close>\<close>
  | Closing room_request nat          \<comment> \<open>\<open>previous.close()\<close>\<close>
  | Joining nat                    \<comment> \<open>\<open>session.connect(room_id)\<close>\<close>
  | Creating nat                      \<comment> \<open>\<open>RoomBridge.create(session)\<close>\<close>
  | LookingUp nat                     \<comment> \<open>\<open>get_room_user_role\<close> under \<open>wait_for\<close>\<close>
  | Replied room_reply

text \<open>
  How the awaited call ends: normally, or by a failure (a raised exception, or \<open>connect\<close> returning
  False), or by \<open>AuthExpiredError\<close>, or, in \<open>connect\<close>, by an exception after \<open>client.start()\<close> has
  returned True. Only \<open>disconnect\<close> and \<open>connect\<close> let the handler tell these apart.
\<close>

datatype await_end = Succeeds | Fails | Expires | Breaks

subsection \<open>The handlers, from one await to the next\<close>

definition closing_reply :: "room_request \<Rightarrow> room_reply" where
  "closing_reply q = (if q = StopRoom then Stopped else Refused)"

text \<open>What follows the teardown: the new session of a start, or \<open>stop_banlist_manager\<close>.\<close>

definition after_teardown :: "room_request \<Rightarrow> rooms \<Rightarrow> phase \<times> rooms" where
  "after_teardown q r =
     (if q = StartRoom then (Joining (rs_next r), r\<lparr>rs_next := Suc (rs_next r)\<rparr>) else (StoppingBans q, r))"

text \<open>\<open>set_room_bridge(None)\<close> at the end of the \<open>finally\<close> block.\<close>

definition unpublish :: "room_request \<Rightarrow> rooms \<Rightarrow> phase \<times> rooms" where
  "unpublish q r = after_teardown q (r\<lparr>rs_published := None\<rparr>)"

text \<open>\<open>RoomBridge.close\<close>: a closed bridge returns at once, else \<open>_closed\<close> is set before the first await.\<close>

definition begin_close :: "room_request \<Rightarrow> nat \<Rightarrow> rooms \<Rightarrow> phase \<times> rooms" where
  "begin_close q n r =
     (if n \<in> rs_open r then (Closing q n, r\<lparr>rs_open := rs_open r - {n}\<rparr>) else unpublish q r)"

text \<open>
  From \<open>get_room_bridge\<close> on. \<open>disconnect\<close> returns at once on a session without a client, else the
  client's \<open>stop\<close> clears \<open>running\<close> before its first await.
\<close>

definition take_down :: "room_request \<Rightarrow> rooms \<Rightarrow> phase \<times> rooms" where
  "take_down q r =
     (case rs_published r of
        None \<Rightarrow> after_teardown q r
      | Some n \<Rightarrow>
          if n \<in> rs_clients r then (Disconnecting q n, r\<lparr>rs_running := rs_running r - {n}\<rparr>)
          else begin_close q n r)"

definition arrive :: "room_request \<Rightarrow> rooms \<Rightarrow> phase \<times> rooms" where
  "arrive q r = (if q = StartRoom then (StoppingBans StartRoom, r) else take_down q r)"

fun resume :: "await_end \<Rightarrow> phase \<Rightarrow> rooms \<Rightarrow> phase \<times> rooms" where
  "resume out (StoppingBans q) r = (if q = StartRoom then take_down StartRoom r else (Replied (closing_reply q), r))"
| "resume out (Disconnecting q n) r =
     begin_close q n (if out = Succeeds then r\<lparr>rs_clients := rs_clients r - {n}\<rparr> else r)"
| "resume out (Closing q n) r = unpublish q r"
| "resume out (Joining n) r =
     (case out of
        Succeeds \<Rightarrow>
          (Creating n, r\<lparr>rs_clients := insert n (rs_clients r), rs_running := insert n (rs_running r),
                         rs_open := insert n (rs_open r)\<rparr>)
      | Fails \<Rightarrow> (Replied Refused, r)
      | Expires \<Rightarrow> take_down ExpireLogin r
      | Breaks \<Rightarrow>
          (Replied (Broke n), r\<lparr>rs_clients := insert n (rs_clients r), rs_running := insert n (rs_running r)\<rparr>))"
| "resume out (Creating n) r = (LookingUp n, r\<lparr>rs_published := Some n\<rparr>)"
| "resume out (LookingUp n) r = (Replied (Started n), r)"
| "resume out (Replied a) r = (Replied a, r)"

subsection \<open>Interleaving\<close>

datatype switch_event = Arrive room_request | Resume nat await_end

type_synonym switch = "rooms \<times> phase list"

fun switch_step :: "switch_event \<Rightarrow> switch \<Rightarrow> switch" where
  "switch_step (Arrive q) (r, hs) = (case arrive q r of (p, r') \<Rightarrow> (r', hs @ [p]))"
| "switch_step (Resume i out) (r, hs) =
     (if i < length hs then (case resume out (hs ! i) r of (p, r') \<Rightarrow> (r', hs[i := p])) else (r, hs))"

definition switch_run :: "switch_event list \<Rightarrow> switch \<Rightarrow> switch" where
  "switch_run es w = fold switch_step es w"

fun replied :: "phase \<Rightarrow> bool" where
  "replied (Replied a) \<longleftrightarrow> True"
| "replied h \<longleftrightarrow> False"

text \<open>The sessions that starts have left behind with a running client.\<close>

fun broke :: "phase \<Rightarrow> nat set" where
  "broke (Replied (Broke n)) = {n}"
| "broke h = {}"

definition left_behind :: "phase list \<Rightarrow> nat set" where
  "left_behind hs = \<Union> (broke ` set hs)"

text \<open>With \<open>serial\<close>, a request arrives only after every earlier one has its reply.\<close>

inductive switch_reachable :: "bool \<Rightarrow> switch \<Rightarrow> bool" for serial :: bool where
  initially: "switch_reachable serial (no_rooms, [])"
| arrives: "switch_reachable serial (r, hs) \<Longrightarrow> (serial \<Longrightarrow> list_all replied hs) \<Longrightarrow> arrive q r = (p, r') \<Longrightarrow>
    switch_reachable serial (r', hs @ [p])"
| resumes: "switch_reachable serial (r, hs @ h # hs') \<Longrightarrow> resume out h r = (p, r') \<Longrightarrow>
    switch_reachable serial (r', hs @ p # hs')"

text \<open>A handler that nobody disturbs; every await of it ends alike.\<close>

definition undisturbed :: "await_end \<Rightarrow> phase \<times> rooms \<Rightarrow> phase \<times> rooms" where
  "undisturbed out = (\<lambda>(p, r). resume out p r) ^^ 8"

lemmas handler_defs = arrive_def take_down_def begin_close_def unpublish_def after_teardown_def closing_reply_def

lemma switch_run_append: "switch_run (es @ es') w = switch_run es' (switch_run es w)"
  by (simp add: switch_run_def)

lemma switch_step_reachable:
  assumes "switch_reachable serial w" and "serial \<Longrightarrow> \<exists>q. e = Arrive q \<Longrightarrow> list_all replied (snd w)"
  shows "switch_reachable serial (switch_step e w)"
proof (cases w)
  fix r hs assume w: "w = (r, hs)"
  then have reach: "switch_reachable serial (r, hs)" using assms(1) by simp
  show ?thesis
  proof (cases e)
    case (Arrive q)
    obtain p r' where "arrive q r = (p, r')" by (metis surj_pair)
    with arrives [OF reach _ this] assms(2) show ?thesis by (simp add: Arrive w)
  next
    case (Resume i out)
    obtain p r' where "resume out (hs ! i) r = (p, r')" by (metis surj_pair)
    with resumes [of serial r "take i hs" "hs ! i" "drop (Suc i) hs" out p r'] reach show ?thesis
      by (simp add: Resume w id_take_nth_drop [symmetric] upd_conv_take_nth_drop)
  qed
qed

lemma serial_resumed:
  "switch_reachable True w \<Longrightarrow> list_all (\<lambda>e. \<forall>q. e \<noteq> Arrive q) es \<Longrightarrow> switch_reachable True (switch_run es w)"
proof (induction es arbitrary: w)
  case Nil
  then show ?case by (simp add: switch_run_def)
next
  case (Cons e es)
  then have "switch_reachable True (switch_step e w)" by (intro switch_step_reachable) auto
  with Cons show ?case by (simp add: switch_run_def)
qed

lemma switch_run_reachable: "switch_reachable False w \<Longrightarrow> switch_reachable False (switch_run es w)"
  by (induction es arbitrary: w) (simp_all add: switch_run_def switch_step_reachable)

subsection \<open>Every interleaving\<close>

fun takes_down :: "nat \<Rightarrow> phase \<Rightarrow> bool" where
  "takes_down n (Disconnecting q m) \<longleftrightarrow> m = n"
| "takes_down n (Closing q m) \<longleftrightarrow> m = n"
| "takes_down n h \<longleftrightarrow> False"

fun brings_up :: "nat \<Rightarrow> phase \<Rightarrow> bool" where
  "brings_up n (Joining m) \<longleftrightarrow> m = n"
| "brings_up n (Creating m) \<longleftrightarrow> m = n"
| "brings_up n h \<longleftrightarrow> False"

text \<open>
  What a suspended handler relies on, and that no other handler knows the number of the session it is
  bringing up.
\<close>

definition handler_ok :: "rooms \<Rightarrow> phase \<Rightarrow> bool" where
  "handler_ok r h \<longleftrightarrow>
     (\<forall>n. takes_down n h \<longrightarrow> n < rs_next r \<and> n \<notin> rs_running r) \<and>
     (\<forall>n. brings_up n h \<longrightarrow> n < rs_next r \<and> rs_published r \<noteq> Some n) \<and>
     (\<forall>n. h = Creating n \<longrightarrow> n \<in> rs_running r \<and> n \<in> rs_open r)"

definition compatible :: "phase \<Rightarrow> phase \<Rightarrow> bool" where
  "compatible h h' \<longleftrightarrow>
     (\<forall>n. (brings_up n h \<longrightarrow> \<not> takes_down n h' \<and> \<not> brings_up n h') \<and> (brings_up n h' \<longrightarrow> \<not> takes_down n h))"

definition rooms_ok :: "rooms \<Rightarrow> bool" where
  "rooms_ok r \<longleftrightarrow> rs_running r \<subseteq> rs_clients r \<and>
     rs_clients r \<subseteq> {..<rs_next r} \<and> rs_open r \<subseteq> {..<rs_next r} \<and> (\<forall>n. rs_published r = Some n \<longrightarrow> n < rs_next r)"

definition published_live :: "rooms \<Rightarrow> phase list \<Rightarrow> bool" where
  "published_live r hs \<longleftrightarrow>
     (\<forall>n. rs_published r = Some n \<longrightarrow> n \<in> rs_running r \<and> n \<in> rs_open r \<or> (\<exists>h \<in> set hs. takes_down n h))"

definition switch_ok :: "rooms \<Rightarrow> phase list \<Rightarrow> bool" where
  "switch_ok r hs \<longleftrightarrow> rooms_ok r \<and> (\<forall>h \<in> set hs. handler_ok r h) \<and> sorted_wrt compatible hs"

lemma compatible_sym: "compatible h h' \<Longrightarrow> compatible h' h"
  by (auto simp: compatible_def)

text \<open>One handler and the others.\<close>

lemma switch_ok_focus:
  "switch_ok r (hs @ h # hs') \<longleftrightarrow> switch_ok r (hs @ hs') \<and> handler_ok r h \<and> (\<forall>x \<in> set (hs @ hs'). compatible h x)"
  by (auto simp: switch_ok_def sorted_wrt_append intro: compatible_sym)

lemma published_live_focus:
  "published_live r (hs @ h # hs') \<longleftrightarrow>
     (\<forall>n. rs_published r = Some n \<longrightarrow>
        n \<in> rs_running r \<and> n \<in> rs_open r \<or> takes_down n h \<or> (\<exists>x \<in> set (hs @ hs'). takes_down n x))"
  by (auto simp: published_live_def)

lemma not_compatible_fresh: "\<forall>x \<in> set xs. handler_ok r x \<Longrightarrow> \<forall>x \<in> set xs. compatible (Joining (rs_next r)) x"
  by (auto simp: compatible_def handler_ok_def)

text \<open>
  The duties of a step of one handler: what the others rely on is kept, the handler's new await is as
  described, and the published session is live unless some handler is taking it down.
\<close>

definition step_ok :: "phase \<Rightarrow> rooms \<Rightarrow> phase list \<Rightarrow> bool" where
  "step_ok p r xs \<longleftrightarrow> switch_ok r xs \<and> handler_ok r p \<and> (\<forall>x \<in> set xs. compatible p x) \<and>
     (\<forall>n. rs_published r = Some n \<longrightarrow>
        n \<in> rs_running r \<and> n \<in> rs_open r \<or> takes_down n p \<or> (\<exists>x \<in> set xs. takes_down n x))"

lemma step_ok_focus: "step_ok h r (hs @ hs') \<longleftrightarrow> switch_ok r (hs @ h # hs') \<and> published_live r (hs @ h # hs')"
  by (auto simp: step_ok_def switch_ok_focus published_live_focus)

lemma after_teardown_ok:
  assumes "after_teardown q r = (p, r')" and "switch_ok r xs" and "published_live r xs"
  shows "step_ok p r' xs"
proof (cases "q = StartRoom")
  case True
  have "handler_ok r x \<Longrightarrow> handler_ok (r\<lparr>rs_next := Suc (rs_next r)\<rparr>) x" for x
    by (auto simp: handler_ok_def less_Suc_eq)
  moreover have "rooms_ok r \<Longrightarrow> rooms_ok (r\<lparr>rs_next := Suc (rs_next r)\<rparr>)" "rooms_ok r \<Longrightarrow> rs_published r \<noteq> Some (rs_next r)"
    by (auto simp: rooms_ok_def less_Suc_eq)
  ultimately show ?thesis
    using assms True not_compatible_fresh [of xs r]
    by (auto simp: after_teardown_def step_ok_def switch_ok_def published_live_def handler_ok_def [of _ "Joining n" for n])
next
  case False
  then have "p = StoppingBans q" and "r' = r" using assms(1) by (simp_all add: after_teardown_def)
  then show ?thesis using assms(2,3) by (auto simp: step_ok_def compatible_def handler_ok_def [of _ "StoppingBans q"] published_live_def)
qed

lemma unpublish_ok:
  assumes "unpublish q r = (p, r')" and "switch_ok r xs"
  shows "step_ok p r' xs"
proof -
  have "switch_ok (r\<lparr>rs_published := None\<rparr>) xs"
    using assms(2) by (simp add: switch_ok_def rooms_ok_def handler_ok_def)
  from after_teardown_ok [OF assms(1) [unfolded unpublish_def] this] show ?thesis by (simp add: published_live_def)
qed

text \<open>The handler that takes a session down closes its bridge, or finds it closed and unpublishes.\<close>

lemma begin_close_ok:
  assumes "begin_close q n r = (p, r')" and "switch_ok r xs" and "\<forall>x \<in> set xs. \<not> brings_up n x" and "n < rs_next r" and "n \<notin> rs_running r"
    and "\<And>m. rs_published r = Some m \<Longrightarrow> m \<noteq> n \<Longrightarrow> m \<in> rs_running r \<and> m \<in> rs_open r \<or> (\<exists>x \<in> set xs. takes_down m x)"
  shows "step_ok p r' xs"
proof (cases "n \<in> rs_open r")
  case False
  then show ?thesis using assms(1,2) unpublish_ok [of q r p r' xs] by (simp add: begin_close_def)
next
  case True
  then have p: "p = Closing q n" "r' = r\<lparr>rs_open := rs_open r - {n}\<rparr>" using assms(1) by (simp_all add: begin_close_def)
  have "x \<in> set xs \<Longrightarrow> handler_ok r x \<Longrightarrow> handler_ok r' x" for x
    using assms(3) by (auto simp: handler_ok_def p)
  moreover have "rooms_ok r \<Longrightarrow> rooms_ok r'" by (auto simp: rooms_ok_def p)
  moreover have "handler_ok r' p" "\<forall>x \<in> set xs. compatible p x" using assms(3-5) by (auto simp: handler_ok_def compatible_def p)
  ultimately show ?thesis using assms(2,6) by (auto simp: step_ok_def switch_ok_def p)
qed

lemma take_down_ok:
  assumes "take_down q r = (p, r')" and "switch_ok r xs" and "published_live r xs"
  shows "step_ok p r' xs"
proof (cases "rs_published r")
  case None
  then show ?thesis using assms after_teardown_ok [of q r p r' xs] by (simp add: take_down_def)
next
  case (Some n)
  have n: "n < rs_next r" "\<forall>x \<in> set xs. \<not> brings_up n x"
    using assms(2) Some by (auto simp: switch_ok_def rooms_ok_def handler_ok_def)
  show ?thesis
  proof (cases "n \<in> rs_clients r")
    case False
    then have "n \<notin> rs_running r" using assms(2) by (auto simp: switch_ok_def rooms_ok_def)
    with False show ?thesis using assms(1,2) Some n begin_close_ok [of q n r p r' xs] by (simp add: take_down_def)
  next
    case True
    then have p: "p = Disconnecting q n" "r' = r\<lparr>rs_running := rs_running r - {n}\<rparr>"
      using assms(1) Some by (simp_all add: take_down_def)
    have "x \<in> set xs \<Longrightarrow> handler_ok r x \<Longrightarrow> handler_ok r' x" for x
      using n(2) by (auto simp: handler_ok_def p)
    moreover have "rooms_ok r \<Longrightarrow> rooms_ok r'" by (auto simp: rooms_ok_def p)
    moreover have "handler_ok r' p" "\<forall>x \<in> set xs. compatible p x" using n by (auto simp: handler_ok_def compatible_def p)
    ultimately show ?thesis using assms(2) Some by (auto simp: step_ok_def switch_ok_def p)
  qed
qed

lemma resume_ok:
  assumes "resume out h r = (p, r')" and "step_ok h r xs"
  shows "step_ok p r' xs"
proof (cases h)
  case (StoppingBans q)
  then have "published_live r xs" and "switch_ok r xs" using assms(2) by (simp_all add: step_ok_def published_live_def)
  then show ?thesis
    using assms(1) StoppingBans take_down_ok [of StartRoom r p r' xs]
    by (auto simp: step_ok_def compatible_def handler_ok_def [of _ "Replied a" for a] published_live_def split: if_splits)
next
  case (Disconnecting q n)
  let ?r = "if out = Succeeds then r\<lparr>rs_clients := rs_clients r - {n}\<rparr> else r"
  have ok: "switch_ok r xs" "n < rs_next r" "n \<notin> rs_running r" "\<forall>x \<in> set xs. \<not> brings_up n x"
    using assms(2) Disconnecting by (auto simp: step_ok_def handler_ok_def compatible_def)
  then have "switch_ok ?r xs" by (auto simp: switch_ok_def rooms_ok_def handler_ok_def)
  moreover have "m \<in> rs_running r \<and> m \<in> rs_open r \<or> (\<exists>x \<in> set xs. takes_down m x)"
    if "rs_published r = Some m" and "m \<noteq> n" for m
    using assms(2) Disconnecting that by (auto simp: step_ok_def)
  ultimately show ?thesis
    using assms(1) ok(2-) Disconnecting begin_close_ok [of q n ?r p r' xs] by (cases "out = Succeeds") simp_all
next
  case (Closing q n)
  then show ?thesis using assms unpublish_ok [of q r p r' xs] by (simp add: step_ok_def)
next
  case (Joining n)
  have ok: "switch_ok r xs" "published_live r xs" "n < rs_next r" "\<forall>x \<in> set xs. \<not> takes_down n x \<and> \<not> brings_up n x"
    and new: "rs_published r \<noteq> Some n"
    using assms(2) Joining by (auto simp: step_ok_def handler_ok_def compatible_def published_live_def)
  show ?thesis
  proof (cases out)
    case Succeeds
    then have p: "p = Creating n" "r' = r\<lparr>rs_clients := insert n (rs_clients r), rs_running := insert n (rs_running r),
        rs_open := insert n (rs_open r)\<rparr>" using assms(1) Joining by simp_all
    have "x \<in> set xs \<Longrightarrow> handler_ok r x \<Longrightarrow> handler_ok r' x" for x using ok(4) by (auto simp: handler_ok_def p)
    moreover have "rooms_ok r \<Longrightarrow> rooms_ok r'" using ok(3) by (auto simp: rooms_ok_def p)
    moreover have "handler_ok r' p" "\<forall>x \<in> set xs. compatible p x" using ok(3,4) new by (auto simp: handler_ok_def compatible_def p)
    ultimately show ?thesis using ok(1,2) by (auto simp: step_ok_def switch_ok_def published_live_def p)
  next
    case Fails
    then have "p = Replied Refused" "r' = r" using assms(1) Joining by simp_all
    then show ?thesis using ok(1,2) by (auto simp: step_ok_def published_live_def handler_ok_def [of _ "Replied a" for a] compatible_def)
  next
    case Expires
    then show ?thesis using assms(1) Joining take_down_ok [OF _ ok(1,2)] by simp
  next
    case Breaks
    then have p: "p = Replied (Broke n)" "r' = r\<lparr>rs_clients := insert n (rs_clients r), rs_running := insert n (rs_running r)\<rparr>"
      using assms(1) Joining by simp_all
    have "x \<in> set xs \<Longrightarrow> handler_ok r x \<Longrightarrow> handler_ok r' x" for x using ok(4) by (auto simp: handler_ok_def p)
    moreover have "rooms_ok r \<Longrightarrow> rooms_ok r'" using ok(3) by (auto simp: rooms_ok_def p)
    moreover have "handler_ok r' p" "\<forall>x \<in> set xs. compatible p x" by (simp_all add: handler_ok_def compatible_def p)
    ultimately show ?thesis using ok(1,2) by (auto simp: step_ok_def switch_ok_def published_live_def p)
  qed
next
  case (Creating n)
  then have p: "p = LookingUp n" "r' = r\<lparr>rs_published := Some n\<rparr>" using assms(1) by simp_all
  have ok: "switch_ok r xs" "n < rs_next r" "n \<in> rs_running r" "n \<in> rs_open r" "\<forall>x \<in> set xs. \<not> takes_down n x \<and> \<not> brings_up n x"
    using assms(2) Creating by (auto simp: step_ok_def handler_ok_def compatible_def)
  have "x \<in> set xs \<Longrightarrow> handler_ok r x \<Longrightarrow> handler_ok r' x" for x using ok(5) by (auto simp: handler_ok_def p)
  moreover have "rooms_ok r \<Longrightarrow> rooms_ok r'" using ok(2) by (auto simp: rooms_ok_def p)
  moreover have "handler_ok r' p" "\<forall>x \<in> set xs. compatible p x" by (simp_all add: handler_ok_def compatible_def p)
  ultimately show ?thesis using ok(1,3,4) by (simp add: step_ok_def switch_ok_def p)
next
  case (LookingUp n)
  then show ?thesis using assms by (auto simp: step_ok_def compatible_def handler_ok_def [of _ "Replied a" for a])
next
  case (Replied a)
  then show ?thesis using assms by simp
qed

lemma arrive_ok:
  assumes "arrive q r = (p, r')" and "switch_ok r xs" and "published_live r xs"
  shows "step_ok p r' xs"
proof (cases "q = StartRoom")
  case True
  then have "p = StoppingBans StartRoom" "r' = r" using assms(1) by (simp_all add: arrive_def)
  then show ?thesis
    using assms(2,3) by (auto simp: step_ok_def handler_ok_def [of _ "StoppingBans StartRoom"] compatible_def published_live_def)
next
  case False
  then show ?thesis using assms take_down_ok by (simp add: arrive_def)
qed

lemma switch_reachable_ok: "switch_reachable serial (r, hs) \<Longrightarrow> switch_ok r hs \<and> published_live r hs"
proof (induction "(r, hs)" arbitrary: r hs rule: switch_reachable.induct)
  case initially
  show ?case by (simp add: no_rooms_def switch_ok_def rooms_ok_def published_live_def)
next
  case (arrives r hs q p r')
  then show ?case using arrive_ok [of q r p r' hs] step_ok_focus [of p r' hs "[]"] by simp
next
  case (resumes r hs h hs' out p r')
  then have "step_ok h r (hs @ hs')" by (simp add: step_ok_focus)
  with resumes.hyps have "step_ok p r' (hs @ hs')" using resume_ok by blast
  then show ?case by (simp add: step_ok_focus)
qed


subsection \<open>One request after the other\<close>

text \<open>
  The clients and bridges there are besides the set \<open>A\<close> of running clients that were left behind.
\<close>

definition holds_only :: "nat set \<Rightarrow> nat option \<Rightarrow> nat set \<Rightarrow> nat set \<Rightarrow> rooms \<Rightarrow> bool" where
  "holds_only A published running open_bridges r \<longleftrightarrow>
     rs_published r = published \<and> rs_running r = running \<union> A \<and> running \<inter> A = {} \<and> rs_open r = open_bridges \<and>
     running \<subseteq> rs_clients r \<and> (\<forall>n \<in> A. n < rs_next r) \<and> set_option published \<inter> A = {}"

definition steady :: "nat set \<Rightarrow> rooms \<Rightarrow> bool" where
  "steady A r \<longleftrightarrow> holds_only A (rs_published r) (set_option (rs_published r)) (set_option (rs_published r)) r"

text \<open>What there is while the only unfinished handler is in an await, and after its reply.\<close>

fun alone_ok :: "nat set \<Rightarrow> phase \<Rightarrow> rooms \<Rightarrow> bool" where
  "alone_ok A (StoppingBans q) r \<longleftrightarrow> (if q = StartRoom then steady A r else holds_only A None {} {} r)"
| "alone_ok A (Disconnecting q n) r \<longleftrightarrow> holds_only A (Some n) {} {n} r"
| "alone_ok A (Closing q n) r \<longleftrightarrow> holds_only A (Some n) {} {} r"
| "alone_ok A (Joining n) r \<longleftrightarrow> holds_only A None {} {} r \<and> n < rs_next r \<and> n \<notin> A"
| "alone_ok A (Creating n) r \<longleftrightarrow> holds_only A None {n} {n} r"
| "alone_ok A (LookingUp n) r \<longleftrightarrow> holds_only A (Some n) {n} {n} r"
| "alone_ok A (Replied (Started n)) r \<longleftrightarrow> holds_only A (Some n) {n} {n} r"
| "alone_ok A (Replied a) r \<longleftrightarrow> holds_only A None {} {} r"

lemma alone_ok_replied: "alone_ok A (Replied a) r \<Longrightarrow> steady A r"
  by (cases a) (auto simp: holds_only_def steady_def)

lemma alone_take_down: "steady A r \<Longrightarrow> take_down q r = (p, r') \<Longrightarrow> alone_ok A p r' \<and> broke p = {}"
  by (cases "rs_published r")
    (auto simp: steady_def holds_only_def handler_defs less_Suc_eq dest: bspec [where x = "rs_next r"] split: if_splits)

lemma alone_resume:
  "alone_ok (A \<union> broke h) h r \<Longrightarrow> resume out h r = (p, r') \<Longrightarrow> alone_ok (A \<union> broke p) p r'"
proof (cases h)
  case (StoppingBans q)
  assume "alone_ok (A \<union> broke h) h r" and "resume out h r = (p, r')"
  then show ?thesis
    using StoppingBans alone_take_down [of A r StartRoom p r'] by (cases q) (auto simp: closing_reply_def)
next
  case (Joining n)
  assume ok: "alone_ok (A \<union> broke h) h r" and res: "resume out h r = (p, r')"
  then have "steady A r" using Joining by (auto simp: holds_only_def steady_def)
  then show ?thesis
    using Joining ok res alone_take_down [of A r ExpireLogin p r'] by (cases out) (auto simp: holds_only_def)
next
  case (Replied a)
  assume "alone_ok (A \<union> broke h) h r" and "resume out h r = (p, r')"
  then show ?thesis using Replied by simp
qed (auto simp: holds_only_def handler_defs less_Suc_eq dest: bspec [where x = "rs_next r"] split: if_splits)

lemma alone_arrive: "steady A r \<Longrightarrow> arrive q r = (p, r') \<Longrightarrow> alone_ok A p r' \<and> broke p = {}"
  by (cases "q = StartRoom") (auto simp: arrive_def alone_take_down)

lemma left_behind_Nil: "left_behind [] = {}"
  by (simp add: left_behind_def)

lemma left_behind_append: "left_behind (hs @ [h]) = left_behind hs \<union> broke h"
  by (auto simp: left_behind_def)

lemma broken_replies: "{m. Replied (Broke m) \<in> set hs} = left_behind hs"
proof -
  have "m \<in> broke h \<longleftrightarrow> h = Replied (Broke m)" for m h by (cases h rule: broke.cases) auto
  then show ?thesis by (auto simp: left_behind_def)
qed

lemma serial_alone:
  assumes "switch_reachable True (r, hs)"
  shows "if hs = [] then holds_only {} None {} {} r else list_all replied (butlast hs) \<and> alone_ok (left_behind hs) (last hs) r"
  using assms
proof (induction "(r, hs)" arbitrary: r hs rule: switch_reachable.induct)
  case initially
  show ?case by (simp add: holds_only_def no_rooms_def)
next
  case (arrives r hs q p r')
  have "steady (left_behind hs) r"
  proof (cases "hs = []")
    case True
    then show ?thesis using arrives.hyps(2) by (auto simp: holds_only_def steady_def left_behind_Nil)
  next
    case False
    then have "replied (last hs)" using arrives.hyps(3) by (simp add: list_all_iff)
    then obtain a where "last hs = Replied a" by (cases "last hs") auto
    then show ?thesis using arrives.hyps(2) False by (metis alone_ok_replied)
  qed
  then show ?case using arrives.hyps(3) alone_arrive [OF _ arrives.hyps(4)] by (simp add: left_behind_append)
next
  case (resumes r hs h hs' out p r')
  show ?case
  proof (cases "hs' = []")
    case True
    then show ?thesis
      using resumes.hyps(2) alone_resume [OF _ resumes.hyps(3), of "left_behind hs"] by (simp add: left_behind_append)
  next
    case False
    then have "replied h" using resumes.hyps(2) by (simp add: butlast_append)
    then have "p = h" "r' = r" using resumes.hyps(3) by (cases h; simp)+
    then show ?thesis using resumes.hyps(2) by simp
  qed
qed


subsection \<open>Every handler replies\<close>

fun resumes_left :: "phase \<Rightarrow> nat" where
  "resumes_left (StoppingBans q) = (if q = StartRoom then 7 else 1)"
| "resumes_left (Disconnecting q n) = (if q = StartRoom then 6 else 3)"
| "resumes_left (Closing q n) = (if q = StartRoom then 5 else 2)"
| "resumes_left (Joining n) = 4"
| "resumes_left (Creating n) = 2"
| "resumes_left (LookingUp n) = 1"
| "resumes_left (Replied a) = 0"

lemma resumes_left_bound: "resumes_left h \<le> 7"
  by (cases h) auto

lemma resumes_left_replied: "resumes_left h = 0 \<longleftrightarrow> replied h"
  by (cases h) auto

lemma resume_progress: "resume out h r = (p, r') \<Longrightarrow> resumes_left p \<le> resumes_left h - 1"
  by (cases h; cases out) (auto simp: handler_defs split: if_splits option.splits)

lemma switch_step_progress:
  assumes "switch_step e (r, hs) = (r', hs')" and "i < length hs"
  shows "i < length hs' \<and> resumes_left (hs' ! i) \<le> resumes_left (hs ! i) - (if \<exists>out. e = Resume i out then 1 else 0)"
proof (cases e)
  case (Arrive q)
  then show ?thesis using assms by (auto simp: nth_append split: prod.splits)
next
  case (Resume j out)
  obtain p r'' where res: "resume out (hs ! j) r = (p, r'')" by (metis surj_pair)
  show ?thesis
    using assms Resume res resume_progress [OF res] by (cases "i = j") (auto split: if_splits)
qed

lemma switch_run_progress:
  "switch_run es (r, hs) = (r', hs') \<Longrightarrow> i < length hs \<Longrightarrow>
   i < length hs' \<and> resumes_left (hs' ! i) \<le> resumes_left (hs ! i) - length (filter (\<lambda>e. \<exists>out. e = Resume i out) es)"
proof (induction es arbitrary: r hs)
  case Nil
  then show ?case by (simp add: switch_run_def)
next
  case (Cons e es)
  obtain r1 hs1 where e: "switch_step e (r, hs) = (r1, hs1)" by (metis surj_pair)
  then have "switch_run es (r1, hs1) = (r', hs')" using Cons.prems(1) by (simp add: switch_run_def)
  with Cons.IH switch_step_progress [OF e Cons.prems(2)] show ?case by (fastforce split: if_splits)
qed

text \<open>
  Whatever the others do meanwhile, a handler replies once it has been resumed seven times: each
  resumption brings it nearer to its reply, and none waits for another.
\<close>

theorem handlers_reply:
  assumes "switch_run es (r, hs) = (r', hs')" and "i < length hs"
    and "7 \<le> length (filter (\<lambda>e. \<exists>out. e = Resume i out) es)"
  shows "replied (hs' ! i)"
  using switch_run_progress [OF assms(1,2)] resumes_left_bound [of "hs ! i"] resumes_left_replied [of "hs' ! i"] assms(3)
  by linarith


subsection \<open>Requests that overlap\<close>

text \<open>
  A session nobody refers to any more: its client is running and, if it has one, its bridge open, but
  it is not published and no handler knows its number.
\<close>

definition leaked :: "bool \<Rightarrow> nat \<Rightarrow> rooms \<Rightarrow> phase list \<Rightarrow> bool" where
  "leaked bridged n r hs \<longleftrightarrow> n \<in> rs_running r \<and> (bridged \<longrightarrow> n \<in> rs_open r) \<and> n < rs_next r \<and> rs_published r \<noteq> Some n \<and>
     (\<forall>h \<in> set hs. \<not> takes_down n h \<and> \<not> brings_up n h)"

lemma leaked_take_down: "leaked b n r hs \<Longrightarrow> take_down q r = (p, r') \<Longrightarrow> leaked b n r' (p # hs)"
  by (auto simp: leaked_def handler_defs split: option.splits if_splits)

lemma leaked_resume: "leaked b n r (h # hs) \<Longrightarrow> resume out h r = (p, r') \<Longrightarrow> leaked b n r' (p # hs)"
proof (cases h)
  case (StoppingBans q)
  assume "leaked b n r (h # hs)" and "resume out h r = (p, r')"
  then show ?thesis
    using StoppingBans leaked_take_down [of b n r hs StartRoom p r'] by (cases "q = StartRoom") (auto simp: leaked_def)
next
  case (Joining m)
  assume "leaked b n r (h # hs)" and "resume out h r = (p, r')"
  then show ?thesis
    using Joining leaked_take_down [of b n r hs ExpireLogin p r'] by (cases out) (auto simp: leaked_def)
qed (auto simp: leaked_def handler_defs split: option.splits if_splits)

lemma leaked_step: "leaked b n r hs \<Longrightarrow> switch_step e (r, hs) = (r', hs') \<Longrightarrow> leaked b n r' hs'"
proof (cases e)
  case (Arrive q)
  assume leaked: "leaked b n r hs" and step: "switch_step e (r, hs) = (r', hs')"
  obtain p r1 where arr: "arrive q r = (p, r1)" by (metis surj_pair)
  have "leaked b n r1 (p # hs)"
    using leaked arr leaked_take_down [of b n r hs q p r1] by (cases "q = StartRoom") (auto simp: arrive_def leaked_def)
  then show ?thesis using step Arrive arr by (auto simp: leaked_def)
next
  case (Resume i out)
  assume leaked: "leaked b n r hs" and step: "switch_step e (r, hs) = (r', hs')"
  obtain p r1 where res: "resume out (hs ! i) r = (p, r1)" by (metis surj_pair)
  show ?thesis
  proof (cases "i < length hs")
    case True
    then have "leaked b n r (hs ! i # hs)" using leaked by (simp add: leaked_def)
    then have "leaked b n r1 (p # hs)" using res by (rule leaked_resume)
    moreover have "set (hs[i := p]) \<subseteq> insert p (set hs)" by (rule set_update_subset_insert)
    ultimately have "leaked b n r1 (hs[i := p])" unfolding leaked_def by auto
    then show ?thesis using step Resume res True by simp
  next
    case False
    then show ?thesis using step Resume leaked by simp
  qed
qed

lemma leaked_for_ever: "leaked b n (fst w) (snd w) \<Longrightarrow> leaked b n (fst (switch_run es w)) (snd (switch_run es w))"
proof (induction es arbitrary: w)
  case Nil
  then show ?case by (simp add: switch_run_def)
next
  case (Cons e es)
  obtain r hs r' hs' where w: "w = (r, hs)" and step: "switch_step e w = (r', hs')" by (metis surj_pair)
  then have "leaked b n r' hs'" using leaked_step Cons.prems by simp
  then show ?case using Cons.IH [of "(r', hs')"] step by (simp add: switch_run_def)
qed

lemma replied_for_ever: "i < length (snd w) \<Longrightarrow> snd w ! i = Replied a \<Longrightarrow> snd (switch_run es w) ! i = Replied a"
proof (induction es arbitrary: w)
  case Nil
  then show ?case by (simp add: switch_run_def)
next
  case (Cons e es)
  obtain r hs where w: "w = (r, hs)" by (metis surj_pair)
  have "i < length (snd (switch_step e w)) \<and> snd (switch_step e w) ! i = Replied a"
    using Cons.prems unfolding w by (cases e) (auto simp: nth_append nth_list_update split: prod.splits)
  then show ?case using Cons.IH [of "switch_step e w"] by (simp add: switch_run_def)
qed

text \<open>Two starts, each of which awaits its connection while the other does.\<close>

definition overlapping_starts :: "switch_event list" where
  "overlapping_starts =
     [Arrive StartRoom, Arrive StartRoom, Resume 0 Succeeds, Resume 1 Succeeds] @
     replicate 3 (Resume 0 Succeeds) @ replicate 3 (Resume 1 Succeeds)"

text \<open>
  A stop and a start take the same room down; the stop is still awaiting the close of the old bridge
  when the start, which finds it closed, has published its own.
\<close>

definition stop_overtaken_by_start :: "switch_event list" where
  "stop_overtaken_by_start =
     [Arrive StartRoom] @ replicate 5 (Resume 0 Succeeds) @
     [Arrive StopRoom, Arrive StartRoom, Resume 2 Succeeds, Resume 1 Succeeds] @
     replicate 4 (Resume 2 Succeeds) @ replicate 2 (Resume 1 Succeeds)"

text \<open>A start whose \<open>connect\<close> raises after its client has started.\<close>

definition broken_start :: "switch_event list" where
  "broken_start = [Arrive StartRoom, Resume 0 Succeeds, Resume 0 Breaks]"

lemma broken_start_run:
  "switch_run broken_start (no_rooms, []) =
     (\<lparr>rs_published = None, rs_clients = {0}, rs_running = {0}, rs_open = {}, rs_next = 1\<rparr>, [Replied (Broke 0)])"
  by (simp add: switch_run_def broken_start_def no_rooms_def handler_defs)

lemma overlapping_starts_run:
  "switch_run overlapping_starts (no_rooms, []) =
     (\<lparr>rs_published = Some 1, rs_clients = {0, 1}, rs_running = {0, 1}, rs_open = {0, 1}, rs_next = 2\<rparr>,
      [Replied (Started 0), Replied (Started 1)])"
  by (simp add: switch_run_def overlapping_starts_def no_rooms_def handler_defs numeral_2_eq_2 numeral_3_eq_3 insert_commute)

lemma stop_overtaken_by_start_run:
  "switch_run stop_overtaken_by_start (no_rooms, []) =
     (\<lparr>rs_published = None, rs_clients = {1}, rs_running = {1}, rs_open = {1}, rs_next = 2\<rparr>,
      [Replied (Started 0), Replied Stopped, Replied (Started 1)])"
  by (simp add: switch_run_def stop_overtaken_by_start_def no_rooms_def handler_defs eval_nat_numeral)


subsection \<open>The atomic routes\<close>

text \<open>
  The singletons of the atomic model and the state here, when nothing is being taken down and the
  clients of \<open>A\<close> are left behind.
\<close>

definition room_view :: "('ws, 'w) app \<Rightarrow> nat set \<Rightarrow> rooms \<Rightarrow> bool" where
  "room_view app A r \<longleftrightarrow> steady A r \<and> card A = length (ap_abandoned app) \<and>
     (case ap_room app of None \<Rightarrow> rs_published r = None | Some ar \<Rightarrow> rs_published r \<noteq> None \<and> room_ok ar)"

text \<open>How the awaited calls of a handler have ended, read off its reply and the clients it left behind.\<close>

definition end_of :: "'a reply \<Rightarrow> ('ws, 'w) app \<Rightarrow> ('ws, 'w) app \<Rightarrow> await_end" where
  "end_of reply app app' =
     (case reply of
        Reply a \<Rightarrow> Succeeds
      | HttpError code d \<Rightarrow> if code = 401 then Expires else Fails
      | Crash e \<Rightarrow> if ap_abandoned app' = ap_abandoned app then Fails else Breaks)"

definition start_reply :: "await_end \<Rightarrow> nat \<Rightarrow> room_reply" where
  "start_reply out n = (case out of Succeeds \<Rightarrow> Started n | Fails \<Rightarrow> Refused | Expires \<Rightarrow> Refused | Breaks \<Rightarrow> Broke n)"

lemma undisturbed_start:
  assumes "steady A r"
  shows "\<exists>r'. undisturbed out (arrive StartRoom r) = (Replied (start_reply out (rs_next r)), r') \<and>
    steady (A \<union> (if out = Breaks then {rs_next r} else {})) r' \<and> rs_next r \<notin> A \<and>
    rs_published r' = (if out = Succeeds then Some (rs_next r) else None)"
  using assms
  by (cases "rs_published r"; cases out)
    (auto simp: undisturbed_def eval_nat_numeral handler_defs steady_def holds_only_def start_reply_def)

lemma undisturbed_stop:
  assumes "steady A r"
  shows "\<exists>r'. undisturbed out (arrive StopRoom r) = (Replied Stopped, r') \<and> steady A r' \<and> rs_published r' = None"
  using assms
  by (cases "rs_published r") (auto simp: undisturbed_def eval_nat_numeral handler_defs steady_def holds_only_def)

lemma start_room_route_room:
  assumes "valid_order (sv_order S)" and "\<And>ar. ap_room app = Some ar \<Longrightarrow> room_ok ar"
    and "start_room_route S room_id app = (reply, app')"
  shows "if end_of reply app app' = Succeeds then \<exists>ar. ap_room app' = Some ar \<and> room_ok ar else ap_room app' = None"
    and "length (ap_abandoned app') = length (ap_abandoned app) + (if end_of reply app app' = Breaks then 1 else 0)"
proof -
  obtain cr s app1 where c: "connect_room S room_id (shut_room S (stop_banlist_manager app)) = (cr, s, app1)" by (metis prod_cases3)
  have idle: "ap_room app1 = None" "ap_abandoned app1 = ap_abandoned app" using start_prologue [OF assms(1,2) c] by simp_all
  have "(if end_of reply app app' = Succeeds then \<exists>ar. ap_room app' = Some ar \<and> room_ok ar else ap_room app' = None) \<and>
    length (ap_abandoned app') = length (ap_abandoned app) + (if end_of reply app app' = Breaks then 1 else 0)"
  proof (rule start_room_route_cases [OF assms c])
    assume "reply = HttpError 401 AuthExpiredDetail" and "app' = expire_login S app1"
    then show ?thesis using idle expire_idle [OF idle(1), of S] by (simp add: end_of_def)
  qed (use idle in \<open>simp_all add: end_of_def drop_session_def\<close>)
  then show "if end_of reply app app' = Succeeds then \<exists>ar. ap_room app' = Some ar \<and> room_ok ar else ap_room app' = None"
    and "length (ap_abandoned app') = length (ap_abandoned app) + (if end_of reply app app' = Breaks then 1 else 0)" by blast+
qed

lemma alone_running: "alone_ok A h r \<Longrightarrow> \<exists>n. rs_running r \<subseteq> insert n A"
proof (cases h)
  case (Replied a)
  assume "alone_ok A h r"
  with Replied show ?thesis by (cases a) (auto simp: holds_only_def)
qed (auto simp: holds_only_def steady_def split: if_splits; cases "rs_published r"; auto)+

lemma alone_replied:
  "alone_ok A h r \<Longrightarrow> replied h \<Longrightarrow> rs_published r = (case h of Replied (Started n) \<Rightarrow> Some n | _ \<Rightarrow> None) \<and> steady A r"
proof (cases h)
  case (Replied a)
  assume "alone_ok A h r"
  with Replied show ?thesis by (cases a) (auto simp: holds_only_def steady_def)
qed auto

subsection \<open>Properties\<close>

text \<open>
  C10. However start, stop and expiry handlers interleave at their awaits, the published room is live,
  with a running client and an open bridge, unless some handler is just taking it down and will
  unpublish it; so once every request has its reply, no dead room is shown as the active one. If
  moreover each request waits for the reply to the one before, then besides the clients that broken
  starts left behind at most one client is ever running, and between the requests exactly the
  published room and these clients run, and only the published room's bridge is open: the room of the
  last request if that was a successful start, and none otherwise. A client is left behind exactly by
  a start whose \<open>connect\<close> raises after its client has started, and only one by each such start.
\<close>

theorem published_room_is_live:
  assumes "switch_reachable serial (r, hs)"
  shows "(\<forall>n. rs_published r = Some n \<longrightarrow> n \<in> rs_running r \<and> n \<in> rs_open r \<or> (\<exists>h \<in> set hs. takes_down n h)) \<and>
    (list_all replied hs \<longrightarrow> set_option (rs_published r) \<subseteq> rs_running r \<inter> rs_open r) \<and>
    (serial \<longrightarrow> (\<exists>n. rs_running r \<subseteq> insert n {m. Replied (Broke m) \<in> set hs})) \<and>
    (serial \<and> list_all replied hs \<longrightarrow>
       rs_running r = set_option (rs_published r) \<union> {m. Replied (Broke m) \<in> set hs} \<and>
       (\<forall>m. Replied (Broke m) \<in> set hs \<longrightarrow> rs_published r \<noteq> Some m) \<and> rs_open r = set_option (rs_published r) \<and>
       rs_published r = (if hs = [] then None else case last hs of Replied (Started n) \<Rightarrow> Some n | _ \<Rightarrow> None))"
proof -
  have live: "published_live r hs" using switch_reachable_ok [OF assms] by simp
  have "\<not> takes_down n h" if "replied h" for n h using that by (cases h) auto
  with live have quiet: "list_all replied hs \<Longrightarrow> set_option (rs_published r) \<subseteq> rs_running r \<inter> rs_open r"
    by (auto simp: published_live_def list_all_iff)
  have left: "{m. Replied (Broke m) \<in> set hs} = left_behind hs" by (rule broken_replies)
  have alone: "if hs = [] then holds_only {} None {} {} r else list_all replied (butlast hs) \<and> alone_ok (left_behind hs) (last hs) r"
    if serial using serial_alone [of r hs] assms that by simp
  then have one: "\<exists>n. rs_running r \<subseteq> insert n (left_behind hs)" if serial
    using that alone_running [of "left_behind hs" "last hs" r] by (auto simp: holds_only_def split: if_splits)
  have between: "rs_running r = set_option (rs_published r) \<union> left_behind hs \<and> set_option (rs_published r) \<inter> left_behind hs = {} \<and>
      rs_open r = set_option (rs_published r) \<and>
      rs_published r = (if hs = [] then None else case last hs of Replied (Started n) \<Rightarrow> Some n | _ \<Rightarrow> None)"
    if serial and "list_all replied hs"
  proof (cases "hs = []")
    case False
    then have "replied (last hs)" using that(2) by (simp add: list_all_iff)
    moreover have "alone_ok (left_behind hs) (last hs) r" using alone [OF that(1)] False by simp
    ultimately show ?thesis using alone_replied False unfolding steady_def holds_only_def if_not_P [OF False] by blast
  qed (use alone [OF that(1)] in \<open>simp add: holds_only_def left_behind_Nil\<close>)
  have "\<forall>m \<in> left_behind hs. rs_published r \<noteq> Some m" if "set_option (rs_published r) \<inter> left_behind hs = {}"
    using that by auto
  with live quiet one between show ?thesis unfolding published_live_def left [symmetric] by blast
qed

text \<open>
  C11. Overlapping requests leak a room. Two overlapping starts both succeed and both rooms run, but
  only the second is published; a stop that is overtaken by a start unpublishes the room the start
  reported as active. In both cases no request that comes later, however it is scheduled, ever stops
  the client of the room that is left over or closes its bridge. Nor does one ever stop the client of
  a start whose \<open>connect\<close> raised after the client had started, which needs no overlap.
\<close>

theorem overlapping_requests_leak:
  "(case switch_run overlapping_starts (no_rooms, []) of (r, hs) \<Rightarrow>
      hs = [Replied (Started 0), Replied (Started 1)] \<and> rs_published r = Some 1 \<and> rs_running r = {0, 1}) \<and>
   (case switch_run stop_overtaken_by_start (no_rooms, []) of (r, hs) \<Rightarrow>
      hs = [Replied (Started 0), Replied Stopped, Replied (Started 1)] \<and> rs_published r = None \<and> rs_running r = {1}) \<and>
   (\<forall>later. case switch_run (overlapping_starts @ later) (no_rooms, []) of (r, hs) \<Rightarrow>
      0 \<in> rs_running r \<and> 0 \<in> rs_open r \<and> rs_published r \<noteq> Some 0) \<and>
   (\<forall>later. case switch_run (stop_overtaken_by_start @ later) (no_rooms, []) of (r, hs) \<Rightarrow>
      1 \<in> rs_running r \<and> 1 \<in> rs_open r \<and> rs_published r \<noteq> Some 1) \<and>
   (\<forall>later. case switch_run (broken_start @ later) (no_rooms, []) of (r, hs) \<Rightarrow>
      hs ! 0 = Replied (Broke 0) \<and> 0 \<in> rs_running r \<and> rs_published r \<noteq> Some 0)"
proof -
  have "leaked True 0 (fst w) (snd w)" if "w = switch_run (overlapping_starts @ later) (no_rooms, [])" for later w
    unfolding that switch_run_append by (rule leaked_for_ever) (simp add: overlapping_starts_run leaked_def)
  moreover have "leaked True 1 (fst w) (snd w)" if "w = switch_run (stop_overtaken_by_start @ later) (no_rooms, [])" for later w
    unfolding that switch_run_append by (rule leaked_for_ever) (simp add: stop_overtaken_by_start_run leaked_def)
  moreover have "leaked False 0 (fst w) (snd w)" if "w = switch_run (broken_start @ later) (no_rooms, [])" for later w
    unfolding that switch_run_append by (rule leaked_for_ever) (simp add: broken_start_run leaked_def)
  moreover have "snd (switch_run (broken_start @ later) (no_rooms, [])) ! 0 = Replied (Broke 0)" for later
    unfolding switch_run_append broken_start_run by (rule replied_for_ever) simp_all
  ultimately show ?thesis
    by (simp add: overlapping_starts_run stop_overtaken_by_start_run leaked_def split_beta)
qed

text \<open>
  C12. The atomic start and stop routes are exactly what an undisturbed handler does, with the clients
  left behind in both: it ends with the same kind of reply, the room it publishes is active in the
  atomic model when it publishes one and none is otherwise, and nothing runs or is open afterwards but
  this room, the clients left behind before, and the client of a start that crashes after its client
  has started, which the atomic model then lists as abandoned.
\<close>

theorem atomic_routes_refine_handlers:
  assumes "valid_order (sv_order S)" and "room_view app A r"
  shows "(case start_room_route S room_id app of (reply, app') \<Rightarrow>
      case undisturbed (end_of reply app app') (arrive StartRoom r) of (p, r') \<Rightarrow>
        p = Replied (case reply of
            Reply a \<Rightarrow> Started (rs_next r)
          | HttpError code d \<Rightarrow> Refused
          | Crash e \<Rightarrow> if ap_abandoned app' = ap_abandoned app then Refused else Broke (rs_next r)) \<and>
        room_view app' (A \<union> {n. p = Replied (Broke n)}) r') \<and>
    (case stop_room_route S app of (reply, app') \<Rightarrow>
      case undisturbed (end_of reply app app') (arrive StopRoom r) of (p, r') \<Rightarrow> p = Replied Stopped \<and> room_view app' A r')"
proof -
  have steady: "steady A r" and ok: "\<And>ar. ap_room app = Some ar \<Longrightarrow> room_ok ar" and A: "card A = length (ap_abandoned app)"
    using assms(2) by (auto simp: room_view_def)
  have fin: "finite A" using steady bounded_nat_set_is_finite [of A "rs_next r"] by (auto simp: steady_def holds_only_def)
  obtain reply app' where start: "start_room_route S room_id app = (reply, app')" by (metis surj_pair)
  let ?out = "end_of reply app app'"
  obtain r' where r': "undisturbed ?out (arrive StartRoom r) = (Replied (start_reply ?out (rs_next r)), r')"
      "steady (A \<union> (if ?out = Breaks then {rs_next r} else {})) r'" "rs_next r \<notin> A"
      "rs_published r' = (if ?out = Succeeds then Some (rs_next r) else None)"
    using undisturbed_start [OF steady, of ?out] by blast
  have left: "{n. Replied (start_reply ?out (rs_next r)) = Replied (Broke n)} = (if ?out = Breaks then {rs_next r} else {})"
    by (auto simp: start_reply_def split: await_end.split)
  have "room_view app' (A \<union> (if ?out = Breaks then {rs_next r} else {})) r'"
    using start_room_route_room [OF assms(1) ok start] r'(2,3,4) fin A by (auto simp: room_view_def split: if_splits)
  moreover have "start_reply ?out (rs_next r) = (case reply of
      Reply a \<Rightarrow> Started (rs_next r)
    | HttpError code d \<Rightarrow> Refused
    | Crash e \<Rightarrow> if ap_abandoned app' = ap_abandoned app then Refused else Broke (rs_next r))"
    by (cases reply) (auto simp: end_of_def start_reply_def)
  moreover obtain r2 where "undisturbed Succeeds (arrive StopRoom r) = (Replied Stopped, r2)" "steady A r2" "rs_published r2 = None"
    using undisturbed_stop [OF steady] by blast
  ultimately show ?thesis
    using start r'(1) left stop_room_effect(2,4) [of S app] A by (simp add: end_of_def room_view_def stop_room_route_def)
qed

subsection \<open>Witnesses\<close>

lemma published_room_is_live_witness:
  "\<exists>r. switch_reachable True (r, [Replied (Started 0), Replied (Started 1)]) \<and> rs_published r = Some 1 \<and> rs_running r = {1}"
proof -
  let ?go = "Resume 0 Succeeds" and ?go1 = "Resume 1 Succeeds"
  let ?w1 = "switch_run (replicate 5 ?go) (switch_step (Arrive StartRoom) (no_rooms, []))"
  let ?w2 = "switch_run (replicate 7 ?go1) (switch_step (Arrive StartRoom) ?w1)"
  note run = switch_run_def no_rooms_def handler_defs eval_nat_numeral
  have w1: "?w1 = (\<lparr>rs_published = Some 0, rs_clients = {0}, rs_running = {0}, rs_open = {0}, rs_next = 1\<rparr>, [Replied (Started 0)])"
    by (simp add: run)
  have w2: "?w2 = (\<lparr>rs_published = Some 1, rs_clients = {1}, rs_running = {1}, rs_open = {1}, rs_next = 2\<rparr>,
      [Replied (Started 0), Replied (Started 1)])"
    unfolding w1 by (simp add: run)
  have "switch_reachable True ?w1"
    by (rule serial_resumed, rule switch_step_reachable [OF initially]) (simp_all add: list_all_iff)
  then have "switch_reachable True (switch_step (Arrive StartRoom) ?w1)"
    by (rule switch_step_reachable) (simp only: w1 snd_conv, simp)
  then have "switch_reachable True ?w2" by (rule serial_resumed) (simp add: list_all_iff)
  then have reach: "switch_reachable True (\<lparr>rs_published = Some 1, rs_clients = {1}, rs_running = {1}, rs_open = {1}, rs_next = 2\<rparr>,
      [Replied (Started 0), Replied (Started 1)])"
    unfolding w2 .
  from published_room_is_live [OF this] reach show ?thesis by auto
qed

definition one_room :: rooms where
  "one_room = \<lparr>rs_published = Some 0, rs_clients = {0}, rs_running = {0}, rs_open = {0}, rs_next = 1\<rparr>"

lemma atomic_routes_refine_handlers_witness:
  "\<exists>app' r'. stop_room_route room_services room_app_witness = (Reply (), app') \<and>
     undisturbed Succeeds (arrive StopRoom one_room) = (Replied Stopped, r') \<and> room_view app' {} r'"
proof -
  have "valid_order (sv_order room_services)" by (simp add: room_services_def valid_order_sorted)
  moreover have "room_view room_app_witness {} one_room"
    by (simp add: room_view_def room_app_witness_def room_witness_ok one_room_def steady_def holds_only_def)
  ultimately show ?thesis
    using atomic_routes_refine_handlers [of room_services room_app_witness "{}" one_room 6]
    by (auto simp: stop_room_route_def end_of_def split: prod.splits)
qed

end
