(* ===== verification/Wire_Text.thy ===== *)
theory Wire_Text
  imports Danmaku_Ws Py_Json
begin

section \<open>What is written to and read from the live socket\<close>

text \<open>
  The frame codec with the JSON of Python: \<open>python_codec\<close> is the instance of \<open>codec\<close> the code uses, up to
  the two decompressors. With it the AUTH frame of \<open>_send_auth\<close> and the frames of \<open>_heartbeat\<close>
  (\<open>bilibili/danmaku_ws.py\<close>) are fixed to the byte, and a batch of messages that the upstream serialises,
  frames and compresses is read back as these messages.
\<close>

subsection \<open>Texts as bytes\<close>

definition bytes_text :: "bytes \<Rightarrow> string" where
  "bytes_text p = map (\<lambda>b. char_of (unat b)) p"

definition text_bytes :: "string \<Rightarrow> bytes" where
  "text_bytes s = map (\<lambda>c. word_of_nat (octet c)) s"

lemma bytes_text_bytes [simp]: "bytes_text (text_bytes s) = s"
  by (auto simp: bytes_text_def text_bytes_def unat_of_nat comp_def intro!: map_idI)

text \<open>\<open>json.loads(payload.decode("utf-8"))\<close>, with at most \<open>depth\<close> nested arrays and objects.\<close>

definition python_loads :: "nat \<Rightarrow> bytes \<Rightarrow> loads_result" where
  "python_loads depth payload =
     (if utf8_decode True (bytes_text payload) = None then DecodeError else json_loads depth (bytes_text payload))"

definition python_codec :: "nat \<Rightarrow> (bytes \<Rightarrow> bytes option) \<Rightarrow> (bytes \<Rightarrow> bytes option) \<Rightarrow> codec" where
  "python_codec depth zlib brotli =
     \<lparr>loads = python_loads depth, zlib_decompress = zlib, brotli_decompress = brotli\<rparr>"

text \<open>\<open>json.dumps(v).encode("utf-8")\<close>: \<open>UnicodeEncodeError\<close> is a \<open>ValueError\<close>.\<close>

definition encode_json :: "json_format \<Rightarrow> (pyfloat \<Rightarrow> string) \<Rightarrow> json \<Rightarrow> py_exn + bytes" where
  "encode_json F render v =
     (case json_dumps F render v of
        Inl e \<Rightarrow> Inl e
      | Inr s \<Rightarrow> if utf8_decode True s = None then Inl ValueError else Inr (text_bytes s))"

lemma encode_json_loads:
  assumes "encode_json F render v = Inr p" and "format_ok F" and "reads_back F depth v"
  shows "python_loads depth p = Loaded v"
proof -
  obtain s where s: "json_dumps F render v = Inr s" "utf8_decode True s \<noteq> None" "p = text_bytes s"
    using assms(1) by (auto simp: encode_json_def split: sum.splits if_splits)
  have "json_loads depth s = Loaded v"
    using loads_dumps [OF assms(2,3) s(1), of "[]"] by simp
  with s show ?thesis by (simp add: python_loads_def)
qed

text \<open>A frame of less than 16 MiB starts with a zero byte, and no JSON text does.\<close>

lemma zero_is_no_json: "json_loads depth (CHR 0x00 # s) = DecodeError"
proof -
  have "scan_value depth (CHR 0x00 # s) = Inl Malformed"
    by (cases depth) (simp_all add: scan_with_def scan_literal_def json_literals_def scan_number_def scan_unsigned_def
        starts_with_def is_digit_def Let_def)
  then show ?thesis by (simp add: json_loads_def starts_with_def BOM_def skip_space_def json_space_def octet_def)
qed

lemma be_bytes_high_zero: "n < 256 ^ k \<Longrightarrow> \<exists>bs. be_bytes (Suc k) n = 0 # bs"
proof (induction k arbitrary: n)
  case (Suc k)
  then have "n div 256 < 256 ^ k" by (simp add: less_mult_imp_div_less mult.commute)
  from Suc.IH [OF this] obtain bs where "be_bytes (Suc k) (n div 256) = 0 # bs" ..
  then have "be_bytes (Suc (Suc k)) n = 0 # (bs @ [word_of_nat n])" unfolding be_bytes.simps(2) [of "Suc k"] by (simp only: append_Cons)
  then show ?case ..
qed simp

definition small_frame :: "frame \<Rightarrow> bool" where
  "small_frame f \<longleftrightarrow> frame_fits f \<and> length (f_body f) + HEADER_LENGTH < 256 ^ 3"

lemma frames_are_no_json:
  assumes "list_all small_frame fs"
  shows "python_loads depth (concat (map frame_bytes fs)) = DecodeError"
proof (cases fs)
  case Nil
  then show ?thesis
    by (cases depth) (simp_all add: python_loads_def bytes_text_def utf8_decode.simps json_loads_def starts_with_def BOM_def skip_space_def
        scan_with_def)
next
  case (Cons f rest)
  then have "length (f_body f) + HEADER_LENGTH < 256 ^ 3" using assms by (simp add: small_frame_def)
  from be_bytes_high_zero [OF this] obtain bs where "frame_bytes f = 0 # bs"
    unfolding frame_bytes_def by (auto simp: numeral_eq_Suc simp del: be_bytes.simps)
  with Cons have "bytes_text (concat (map frame_bytes fs)) = CHR 0x00 # bytes_text (bs @ concat (map frame_bytes rest))"
    by (simp add: bytes_text_def char_of_def)
  then show ?thesis by (simp add: python_loads_def zero_is_no_json)
qed

subsection \<open>The frames the client sends\<close>

text \<open>\<open>json.dumps(auth_payload, separators=(",", ":"))\<close>.\<close>

definition compact_json :: json_format where
  "compact_json = \<lparr>jf_ascii = True, jf_indent = None, jf_item = '','', jf_colon = '':''\<rparr>"

text \<open>
  The packet of \<open>_send_auth\<close>; the payload has no float. The connect loop treats what is raised here like
  a lost connection (\<open>AuthLost\<close>).
\<close>

definition auth_packet :: "danmaku_client \<Rightarrow> string \<Rightarrow> string option \<Rightarrow> py_exn + bytes" where
  "auth_packet dc token buvid =
     (case encode_json compact_json (\<lambda>_. []) (JDict (auth_payload dc token buvid)) of
        Inl e \<Rightarrow> Inl e
      | Inr body \<Rightarrow> pack_data body (int op_AUTH) (int ver_RAW))"

definition HEARTBEAT_PAYLOAD :: bytes where
  "HEARTBEAT_PAYLOAD = text_bytes ''[object Object]''"

text \<open>
  \<open>_heartbeat\<close>: what it sends, given what it finds at the turns of its loop, and whether it has
  returned. A turn reads \<open>running\<close>, sends, and sleeps for the interval; the task may be cancelled there.
\<close>

datatype heartbeat_turn = NotRunning | SendFails | SleepThen | SleepCancelled

fun heartbeat_loop :: "bytes \<Rightarrow> heartbeat_turn list \<Rightarrow> bytes list \<times> bool" where
  "heartbeat_loop packet [] = ([], False)"
| "heartbeat_loop packet (NotRunning # turns) = ([], True)"
| "heartbeat_loop packet (SendFails # turns) = ([], True)"
| "heartbeat_loop packet (SleepCancelled # turns) = ([packet], True)"
| "heartbeat_loop packet (SleepThen # turns) = map_prod ((#) packet) id (heartbeat_loop packet turns)"

definition heartbeat :: "heartbeat_turn list \<Rightarrow> py_exn + bytes list \<times> bool" where
  "heartbeat turns = map_sum id (\<lambda>packet. heartbeat_loop packet turns) (pack_data HEARTBEAT_PAYLOAD (int op_HEARTBEAT) (int ver_RAW))"

lemma reads_back_auth:
  assumes "json_dumps compact_json render (JDict (auth_payload dc token buvid)) = Inr s" and "0 < depth"
    and "utf8_decode True token \<noteq> None" and "\<And>v. buvid = Some v \<Longrightarrow> utf8_decode True v \<noteq> None"
  shows "reads_back compact_json depth (JDict (auth_payload dc token buvid))"
proof -
  have "printable (JDict (auth_payload dc token buvid))"
    using assms(1) by (simp add: json_dumps_def split: if_splits)
  then show ?thesis
    using assms(2-4) by (auto simp: auth_payload_def text_ok_def octet_def utf8_decode_ascii split: option.splits if_splits)
qed

lemma compact_format [simp]: "format_ok compact_json" "jf_ascii compact_json"
  by (simp_all add: compact_json_def format_ok_def)

lemma pack_data_header:
  assumes "pack_data d (int ty) (int ver) = Inr b"
  shows "field b 0 4 = length b \<and> field b 4 2 = HEADER_LENGTH \<and> field b 6 2 = ver \<and> field b 8 4 = ty \<and>
    field b 12 4 = SEQUENCE \<and> drop HEADER_LENGTH b = d"
proof -
  let ?f = "packed_frame d ty ver"
  have fits: "frame_fits ?f" and b: "b = frame_bytes ?f" using pack_data_InrD [OF assms] by blast+
  then have "field b 12 4 = SEQUENCE \<and> drop HEADER_LENGTH b = d"
    by (simp add: field_def frame_bytes_def packed_frame_def be_value_be_bytes protocol_constants)
  then show ?thesis
    using frame_fields(1-4) [OF fits, of "[]" "[]"] b by (simp add: packed_frame_def HEADER_LENGTH_def)
qed

text \<open>
  C32. The packet that authenticates the live socket is, whenever it can be built, a frame whose header
  announces its exact length, a raw AUTH packet and sequence number 1, and whose body consists of ASCII
  bytes that JSON reads back as an object of exactly these fields in this order: the client's uid as
  \<open>uid\<close>, its room as \<open>roomid\<close>, protocol version 3, platform \<open>web\<close>, type 2, the token as \<open>key\<close>, and the
  buvid if there is one that is not empty. Token and buvid are assumed to be strings without lone
  surrogates, in UTF-8.
\<close>

theorem auth_packet_read_back:
  assumes "auth_packet dc token buvid = Inr p" and "0 < depth"
    and "utf8_decode True token \<noteq> None" and "\<And>v. buvid = Some v \<Longrightarrow> utf8_decode True v \<noteq> None"
  shows "field p 0 4 = length p \<and> field p 4 2 = HEADER_LENGTH \<and> field p 6 2 = ver_RAW \<and> field p 8 4 = op_AUTH \<and>
    field p 12 4 = SEQUENCE \<and> (\<forall>b \<in> set (drop HEADER_LENGTH p). b < 128) \<and>
    python_loads depth (drop HEADER_LENGTH p) = Loaded (JDict
      ([(''uid'', JInt (dc_uid dc)), (''roomid'', JInt (dc_room_id dc)), (''protover'', JInt 3),
        (''platform'', JStr ''web''), (''type'', JInt 2), (''key'', JStr token)] @
       (if buvid = None \<or> buvid = Some [] then [] else [(''buvid'', JStr (the buvid))])))"
proof -
  let ?v = "JDict (auth_payload dc token buvid)"
  obtain body where body: "encode_json compact_json (\<lambda>_. []) ?v = Inr body"
    and p: "pack_data body (int op_AUTH) (int ver_RAW) = Inr p"
    using assms(1) by (auto simp: auth_packet_def split: sum.splits)
  obtain s where s: "json_dumps compact_json (\<lambda>_. []) ?v = Inr s" "body = text_bytes s"
    using body by (auto simp: encode_json_def split: sum.splits if_splits)
  have readable: "reads_back compact_json depth' ?v" if "0 < depth'" for depth'
    using reads_back_auth [OF s(1) that assms(3,4)] .
  have "ascii_text s"
    using s(1) ascii_dump [OF compact_format(2,1) readable [of 1]]
    by (auto simp: json_dumps_def simp del: dump_value.simps printable.simps split: if_splits)
  then have "\<forall>b \<in> set body. b < 128"
    by (auto simp: s(2) text_bytes_def ascii_text_def list_all_iff word_less_nat_alt unat_of_nat)
  moreover have "auth_payload dc token buvid =
      [(''uid'', JInt (dc_uid dc)), (''roomid'', JInt (dc_room_id dc)), (''protover'', JInt 3),
        (''platform'', JStr ''web''), (''type'', JInt 2), (''key'', JStr token)] @
       (if buvid = None \<or> buvid = Some [] then [] else [(''buvid'', JStr (the buvid))])"
    by (auto simp: auth_payload_def split: option.split)
  ultimately show ?thesis using pack_data_header [OF p] encode_json_loads [OF body _ readable [OF assms(2)]] by simp
qed

lemma auth_packet_read_back_witness:
  "\<exists>p. auth_packet (new_danmaku_client 6) ''t'' (Some ''b'') = Inr p \<and>
     python_loads 1 (drop HEADER_LENGTH p) = Loaded (JDict
       [(''uid'', JInt 0), (''roomid'', JInt 6), (''protover'', JInt 3), (''platform'', JStr ''web''), (''type'', JInt 2),
        (''key'', JStr ''t''), (''buvid'', JStr ''b'')])"
proof -
  let ?v = "JDict (auth_payload (new_danmaku_client 6) ''t'' (Some ''b''))"
  let ?s = "dump_value compact_json (\<lambda>_. []) 0 ?v"
  have short: "length (str_nat n) \<le> 4300" if "n < 10" for n
    by (subst str_nat.simps) (simp add: that)
  have "printable ?v" by (simp add: auth_payload_def new_danmaku_client_def short)
  moreover have "list_all (\<lambda>c. octet c < 128) ?s \<and> length ?s < 200" by code_simp
  ultimately have "encode_json compact_json (\<lambda>_. []) ?v = Inr (text_bytes ?s)" "length (text_bytes ?s) < 200"
    by (simp_all add: encode_json_def json_dumps_def utf8_decode_ascii ascii_text_def text_bytes_def del: dump_value.simps printable.simps)
  moreover from this(2) have "\<exists>p. pack_data (text_bytes ?s) (int op_AUTH) (int ver_RAW) = Inr p"
    unfolding pack_data_eq Let_def by (simp add: frame_fits_def protocol_constants del: dump_value.simps)
  ultimately obtain p where p: "auth_packet (new_danmaku_client 6) ''t'' (Some ''b'') = Inr p"
    by (auto simp: auth_packet_def simp del: dump_value.simps)
  have "python_loads 1 (drop HEADER_LENGTH p) = Loaded (JDict
       [(''uid'', JInt 0), (''roomid'', JInt 6), (''protover'', JInt 3), (''platform'', JStr ''web''), (''type'', JInt 2),
        (''key'', JStr ''t''), (''buvid'', JStr ''b'')])"
    using auth_packet_read_back [OF p, of 1] by (simp add: utf8_decode_ascii octet_def new_danmaku_client_def)
  with p show ?thesis by blast
qed

text \<open>
  The heartbeat never fails to build its packet, and each turn of its loop that finds the client running
  sends the same 31 bytes, until the first turn that ends the task.
\<close>

theorem heartbeat_sends:
  "case heartbeat turns of
     Inl e \<Rightarrow> False
   | Inr (frames, ended) \<Rightarrow>
       set frames \<subseteq> {[0, 0, 0, 31, 0, 16, 0, 1, 0, 0, 0, 2, 0, 0, 0, 1] @ text_bytes ''[object Object]''} \<and>
       length frames \<le> length turns \<and> (\<not> ended \<longrightarrow> length frames = length turns)"
proof -
  have "pack_data HEARTBEAT_PAYLOAD (int op_HEARTBEAT) (int ver_RAW)
      = Inr ([0, 0, 0, 31, 0, 16, 0, 1, 0, 0, 0, 2, 0, 0, 0, 1] @ text_bytes ''[object Object]'')"
  proof -
    have digits: "be_bytes (numeral k) n = be_bytes (pred_numeral k) (n div 256) @ [word_of_nat n]" for k n
      by (simp only: numeral_eq_Suc [of k] be_bytes.simps)
    show ?thesis
      unfolding pack_data_eq Let_def
      by (simp add: frame_fits_def frame_bytes_def protocol_constants HEARTBEAT_PAYLOAD_def text_bytes_def digits)
  qed
  moreover have "set (fst (heartbeat_loop p turns)) \<subseteq> {p} \<and> length (fst (heartbeat_loop p turns)) \<le> length turns \<and>
      (\<not> snd (heartbeat_loop p turns) \<longrightarrow> length (fst (heartbeat_loop p turns)) = length turns)" for p
    by (induction p turns rule: heartbeat_loop.induct) auto
  ultimately show ?thesis
    by (simp add: heartbeat_def case_prod_beta')
qed

subsection \<open>What the upstream sends\<close>

lemma list_all2_choice:
  "list_all2 (\<lambda>m b. \<exists>p. P p m b) ms bs \<Longrightarrow> \<exists>dms. map snd dms = ms \<and> list_all2 (\<lambda>(p, m) b. P p m b) dms bs"
proof (induction rule: list_all2_induct)
  case (Cons m ms b bs)
  then obtain p dms where "P p m b" "map snd dms = ms" "list_all2 (\<lambda>(p, m) b. P p m b) dms bs" by blast
  then show ?case by (intro exI [of _ "(p, m) # dms"]) simp
qed simp

text \<open>
  C7. A batch as the upstream sends it: JSON objects, each in a plain NORMAL frame of less than 16 MiB,
  the frames one after another compressed into the body of one NORMAL packet. The client reads from it
  exactly these objects, in order, with the JSON of Python and whatever decompressors that undo the
  compression: the text of the frames is never mistaken for a JSON document. The objects are those that
  the model's printer and reader carry unchanged: nested no deeper than the stack allows, keys
  distinct in each object, integers of at most 4300 digits, texts of valid UTF-8, and numbers that are
  integers, infinities or NaN. Finite floating-point numbers are excluded, as their printed form is a
  parameter of the model, and so no message with one is covered.
\<close>

theorem json_batch_unpacked:
  assumes "list_all2 (\<lambda>m b. \<exists>p. encode_json F render (JDict m) = Inr p \<and> length p + HEADER_LENGTH < 256 ^ 3 \<and>
      pack_data p (int op_NORMAL) (int ver_PLAIN) = Inr b) ms bs"
    and "format_ok F" and "\<And>m. m \<in> set ms \<Longrightarrow> reads_back F depth (JDict m)"
    and "pack_data z (int op_NORMAL) (int ver) = Inr b" and "ver = ver_ZLIB \<or> ver = ver_BROTLI"
    and "decompress (python_codec depth zlib brotli) ver z = Some (concat bs)"
  shows "unpack_data (python_codec depth zlib brotli) (Suc (Suc n)) b = Inr ms"
proof -
  let ?C = "python_codec depth zlib brotli"
  let ?frame = "\<lambda>p. packed_frame p op_NORMAL ver_PLAIN"
  obtain dms where ms: "map snd dms = ms" and built: "list_all2 (\<lambda>(p, m) b. encode_json F render (JDict m) = Inr p \<and>
      length p + HEADER_LENGTH < 256 ^ 3 \<and> pack_data p (int op_NORMAL) (int ver_PLAIN) = Inr b) dms bs"
    using list_all2_choice [OF assms(1)] by blast
  have load: "loads ?C p = Loaded (JDict m)" if h: "encode_json F render (JDict m) = Inr p" "(p', m) \<in> set dms" for p p' m
  proof -
    have "m \<in> set ms" using h(2) ms by force
    from encode_json_loads [OF h(1) assms(2) assms(3) [OF this]] show ?thesis by (simp add: python_codec_def)
  qed
  then have frames: "list_all2 (\<lambda>(p, m) b. pack_data p (int op_NORMAL) (int ver_PLAIN) = Inr b \<and> loads ?C p = Loaded (JDict m)) dms bs"
    using built by (auto simp: list_all2_conv_all_nth split: prod.splits) (metis nth_mem)
  have bs: "bs = map frame_bytes (map (\<lambda>(p, m). ?frame p) dms) \<and> list_all small_frame (map (\<lambda>(p, m). ?frame p) dms)"
    using built by (induction rule: list_all2_induct) (auto simp: small_frame_def packed_frame_def dest!: pack_data_InrD)
  have "loads ?C (concat bs) = DecodeError"
    using frames_are_no_json [of "map (\<lambda>(p, m). ?frame p) dms"] bs by (simp add: python_codec_def)
  from compressed_batch_unpacked [OF assms(4-6) this frames] ms show ?thesis by simp
qed

text \<open>Two objects, compressed to one byte.\<close>

lemma json_batch_unpacked_witness:
  "\<exists>b zlib. pack_data [9] (int op_NORMAL) (int ver_ZLIB) = Inr b \<and>
     unpack_data (python_codec 1 zlib (\<lambda>_. None)) 2 b = Inr [[(''cmd'', JStr ''LIVE'')], []]"
proof -
  let ?ms = "[[(''cmd'', JStr ''LIVE'')], []] :: message list"
  let ?body = "\<lambda>m. text_bytes (dump_value compact_json (\<lambda>_. []) 0 (JDict m))"
  let ?bs = "map (\<lambda>m. frame_bytes (packed_frame (?body m) op_NORMAL ver_PLAIN)) ?ms"
  let ?C = "python_codec 1 (\<lambda>_. Some (concat ?bs)) (\<lambda>_. None)"
  have readable: "reads_back compact_json 1 (JDict m)" if "m \<in> set ?ms" for m
    using that by (auto simp: text_ok_def utf8_decode_ascii octet_def)
  have "list_all (\<lambda>m. length (dump_value compact_json (\<lambda>_. []) 0 (JDict m)) < 100) ?ms" by code_simp
  then have "\<exists>p. encode_json compact_json (\<lambda>_. []) (JDict m) = Inr p \<and> length p + HEADER_LENGTH < 256 ^ 3 \<and>
      pack_data p (int op_NORMAL) (int ver_PLAIN) = Inr (frame_bytes (packed_frame (?body m) op_NORMAL ver_PLAIN))"
    if h: "m \<in> set ?ms" for m
  proof -
    have "length (?body m) < 100" using \<open>list_all _ ?ms\<close> h by (auto simp: list_all_iff text_bytes_def simp del: dump_value.simps)
    moreover have "encode_json compact_json (\<lambda>_. []) (JDict m) = Inr (?body m)"
      using ascii_dump [OF compact_format(2,1) readable [OF h]] reads_back_printable [OF readable [OF h]]
      by (simp add: encode_json_def json_dumps_def utf8_decode_ascii del: dump_value.simps printable.simps)
    ultimately show ?thesis
      unfolding pack_data_eq Let_def packed_frame_def
      by (simp add: frame_fits_def protocol_constants del: dump_value.simps)
  qed
  then have "list_all2 (\<lambda>m b. \<exists>p. encode_json compact_json (\<lambda>_. []) (JDict m) = Inr p \<and> length p + HEADER_LENGTH < 256 ^ 3 \<and>
      pack_data p (int op_NORMAL) (int ver_PLAIN) = Inr b) ?ms ?bs"
    unfolding list_all2_map2 list_all2_same by blast
  moreover obtain b where b: "pack_data [9] (int op_NORMAL) (int ver_ZLIB) = Inr b"
    unfolding pack_data_eq Let_def by (simp add: frame_fits_def protocol_constants)
  moreover have "decompress ?C ver_ZLIB [9] = Some (concat ?bs)"
    by (simp add: decompress_def python_codec_def)
  ultimately have "unpack_data ?C (Suc (Suc 0)) b = Inr ?ms"
    using json_batch_unpacked [OF _ compact_format(1) readable, of "\<lambda>_. []" ?ms ?bs "[9]" ver_ZLIB b] by blast
  with b show ?thesis unfolding numeral_2_eq_2 by blast
qed

end
