(* ===== verification/Fixtures.thy ===== *)
theory Fixtures
  imports Cookie_Login
begin

section \<open>Captured fixtures (\<open>scripts/capture_fixtures.py\<close>, \<open>scripts/check_fixtures.py\<close>)\<close>

text \<open>
  The script that records upstream responses with their credentials removed, and the one that scans the
  recorded files. The hash and \<open>json.dumps\<close> are parameters; the file system is the map of
  \<open>Cookie_Login\<close>, on a disk that does not fail. Both scripts search with regular expressions, which are
  written out as functions on the bytes of a text.
\<close>

subsection \<open>Regular expressions\<close>

text \<open>
  With \<open>IGNORECASE\<close> a letter also matches the other case, and \<open>i\<close> matches U+0130 and U+0131, \<open>s\<close>
  U+017F and \<open>k\<close> U+212A: a text is folded to lower case before it is matched.
\<close>

definition fold_head :: "string \<Rightarrow> char \<times> nat" where
  "fold_head s =
     (if map byte (take 3 s) = [226, 132, 170] then (CHR ''k'', 3)
      else if map byte (take 2 s) = [196, 176] \<or> map byte (take 2 s) = [196, 177] then (CHR ''i'', 2)
      else if map byte (take 2 s) = [197, 191] then (CHR ''s'', 2)
      else (lower_char (hd s), 1))"

function re_fold :: "string \<Rightarrow> string" where
  "re_fold s =
     (case s of [] \<Rightarrow> [] | c # cs \<Rightarrow> (case fold_head s of (f, n) \<Rightarrow> f # re_fold (drop (n - 1) cs)))"
  by pat_completeness auto
termination
  by (relation "measure length") auto

declare re_fold.simps [simp del]

text \<open>
  A literal, and \<open>[class]{n,}\<close>: what is left after the match. No class contains a character that its
  pattern continues with, so the longest run is the only one to try.
\<close>

definition literal :: "string \<Rightarrow> string \<Rightarrow> string option" where
  "literal l s = (if starts_with l s then Some (drop (length l) s) else None)"

definition run_of :: "(char \<Rightarrow> bool) \<Rightarrow> nat \<Rightarrow> string \<Rightarrow> string option" where
  "run_of p n s = (if n \<le> length (takeWhile p s) then Some (dropWhile p s) else None)"

fun re_search :: "(string \<Rightarrow> string option) \<Rightarrow> string \<Rightarrow> bool" where
  "re_search m [] \<longleftrightarrow> m [] \<noteq> None"
| "re_search m (c # cs) \<longleftrightarrow> m (c # cs) \<noteq> None \<or> re_search m cs"

definition folded_hex :: "char \<Rightarrow> bool" where
  "folded_hex c \<longleftrightarrow> is_digit c \<or> (97 \<le> byte c \<and> byte c \<le> 102)"

subsection \<open>Redaction\<close>

definition REDACTED :: string where
  "REDACTED = ''<REDACTED>''"

definition SENSITIVE_KEYS :: "string list" where
  "SENSITIVE_KEYS = [''sessdata'', ''bili_jct'', ''dedeuserid'', ''dedeuserid_ckmd5'', ''access_token'', ''refresh_token'']"

text \<open>\<open>$\<close> also matches before a newline at the end.\<close>

definition is_sensitive_key :: "string \<Rightarrow> bool" where
  "is_sensitive_key key \<longleftrightarrow>
     (let k = re_fold key in
      k \<in> set SENSITIVE_KEYS \<or> (k \<noteq> [] \<and> byte (last k) = 10 \<and> butlast k \<in> set SENSITIVE_KEYS))"

definition sessdata_hex :: "string \<Rightarrow> bool" where
  "sessdata_hex s \<longleftrightarrow> re_search (\<lambda>t. Option.bind (literal ''sessdata='' t) (run_of folded_hex 32)) (re_fold s)"

text \<open>The class is the apostrophe, \<open>\s\<close>, the colon, the equals sign and the greater-than sign.\<close>

definition jct_separator :: "char \<Rightarrow> bool" where
  "jct_separator c \<longleftrightarrow> byte c \<in> {39, 58, 61, 62} \<or> is_space c"

definition bili_jct_hex :: "string \<Rightarrow> bool" where
  "bili_jct_hex s \<longleftrightarrow>
     re_search (\<lambda>t. Option.bind (Option.bind (literal ''bili_jct'' t) (run_of jct_separator 1)) (run_of folded_hex 32)) (re_fold s)"

definition embeds_secret :: "string \<Rightarrow> bool" where
  "embeds_secret s \<longleftrightarrow> sessdata_hex s \<or> bili_jct_hex s"

function redact_body :: "json \<Rightarrow> json" where
  "redact_body (JDict d) =
     JDict (map (\<lambda>(k, v). (k, if is_sensitive_key k then JStr REDACTED else redact_body v)) d)"
| "redact_body (JList xs) = JList (map redact_body xs)"
| "redact_body (JStr s) = (if embeds_secret s then JStr REDACTED else JStr s)"
| "redact_body JNull = JNull"
| "redact_body (JBool b) = JBool b"
| "redact_body (JInt i) = JInt i"
| "redact_body (JFloat f) = JFloat f"
  by pat_completeness auto
termination
  by (relation "measure size") (auto intro: size_json_member simp del: json.size)

definition redact_headers :: "(string \<times> string) list \<Rightarrow> (string \<times> string) list" where
  "redact_headers headers =
     map (\<lambda>(k, v). (k, if is_sensitive_key k then REDACTED else v))
       (filter (\<lambda>(k, v). lower k \<noteq> ''set-cookie'') headers)"

definition redact_cookie_jar :: "(string \<times> string) list" where
  "redact_cookie_jar = []"

subsection \<open>Saving a fixture\<close>

definition ENDPOINT_NAV :: string where "ENDPOINT_NAV = ''nav''"

definition ENDPOINT_DANMU :: string where "ENDPOINT_DANMU = ''getDanmuInfo''"

definition ENDPOINT_BANLIST :: string where "ENDPOINT_BANLIST = ''ban_list''"

definition NAV_URL :: string where "NAV_URL = ''https://api.bilibili.com/x/web-interface/nav''"

definition DANMU_URL :: string where
  "DANMU_URL = ''https://api.live.bilibili.com/xlive/web-room/v1/index/getDanmuInfo''"

definition BANLIST_URL :: string where
  "BANLIST_URL = ''https://api.live.bilibili.com/xlive/web-ucenter/v1/banned/GetSilentUserList''"

text \<open>What the script uses of the library: the hexadecimal SHA-256 of a text, and \<open>json.dumps\<close>.\<close>

record fixture_tools =
  ft_sha256 :: "string \<Rightarrow> string"
  ft_dumps :: "json \<Rightarrow> string" \<comment> \<open>\<open>indent=2, sort_keys=True\<close>\<close>

definition canonical_params :: "string \<Rightarrow> int option \<Rightarrow> py_exn + (string \<times> int) list" where
  "canonical_params endpoint room_id =
     (if endpoint = ENDPOINT_NAV then Inr []
      else if endpoint \<in> {ENDPOINT_DANMU, ENDPOINT_BANLIST} then
        (case room_id of None \<Rightarrow> Inl AssertionError | Some r \<Rightarrow> Inr [(''room_id'', r)])
      else Inl ValueError)"

text \<open>The compact text of a dictionary of integers, with sorted keys.\<close>

definition quoted :: "string \<Rightarrow> string" where
  "quoted s = CHR 0x22 # s @ [CHR 0x22]"

definition compact_text :: "(string \<times> int) list \<Rightarrow> string" where
  "compact_text d =
     ''{'' @ join_with '','' (map (\<lambda>(k, i). quoted k @ '':'' @ str_int i) (sort_key fst d)) @ ''}''"

definition sha16 :: "fixture_tools \<Rightarrow> (string \<times> int) list \<Rightarrow> string" where
  "sha16 T d = take 16 (ft_sha256 T (compact_text d))"

definition fixture_filename :: "fixture_tools \<Rightarrow> string \<Rightarrow> int option \<Rightarrow> py_exn + string" where
  "fixture_filename T endpoint room_id =
     bind_res (canonical_params endpoint room_id) (\<lambda>d. Inr (endpoint @ ''_'' @ sha16 T d @ ''.json''))"

record capture =
  cp_endpoint :: string
  cp_room_id :: "int option"
  cp_url :: string
  cp_params :: message
  cp_body :: json
  cp_headers :: "(string \<times> string) list"

definition str_items :: "(string \<times> string) list \<Rightarrow> json" where
  "str_items d = JDict (map (\<lambda>(k, v). (k, JStr v)) d)"

definition fixture_payload :: "string \<Rightarrow> capture \<Rightarrow> json" where
  "fixture_payload captured_at cp =
     JDict [(''captured_at'', JStr captured_at), (''endpoint'', JStr (cp_endpoint cp)), (''url'', JStr (cp_url cp)),
            (''request_params'', JDict (cp_params cp)), (''response_status'', JInt 200),
            (''response_body'', redact_body (cp_body cp)),
            (''response_headers'', str_items (redact_headers (cp_headers cp))),
            (''cookies'', str_items redact_cookie_jar)]"

definition save_fixture ::
    "fixture_tools \<Rightarrow> string \<Rightarrow> string \<Rightarrow> capture \<Rightarrow> file_system \<Rightarrow> (py_exn + string) \<times> file_system" where
  "save_fixture T out_dir captured_at cp fs =
     (case fixture_filename T (cp_endpoint cp) (cp_room_id cp) of
        Inl e \<Rightarrow> (Inl e, fs)
      | Inr name \<Rightarrow>
          (let path = out_dir @ ''/'' @ name
           in (Inr path, fs(path \<mapsto> ft_dumps T (fixture_payload captured_at cp)))))"

subsection \<open>The dry run\<close>

definition synthetic_nav :: json where
  "synthetic_nav =
     JDict [(''code'', JInt 0), (''message'', JStr ''0''), (''ttl'', JInt 1),
       (''data'', JDict
          [(''isLogin'', JBool True), (''uname'', JStr ''fixture_capture_dry_run''), (''mid'', JInt 999999999),
           (''SESSDATA'', JStr (concat (replicate 4 ''deadbeef''))), (''bili_jct'', JStr (concat (replicate 4 ''cafef00d''))),
           (''DedeUserID'', JStr ''abc12345''), (''DedeUserID_ckMd5'', JStr ''fffefdfc''),
           (''access_token'', JStr (''eyJh'' @ concat (replicate 8 ''bcdc''))),
           (''refresh_token'', JStr (''eyJy'' @ concat (replicate 8 ''efab''))),
           (''wbi_img'', JDict [(''img_url'', JStr ''https://i0.hdslb.com/bfs/wbi/abcdef0123456789.png''),
              (''sub_url'', JStr ''https://i0.hdslb.com/bfs/wbi/fedcba9876543210.png'')])])]"

definition synthetic_danmu :: "int \<Rightarrow> json" where
  "synthetic_danmu room_id =
     JDict [(''code'', JInt 0), (''message'', JStr ''ok''),
       (''data'', JDict
          [(''group'', JStr ''live''), (''business_id'', JInt 0), (''refresh_row_factor'', JFloat (FFin 1 (- 3))),
           (''refresh_rate'', JInt 100), (''max_delay'', JInt 5000), (''token'', JStr (''XXXX'' @ concat (replicate 8 ''f00d''))),
           (''host_list'', JList [JDict [(''host'', JStr ''tx-live-comet-01.chat.bilibili.com''), (''port'', JInt 2245),
              (''wss_port'', JInt 2245), (''ws_port'', JInt 2245)]]),
           (''SESSDATA'', JStr (concat (replicate 4 ''a1b2c3d4''))), (''_room_id'', JInt room_id)])]"

definition synthetic_banlist :: "int \<Rightarrow> json" where
  "synthetic_banlist room_id =
     JDict [(''code'', JInt 0), (''message'', JStr ''ok''),
       (''data'', JDict
          [(''total'', JInt 1), (''total_page'', JInt 1),
           (''data'', JList [JDict [(''id'', JInt 1001), (''uid'', JInt 99999), (''uname'', JStr ''fixture_user''),
              (''roomid'', JInt room_id), (''ctime'', JInt 1700000000), (''banned_type'', JInt 1), (''operator'', JInt 12345),
              (''SESSDATA'', JStr (concat (replicate 4 ''b2c3d4e5''))), (''DedeUserID_ckMd5'', JStr ''99887766'')]])])]"

definition dry_run_captures :: "capture list" where
  "dry_run_captures =
     [\<lparr>cp_endpoint = ENDPOINT_NAV, cp_room_id = None, cp_url = NAV_URL, cp_params = [], cp_body = synthetic_nav,
       cp_headers = [(''set-cookie'', ''SESSDATA=deadbeefdeadbeefdeadbeefdeadbeef; Path=/; HttpOnly; bili_jct=cafef00dcafef00dcafef00dcafef00d''),
                     (''content-type'', ''application/json'')]\<rparr>,
      \<lparr>cp_endpoint = ENDPOINT_DANMU, cp_room_id = Some 22210347, cp_url = DANMU_URL,
       cp_params = [(''id'', JInt 22210347), (''type'', JStr ''0'')], cp_body = synthetic_danmu 22210347,
       cp_headers = [(''content-type'', ''application/json'')]\<rparr>,
      \<lparr>cp_endpoint = ENDPOINT_BANLIST, cp_room_id = Some 22210347, cp_url = BANLIST_URL,
       cp_params = [(''room_id'', JInt 22210347), (''ps'', JInt 1)], cp_body = synthetic_banlist 22210347,
       cp_headers = [(''content-type'', ''application/json'')]\<rparr>]"

fun save_all :: "fixture_tools \<Rightarrow> string \<Rightarrow> string \<Rightarrow> capture list \<Rightarrow> file_system \<Rightarrow> (py_exn + string list) \<times> file_system" where
  "save_all T out_dir captured_at [] fs = (Inr [], fs)"
| "save_all T out_dir captured_at (cp # cps) fs =
     (case save_fixture T out_dir captured_at cp fs of
        (Inl e, fs1) \<Rightarrow> (Inl e, fs1)
      | (Inr path, fs1) \<Rightarrow>
          (case save_all T out_dir captured_at cps fs1 of
             (Inl e, fs2) \<Rightarrow> (Inl e, fs2)
           | (Inr paths, fs2) \<Rightarrow> (Inr (path # paths), fs2)))"

definition assert_redacted :: "string \<Rightarrow> py_exn + unit" where
  "assert_redacted payload_text =
     (if sessdata_hex payload_text \<or> bili_jct_hex payload_text then Inl AssertionError else Inr ())"

fun assert_all :: "file_system \<Rightarrow> string list \<Rightarrow> py_exn + unit" where
  "assert_all fs [] = Inr ()"
| "assert_all fs (p # ps) =
     (case fs p of None \<Rightarrow> Inl OSError | Some content \<Rightarrow> bind_res (assert_redacted content) (\<lambda>_. assert_all fs ps))"

definition remove_tree :: "string \<Rightarrow> file_system \<Rightarrow> file_system" where
  "remove_tree dir fs = (\<lambda>p. if starts_with (dir @ ''/'') p then None else fs p)"

text \<open>\<open>tmp\<close> is the directory \<open>mkdtemp\<close> made. The three times of a run are one.\<close>

definition dry_run :: "fixture_tools \<Rightarrow> string \<Rightarrow> string \<Rightarrow> file_system \<Rightarrow> (py_exn + int) \<times> file_system" where
  "dry_run T tmp captured_at fs =
     (case save_all T tmp captured_at dry_run_captures fs of
        (Inl e, fs1) \<Rightarrow> (Inl e, remove_tree tmp fs1)
      | (Inr paths, fs1) \<Rightarrow> (bind_res (assert_all fs1 paths) (\<lambda>_. Inr 0), remove_tree tmp fs1))"

subsection \<open>The live capture\<close>

text \<open>
  The client, the files and the network; \<open>headers\<close> is \<open>dict(client.http.headers)\<close>. A saved fixture
  takes its time from the clock.
\<close>

definition capture_step ::
    "fixture_tools \<Rightarrow> string \<Rightarrow> (rat \<Rightarrow> string) \<Rightarrow> 'w env \<Rightarrow> capture \<Rightarrow> file_system \<times> (bili_client \<times> 'w)
      \<Rightarrow> (exn + unit) \<times> file_system \<times> (bili_client \<times> 'w)" where
  "capture_step T out_dir iso_now E cp = (\<lambda>(fs, (c, w)).
     case save_fixture T out_dir (iso_now (clock E w)) cp fs of
       (Inl e, fs1) \<Rightarrow> (Inl (Py e), fs1, (c, w))
     | (Inr _, fs1) \<Rightarrow> (Inr (), fs1, (c, w)))"

definition nav_body :: "message option \<Rightarrow> json" where
  "nav_body nav_data =
     (case nav_data of
        None \<Rightarrow> JDict [(''code'', JInt (- 101)), (''message'', JStr ''not logged in'')]
      | Some d \<Rightarrow> JDict [(''code'', JInt 0), (''message'', JStr ''0''), (''ttl'', JInt 1), (''data'', JDict d)])"

definition ok_body :: "json \<Rightarrow> json" where
  "ok_body data = JDict [(''code'', JInt 0), (''message'', JStr ''ok''), (''data'', data)]"

text \<open>A call of the client in the world that also has the files.\<close>

definition with_files ::
    "('w, 'a) client_io \<Rightarrow> (file_system \<times> (bili_client \<times> 'w), exn, 'a) io" where
  "with_files call = (\<lambda>(fs, cw). case call cw of (r, cw') \<Rightarrow> (r, (fs, cw')))"

definition capture_live ::
    "fixture_tools \<Rightarrow> string \<Rightarrow> (rat \<Rightarrow> string) \<Rightarrow> 'w env \<Rightarrow> (string \<Rightarrow> string) \<Rightarrow> (string \<times> string) list \<Rightarrow> int option
      \<Rightarrow> (file_system \<times> (bili_client \<times> 'w), exn, int) io" where
  "capture_live T out_dir iso_now E md5_hex headers room_id =
     bind_io (with_files (get_user_info E)) (\<lambda>nav_data.
     bind_io (capture_step T out_dir iso_now E
       \<lparr>cp_endpoint = ENDPOINT_NAV, cp_room_id = None, cp_url = NAV_URL, cp_params = [], cp_body = nav_body nav_data,
        cp_headers = headers\<rparr>) (\<lambda>_.
     case room_id of
       None \<Rightarrow> return_io 0
     | Some r \<Rightarrow>
         bind_io (with_files (get_danmu_info E md5_hex r)) (\<lambda>danmu_data.
         bind_io (capture_step T out_dir iso_now E
           \<lparr>cp_endpoint = ENDPOINT_DANMU, cp_room_id = Some r, cp_url = DANMU_URL,
            cp_params = [(''id'', JInt r), (''type'', JStr ''0'')], cp_body = ok_body (JDict danmu_data), cp_headers = headers\<rparr>) (\<lambda>_.
         bind_io (with_files (get_ban_list E (\<lambda>_. True) r)) (\<lambda>bans.
         bind_io (capture_step T out_dir iso_now E
           \<lparr>cp_endpoint = ENDPOINT_BANLIST, cp_room_id = Some r, cp_url = BANLIST_URL,
            cp_params = [(''room_id'', JInt r), (''ps'', JInt 1)], cp_body = ok_body (JDict [(''data'', JList bans)]),
            cp_headers = headers\<rparr>) (\<lambda>_.
         return_io 0))))))"

definition has_real_cookies :: "string \<Rightarrow> string \<Rightarrow> bool" where
  "has_real_cookies sessdata bili_jct \<longleftrightarrow> sessdata \<noteq> [] \<and> bili_jct \<noteq> []"

definition resolve_fixture_room :: "int option \<Rightarrow> int option \<Rightarrow> int option" where
  "resolve_fixture_room arg_room settings_room = (case arg_room of Some r \<Rightarrow> Some r | None \<Rightarrow> settings_room)"

text \<open>The choice of \<open>main\<close>: without a flag it is the dry run; without cookies nothing is captured.\<close>

datatype capture_mode = DryRun | NoCookies | CaptureLive "int option"

definition choose_mode :: "bool \<Rightarrow> bool \<Rightarrow> int option \<Rightarrow> string \<Rightarrow> string \<Rightarrow> int option \<Rightarrow> capture_mode" where
  "choose_mode live dry arg_room sessdata bili_jct settings_room =
     (let dry' = (dry \<or> \<not> live) in
      if dry' then DryRun
      else if \<not> has_real_cookies sessdata bili_jct then NoCookies
      else CaptureLive (resolve_fixture_room arg_room settings_room))"

subsection \<open>The scan of committed fixtures\<close>

definition key_value_pattern :: "string \<Rightarrow> (char \<Rightarrow> bool) \<Rightarrow> nat \<Rightarrow> string \<Rightarrow> bool" where
  "key_value_pattern key p n line \<longleftrightarrow> re_search (\<lambda>t. Option.bind (literal (key @ ''='') t) (run_of p n)) (re_fold line)"

definition json_pattern :: "string \<Rightarrow> (char \<Rightarrow> bool) \<Rightarrow> nat \<Rightarrow> string \<Rightarrow> bool" where
  "json_pattern key p n line \<longleftrightarrow>
     re_search (\<lambda>t0.
       Option.bind (literal (quoted key) t0) (\<lambda>t1.
       Option.bind (literal '':'' (dropWhile is_space t1)) (\<lambda>t2.
       Option.bind (literal [CHR 0x22] (dropWhile is_space t2)) (\<lambda>t3.
       Option.bind (run_of p n t3) (literal [CHR 0x22]))))) (re_fold line)"

definition PATTERNS :: "(string \<times> (string \<Rightarrow> bool)) list" where
  "PATTERNS =
     [(''SESSDATA'', key_value_pattern ''sessdata'' folded_hex 10), (''SESSDATA(json)'', json_pattern ''sessdata'' folded_hex 10),
      (''bili_jct'', key_value_pattern ''bili_jct'' folded_hex 20), (''bili_jct(json)'', json_pattern ''bili_jct'' folded_hex 20),
      (''BILI_JCT'', key_value_pattern ''bili_jct'' folded_hex 20), (''BILI_JCT(json)'', json_pattern ''bili_jct'' folded_hex 20),
      (''DedeUserID'', key_value_pattern ''dedeuserid'' is_digit 5), (''DedeUserID(json)'', json_pattern ''dedeuserid'' is_digit 5)]"

text \<open>One report per line.\<close>

definition line_label :: "string \<Rightarrow> string option" where
  "line_label line = map_option fst (find (\<lambda>(label, pat). pat line) PATTERNS)"

fun line_hits :: "nat \<Rightarrow> string list \<Rightarrow> (string \<times> nat \<times> string) list" where
  "line_hits n [] = []"
| "line_hits n (line # lines) =
     (case line_label line of None \<Rightarrow> [] | Some label \<Rightarrow> [(label, n, line)]) @ line_hits (Suc n) lines"

text \<open>
  \<open>set(meta.get("secretscan_allow", []))\<close> of \<open>_meta\<close>: of its elements only the strings can be labels. The
  \<open>try\<close> catches \<open>ValueError\<close> and \<open>AttributeError\<close>, not the \<open>TypeError\<close> of a value that is not iterable or
  of an element that is not hashable. The characters of a string are no labels.
\<close>

fun allow_set :: "json \<Rightarrow> py_exn + string list" where
  "allow_set (JList xs) =
     (if list_ex (\<lambda>x. case x of JList _ \<Rightarrow> True | JDict _ \<Rightarrow> True | _ \<Rightarrow> False) xs then Inl TypeError
      else Inr (List.map_filter str_instance xs))"
| "allow_set (JDict d) = Inr (map fst d)"
| "allow_set (JStr s) = Inr []"
| "allow_set _ = Inl TypeError"

definition allow_patterns :: "(string \<Rightarrow> loads_result) \<Rightarrow> string \<Rightarrow> py_exn + string list" where
  "allow_patterns parse content =
     (case (case parse content of
              DecodeError \<Rightarrow> Inl ValueError
            | LoadsRaises e \<Rightarrow> Inl e
            | Loaded v \<Rightarrow>
                bind_res (attr_get_default v ''_meta'' (JDict [])) (\<lambda>meta.
                bind_res (attr_get_default meta ''secretscan_allow'' (JList [])) allow_set)) of
        Inl ValueError \<Rightarrow> Inr []
      | Inl AttributeError \<Rightarrow> Inr []
      | r \<Rightarrow> r)"

definition scan_text :: "(string \<Rightarrow> loads_result) \<Rightarrow> string \<Rightarrow> py_exn + (string \<times> nat \<times> string) list" where
  "scan_text parse content =
     bind_res (allow_patterns parse content) (\<lambda>allow.
     Inr (filter (\<lambda>(label, n, line). label \<notin> set allow) (line_hits 1 (splitlines content))))"

definition scan_file :: "(string \<Rightarrow> loads_result) \<Rightarrow> py_exn + string \<Rightarrow> py_exn + (string \<times> nat \<times> string) list" where
  "scan_file parse content =
     (case content of Inl OSError \<Rightarrow> Inr [] | Inl e \<Rightarrow> Inl e | Inr c \<Rightarrow> scan_text parse c)"

text \<open>The sorted \<open>*.json\<close> files of the directory with what reading each of them gives.\<close>

fun scan_dir ::
    "(string \<Rightarrow> loads_result) \<Rightarrow> (string \<times> (py_exn + string)) list \<Rightarrow> py_exn + (string \<times> string \<times> nat \<times> string) list" where
  "scan_dir parse [] = Inr []"
| "scan_dir parse ((path, content) # files) =
     bind_res (scan_file parse content) (\<lambda>hits.
     bind_res (scan_dir parse files) (\<lambda>rest. Inr (map (\<lambda>h. (path, h)) hits @ rest)))"

text \<open>The exit code; None is a directory that does not exist.\<close>

definition check_fixtures :: "(string \<Rightarrow> loads_result) \<Rightarrow> (string \<times> (py_exn + string)) list option \<Rightarrow> py_exn + int" where
  "check_fixtures parse dir =
     (case dir of
        None \<Rightarrow> Inr 0
      | Some files \<Rightarrow> bind_res (scan_dir parse files) (\<lambda>hits. Inr (if hits = [] then 0 else 1)))"

subsection \<open>What redaction leaves\<close>

text \<open>No value under a sensitive key and no string with an embedded cookie, at any depth.\<close>

function no_secret :: "json \<Rightarrow> bool" where
  "no_secret (JDict d) \<longleftrightarrow>
     list_all (\<lambda>(k, v). if is_sensitive_key k then v = JStr REDACTED else no_secret v) d"
| "no_secret (JList xs) \<longleftrightarrow> list_all no_secret xs"
| "no_secret (JStr s) \<longleftrightarrow> \<not> embeds_secret s"
| "no_secret JNull \<longleftrightarrow> True"
| "no_secret (JBool b) \<longleftrightarrow> True"
| "no_secret (JInt i) \<longleftrightarrow> True"
| "no_secret (JFloat f) \<longleftrightarrow> True"
  by pat_completeness auto
termination
  by (relation "measure size") (auto intro: size_json_member simp del: json.size)

lemma REDACTED_harmless [simp]: "\<not> embeds_secret REDACTED"
  by code_simp

lemma no_secret_redact_body: "no_secret (redact_body v)"
proof (induction v rule: redact_body.induct)
  case (1 d)
  then show ?case by (fastforce simp: list_all_iff)
next
  case (2 xs)
  then show ?case by (simp add: list_all_iff)
qed simp_all

lemma redact_body_clean: "no_secret v \<Longrightarrow> redact_body v = v"
proof (induction v rule: redact_body.induct)
  case (1 d)
  have "(\<lambda>(k, v). (k, if is_sensitive_key k then JStr REDACTED else redact_body v)) kv = kv" if "kv \<in> set d" for kv
    using 1 that by (cases kv) (force simp: list_all_iff)
  then show ?case by (simp add: map_idI)
next
  case (2 xs)
  then show ?case by (simp add: list_all_iff map_idI)
qed simp_all

text \<open>The value at a path of keys and indices.\<close>

datatype json_step = Key string | Index nat

fun at_path :: "json_step list \<Rightarrow> json \<Rightarrow> json option" where
  "at_path [] v = Some v"
| "at_path (Key k # p) (JDict d) = Option.bind (map_of d k) (at_path p)"
| "at_path (Index i # p) (JList xs) = (if i < length xs then at_path p (xs ! i) else None)"
| "at_path _ _ = None"

definition plain_path :: "json_step list \<Rightarrow> bool" where
  "plain_path p \<longleftrightarrow> (\<forall>k. Key k \<in> set p \<longrightarrow> \<not> is_sensitive_key k)"

lemma map_of_redacted:
  "map_of (map (\<lambda>(k, v). (k, f k v)) d) k = map_option (f k) (map_of d k)"
  by (induction d) auto

lemma at_path_redact_body:
  "plain_path p \<Longrightarrow> at_path (p @ q) (redact_body v) = Option.bind (at_path p v) (\<lambda>x. at_path q (redact_body x))"
proof (induction p v rule: at_path.induct)
  case (2 k p d)
  then have "\<not> is_sensitive_key k" and "plain_path p" by (auto simp: plain_path_def)
  then show ?case using 2 by (cases "map_of d k") (simp_all add: map_of_redacted)
next
  case (3 i p xs)
  then show ?case by (simp add: plain_path_def)
qed (auto simp: map_of_redacted)

lemma at_path_sensitive:
  "is_sensitive_key k \<Longrightarrow> at_path [Key k] (redact_body v) = map_option (\<lambda>_. JStr REDACTED) (at_path [Key k] v)"
  by (cases v) (auto simp: map_of_redacted split: bind_splits)

subsection \<open>What a capture writes\<close>

definition redacted_payload :: "json \<Rightarrow> bool" where
  "redacted_payload v \<longleftrightarrow>
     (\<exists>d h. v = JDict d \<and> no_secret (jget d ''response_body'') \<and> jget d ''cookies'' = JDict [] \<and>
        jget d ''response_headers'' = str_items h \<and>
        (\<forall>(k, x) \<in> set h. lower k \<noteq> ''set-cookie'' \<and> (is_sensitive_key k \<longrightarrow> x = REDACTED)))"

lemma redacted_fixture_payload: "redacted_payload (fixture_payload t cp)"
  unfolding redacted_payload_def fixture_payload_def
  by (intro exI [of _ "redact_headers (cp_headers cp)"] exI conjI, rule refl)
    (auto simp: jget_def no_secret_redact_body redact_cookie_jar_def str_items_def redact_headers_def)

text \<open>Compared with the files before, only redacted fixtures of the directory are new.\<close>

definition only_fixtures :: "fixture_tools \<Rightarrow> string \<Rightarrow> file_system \<Rightarrow> file_system \<Rightarrow> bool" where
  "only_fixtures T out_dir fs fs' \<longleftrightarrow>
     (\<forall>p. fs' p = fs p \<or> (\<exists>name v. p = out_dir @ ''/'' @ name \<and> fs' p = Some (ft_dumps T v) \<and> redacted_payload v))"

definition fixture_there :: "fixture_tools \<Rightarrow> string \<Rightarrow> string \<Rightarrow> int option \<Rightarrow> file_system \<Rightarrow> bool" where
  "fixture_there T out_dir endpoint room_id fs \<longleftrightarrow>
     (\<exists>name. fixture_filename T endpoint room_id = Inr name \<and> fs (out_dir @ ''/'' @ name) \<noteq> None)"

lemma only_fixtures_refl [simp]: "only_fixtures T out_dir fs fs"
  by (simp add: only_fixtures_def)

lemma only_fixtures_trans:
  "only_fixtures T out_dir fs fs1 \<Longrightarrow> only_fixtures T out_dir fs1 fs2 \<Longrightarrow> only_fixtures T out_dir fs fs2"
  unfolding only_fixtures_def by metis

lemma fixture_there_mono:
  assumes "only_fixtures T out_dir fs fs'" and "fixture_there T out_dir e r fs"
  shows "fixture_there T out_dir e r fs'"
  using assms unfolding only_fixtures_def fixture_there_def by (metis option.distinct(1))

lemma save_fixture_only:
  assumes "save_fixture T out_dir t cp fs = (r, fs')"
  shows "only_fixtures T out_dir fs fs'"
    and "r = Inr path \<Longrightarrow> fixture_there T out_dir (cp_endpoint cp) (cp_room_id cp) fs'"
  using assms redacted_fixture_payload [of t cp]
  by (auto simp: save_fixture_def only_fixtures_def fixture_there_def Let_def split: sum.splits if_splits)

lemma capture_step_only:
  assumes "capture_step T out_dir iso_now E cp (fs, cw) = (r, (fs', cw'))"
  shows "only_fixtures T out_dir fs fs'"
    and "r = Inr u \<Longrightarrow> fixture_there T out_dir (cp_endpoint cp) (cp_room_id cp) fs'"
  using assms by (auto simp: capture_step_def split: prod.splits sum.splits dest: save_fixture_only)

lemma with_files_only: "with_files call (fs, cw) = (r, (fs', cw')) \<Longrightarrow> fs' = fs"
  by (simp add: with_files_def split: prod.splits)

lemma bind_io_InrE:
  assumes "bind_io m f s = (r, s')"
  obtains e where "m s = (Inl e, s')" and "r = Inl e"
  | x s1 where "m s = (Inr x, s1)" and "f x s1 = (r, s')"
  using assms by (auto simp: bind_io_def split: prod.splits sum.splits)

text \<open>A part of the capture: the endpoint is asked, then its fixture is saved.\<close>

lemma capture_part:
  assumes "bind_io (with_files call) (\<lambda>x. bind_io (capture_step T out_dir iso_now E (cp x)) (\<lambda>_. rest)) (fs, cw) = (r, (fs', cw'))"
    and "\<And>x. cp_endpoint (cp x) = e \<and> cp_room_id (cp x) = rid"
  obtains x where "r = Inl x" and "only_fixtures T out_dir fs fs'"
  | fs1 cw1 where "only_fixtures T out_dir fs fs1" and "fixture_there T out_dir e rid fs1" and "rest (fs1, cw1) = (r, (fs', cw'))"
  using assms(1)
proof (cases rule: bind_io_InrE)
  case (1 x)
  with that(1) [of x] show ?thesis by (auto dest: with_files_only)
next
  case (2 x s1)
  obtain fs0 cw0 where s1: "s1 = (fs0, cw0)" by (metis surj_pair)
  with 2(1) have fs0: "fs0 = fs" by (auto dest: with_files_only)
  from 2(2) [unfolded s1 fs0] show ?thesis
  proof (cases rule: bind_io_InrE)
    case (1 y)
    with that(1) [of y] show ?thesis by (auto dest: capture_step_only)
  next
    case c: (2 u s2)
    obtain fs2 cw2 where s2: "s2 = (fs2, cw2)" by (metis surj_pair)
    show ?thesis
      using that(2) [of fs2 cw2] capture_step_only [OF c(1) [unfolded s2]] c(2) assms(2) [of x] by (simp add: s2)
  qed
qed


subsection \<open>What the patterns find\<close>

lemma byte_lower_char: "byte c < 128 \<Longrightarrow> byte (lower_char c) < 128"
  by (simp add: byte_def lower_char_def Let_def)

lemma fold_head_append:
  assumes "s \<noteq> []" and "t = [] \<or> byte (hd t) < 128"
  shows "fold_head (s @ t) = fold_head s" and "snd (fold_head s) \<le> length s" and "1 \<le> snd (fold_head s)"
proof -
  obtain c cs where s: "s = c # cs" using assms(1) by (cases s) auto
  show "fold_head (s @ t) = fold_head s"
    using assms(2) by (cases cs; cases "tl cs"; cases t) (auto simp: s fold_head_def take_Cons')
  show "snd (fold_head s) \<le> length s" and "1 \<le> snd (fold_head s)"
    by (cases cs; cases "tl cs"; auto simp: s fold_head_def take_Cons')+
qed

lemma re_fold_append:
  assumes "t = [] \<or> byte (hd t) < 128"
  shows "re_fold (s @ t) = re_fold s @ re_fold t"
proof (induction s rule: re_fold.induct)
  case (1 s)
  show ?case
  proof (cases s)
    case Nil
    then show ?thesis by (simp add: re_fold.simps [of "[]"])
  next
    case (Cons c cs)
    obtain f n where f: "fold_head s = (f, n)" by force
    have n: "1 \<le> n" "n \<le> length s" using fold_head_append(2,3) [of s t] assms f Cons by simp_all
    have "re_fold (s @ t) = f # re_fold (drop (n - 1) (cs @ t))"
      using fold_head_append(1) [of s t] assms f Cons by (subst re_fold.simps) simp
    also have "drop (n - 1) (cs @ t) = drop (n - 1) cs @ t" using n Cons by simp
    also have "re_fold (drop (n - 1) cs @ t) = re_fold (drop (n - 1) cs) @ re_fold t"
      by (rule "1.IH" [OF Cons f [symmetric]])
    also have "f # re_fold (drop (n - 1) cs) @ re_fold t = re_fold s @ re_fold t"
      using f Cons by (subst (2) re_fold.simps) simp
    finally show ?thesis .
  qed
qed

lemma re_fold_ascii: "list_all (\<lambda>c. byte c < 128) s \<Longrightarrow> re_fold s = lower s"
proof (induction s)
  case Nil
  show ?case by (subst re_fold.simps) (simp add: lower_def)
next
  case (Cons c cs)
  then have "fold_head (c # cs) = (lower_char c, 1)" by (auto simp: fold_head_def take_Cons')
  with Cons show ?case by (subst re_fold.simps) (simp add: lower_def)
qed

lemma re_search_append: "m t \<noteq> None \<Longrightarrow> re_search m (s @ t)"
  by (induction s) (cases t; simp)+

lemma run_of_prefix: "list_all p h \<Longrightarrow> n \<le> length h \<Longrightarrow> run_of p n (h @ t) \<noteq> None"
  by (simp add: run_of_def takeWhile_append2 list_all_iff)

text \<open>A key in any case, an equals sign and a run of the class; the text around it is arbitrary.\<close>

lemma re_fold_contains:
  assumes "k \<noteq> []" and "list_all (\<lambda>c. byte c < 128) (k @ h)" and "b = [] \<or> byte (hd b) < 128"
  shows "re_fold (a @ k @ ''='' @ h @ b) = re_fold a @ lower k @ ''='' @ lower h @ re_fold b"
proof -
  let ?m = "k @ ''='' @ h"
  have m: "list_all (\<lambda>c. byte c < 128) ?m" using assms(2) by (simp add: byte_def)
  have "byte (hd (?m @ b)) < 128" using assms(1,2) by (cases k) auto
  then have "re_fold (a @ ?m @ b) = re_fold a @ re_fold (?m @ b)" by (intro re_fold_append) simp
  also have "re_fold (?m @ b) = lower ?m @ re_fold b"
    using re_fold_append [OF assms(3), of ?m] re_fold_ascii [OF m] by simp
  also have "lower ?m = lower k @ ''='' @ lower h" by (simp add: lower_def lower_char_def)
  finally show ?thesis by simp
qed

lemma key_value_pattern_contains:
  assumes "lower k = key" and "key \<noteq> []" and "list_all (\<lambda>c. byte c < 128) k"
    and "list_all (\<lambda>c. byte c < 128 \<and> p (lower_char c)) h" and "n \<le> length h" and "b = [] \<or> byte (hd b) < 128"
  shows "re_search (\<lambda>t. Option.bind (literal (key @ ''='') t) (run_of p n)) (re_fold (a @ k @ ''='' @ h @ b))"
proof -
  have k: "k \<noteq> []" using assms(1,2) by (auto simp: lower_def)
  have kh: "list_all (\<lambda>c. byte c < 128) (k @ h)" using assms(3,4) by (auto simp: list_all_iff)
  have h: "list_all p (lower h)" using assms(4) by (simp add: lower_def list_all_iff)
  have n: "n \<le> length (lower h)" using assms(5) by (simp add: lower_def)
  let ?t = "key @ ''='' @ lower h @ re_fold b"
  have "literal (key @ ''='') ?t = Some (lower h @ re_fold b)"
    by (simp add: literal_def starts_with_def)
  then have "Option.bind (literal (key @ ''='') ?t) (run_of p n) \<noteq> None"
    using run_of_prefix [OF h n, of "re_fold b"] by simp
  from re_search_append [of "\<lambda>t. Option.bind (literal (key @ ''='') t) (run_of p n)", OF this, of "re_fold a"]
  show ?thesis by (simp only: re_fold_contains [OF k kh assms(6)] assms(1))
qed

definition hex_run :: "nat \<Rightarrow> string \<Rightarrow> bool" where
  "hex_run n h \<longleftrightarrow> n \<le> length h \<and> list_all (\<lambda>c. byte c < 128 \<and> folded_hex (lower_char c)) h"

definition ascii_text :: "string \<Rightarrow> bool" where
  "ascii_text s \<longleftrightarrow> list_all (\<lambda>c. byte c < 128) s"

lemma at_path_append: "at_path (p @ q) v = Option.bind (at_path p v) (at_path q)"
  by (induction p v rule: at_path.induct) (auto split: bind_splits)

lemma line_label_None: "line_label line = None \<longleftrightarrow> (\<forall>(label, pat) \<in> set PATTERNS. \<not> pat line)"
  by (auto simp: line_label_def find_None_iff)

lemma line_hits_labels:
  "(\<exists>h \<in> set (line_hits n lines). P (fst h)) \<longleftrightarrow> (\<exists>line \<in> set lines. \<exists>label. line_label line = Some label \<and> P label)"
  by (induction lines arbitrary: n) (simp_all add: bex_Un split: option.split, metis)

lemma scan_text_hits:
  assumes "scan_text parse content = Inr hits"
  obtains allow where "allow_patterns parse content = Inr allow"
    and "hits \<noteq> [] \<longleftrightarrow> (\<exists>line \<in> set (splitlines content). \<exists>label. line_label line = Some label \<and> label \<notin> set allow)"
proof -
  obtain allow where allow: "allow_patterns parse content = Inr allow"
    and hits: "hits = filter (\<lambda>(label, n, line). label \<notin> set allow) (line_hits 1 (splitlines content))"
    using assms by (auto simp: scan_text_def bind_res_Inr_iff)
  have "hits \<noteq> [] \<longleftrightarrow> (\<exists>h \<in> set (line_hits 1 (splitlines content)). fst h \<notin> set allow)"
    by (force simp: hits filter_empty_conv)
  with that [OF allow] show ?thesis
    using line_hits_labels [of 1 "splitlines content" "\<lambda>l. l \<notin> set allow"] by simp
qed

definition flagged :: "(string \<Rightarrow> loads_result) \<Rightarrow> string \<Rightarrow> bool" where
  "flagged parse content \<longleftrightarrow>
     (\<exists>allow line label. allow_patterns parse content = Inr allow \<and> line \<in> set (splitlines content) \<and>
        line_label line = Some label \<and> label \<notin> set allow)"

lemma scan_file_hits:
  assumes "scan_file parse content = Inr hits"
  shows "hits \<noteq> [] \<longleftrightarrow> (\<exists>c. content = Inr c \<and> flagged parse c)"
proof (cases content)
  case (Inl e)
  then show ?thesis using assms by (simp add: scan_file_def split: py_exn.splits)
next
  case (Inr c)
  then have "scan_text parse c = Inr hits" using assms by (simp add: scan_file_def)
  then obtain allow where "allow_patterns parse c = Inr allow"
    and "hits \<noteq> [] \<longleftrightarrow> (\<exists>line \<in> set (splitlines c). \<exists>label. line_label line = Some label \<and> label \<notin> set allow)"
    by (rule scan_text_hits)
  then show ?thesis by (auto simp: flagged_def Inr)
qed

lemma scan_dir_hits:
  "scan_dir parse files = Inr hits \<Longrightarrow> hits \<noteq> [] \<longleftrightarrow> (\<exists>path c. (path, Inr c) \<in> set files \<and> flagged parse c)"
proof (induction files arbitrary: hits)
  case (Cons f files)
  obtain path content where f: "f = (path, content)" by force
  obtain here rest where here: "scan_file parse content = Inr here" and rest: "scan_dir parse files = Inr rest"
    and hits: "hits = map (\<lambda>h. (path, h)) here @ rest"
    using Cons.prems by (auto simp: f bind_res_Inr_iff)
  show ?case
    using Cons.IH [OF rest] scan_file_hits [OF here] by (auto simp: hits f)
qed simp

lemma secret_line_labelled:
  assumes "lower k = ''sessdata''" and "ascii_text k" and "hex_run 10 h" and "b = [] \<or> byte (hd b) < 128"
  shows "line_label (a @ k @ ''='' @ h @ b) \<noteq> None"
proof -
  have "key_value_pattern ''sessdata'' folded_hex 10 (a @ k @ ''='' @ h @ b)"
    unfolding key_value_pattern_def
    using assms by (intro key_value_pattern_contains) (auto simp: hex_run_def ascii_text_def)
  then show ?thesis unfolding line_label_None by (auto simp: PATTERNS_def)
qed

subsection \<open>Properties\<close>

text \<open>
  C25. Redaction. Nothing secret is left at any depth of a response body: no value under a sensitive key
  and no string that embeds a cookie, in particular none with \<open>SESSDATA=\<close> in any case before 32
  hexadecimal digits. A body without secrets is not changed. At a path with no sensitive key the result
  is the redaction of what was there, and what a sensitive key held is replaced as a whole.
\<close>

theorem redact_body_correct:
  "no_secret (redact_body v) \<and> (no_secret v \<longrightarrow> redact_body v = v) \<and>
   (plain_path p \<longrightarrow>
      at_path p (redact_body v) = map_option redact_body (at_path p v) \<and>
      (is_sensitive_key k \<longrightarrow>
         at_path (p @ [Key k]) (redact_body v) = map_option (\<lambda>_. JStr REDACTED) (at_path (p @ [Key k]) v))) \<and>
   (lower s = ''sessdata'' \<and> ascii_text s \<and> hex_run 32 h \<and> (b = [] \<or> byte (hd b) < 128) \<longrightarrow>
      redact_body (JStr (a @ s @ ''='' @ h @ b)) = JStr REDACTED)"
proof (intro conjI impI)
  assume p: "plain_path p"
  have "at_path (p @ []) (redact_body v) = Option.bind (at_path p v) (\<lambda>x. at_path [] (redact_body x))"
    using p by (rule at_path_redact_body)
  then show "at_path p (redact_body v) = map_option redact_body (at_path p v)"
    by (cases "at_path p v") simp_all
  assume "is_sensitive_key k"
  moreover have "at_path (p @ [Key k]) (redact_body v) = Option.bind (at_path p v) (\<lambda>x. at_path [Key k] (redact_body x))"
    using p by (rule at_path_redact_body)
  ultimately show "at_path (p @ [Key k]) (redact_body v) = map_option (\<lambda>_. JStr REDACTED) (at_path (p @ [Key k]) v)"
    using at_path_sensitive [of k] by (cases "at_path p v") (simp_all add: at_path_append del: at_path.simps)
next
  assume "lower s = ''sessdata'' \<and> ascii_text s \<and> hex_run 32 h \<and> (b = [] \<or> byte (hd b) < 128)"
  then have "re_search (\<lambda>t. Option.bind (literal (''sessdata'' @ ''='') t) (run_of folded_hex 32)) (re_fold (a @ s @ ''='' @ h @ b))"
    by (intro key_value_pattern_contains) (auto simp: hex_run_def ascii_text_def)
  then have "embeds_secret (a @ s @ ''='' @ h @ b)" by (simp add: embeds_secret_def sessdata_hex_def)
  then show "redact_body (JStr (a @ s @ ''='' @ h @ b)) = JStr REDACTED" by (simp only: redact_body.simps if_True)
qed (simp_all add: no_secret_redact_body redact_body_clean)

lemma redact_body_correct_witness:
  "at_path ([Key ''data''] @ [Key ''SESSDATA'']) (redact_body (JDict [(''data'', JDict [(''SESSDATA'', JInt 7)])])) = Some (JStr REDACTED)"
proof -
  have "plain_path [Key ''data'']" and "is_sensitive_key ''SESSDATA''"
    by (simp add: plain_path_def, code_simp, code_simp)
  then show ?thesis
    using redact_body_correct [of "JDict [(''data'', JDict [(''SESSDATA'', JInt 7)])]" "[Key ''data'']" "''SESSDATA''"]
    by simp
qed

text \<open>
  C38. The live capture. Whatever the upstream answers and whichever call fails, the only files that
  differ afterwards are fixtures in the output directory, each the text of a payload whose body is
  redacted, with an empty cookie jar and no \<open>Set-Cookie\<close> header. If the capture succeeds, the fixture of
  the login is there, and with a room those of the socket address and of the ban list.
\<close>

theorem capture_live_writes_redacted:
  assumes "capture_live T out_dir iso_now E md5_hex headers room_id (fs, cw) = (r, (fs', cw'))"
  shows "only_fixtures T out_dir fs fs' \<and>
    (\<forall>code. r = Inr code \<longrightarrow> code = 0 \<and> fixture_there T out_dir ENDPOINT_NAV None fs' \<and>
      (\<forall>n. room_id = Some n \<longrightarrow>
         fixture_there T out_dir ENDPOINT_DANMU (Some n) fs' \<and> fixture_there T out_dir ENDPOINT_BANLIST (Some n) fs'))"
  using assms unfolding capture_live_def
proof (rule capture_part [where e = ENDPOINT_NAV and rid = None], goal_cases)
  case (3 fs1 cw1)
  note nav = 3(1,2)
  show ?case
  proof (cases room_id)
    case None
    with 3 show ?thesis by auto
  next
    case (Some n)
    from 3(3) [unfolded Some option.case] show ?thesis
    proof (rule capture_part [where e = ENDPOINT_DANMU and rid = "Some n"], goal_cases)
      case (3 fs2 cw2)
      note danmu = 3(1,2)
      from 3(3) show ?case
      proof (rule capture_part [where e = ENDPOINT_BANLIST and rid = "Some n"], goal_cases)
        case (3 fs3 cw3)
        then show ?case using nav danmu
          by (auto simp: Some intro: only_fixtures_trans fixture_there_mono)
      qed (use nav danmu in \<open>auto intro: only_fixtures_trans\<close>)
    qed (use nav in \<open>auto intro: only_fixtures_trans\<close>)
  qed
qed auto


definition fixture_tools_witness :: fixture_tools where
  "fixture_tools_witness = \<lparr>ft_sha256 = (\<lambda>_. ''e3b0c44298fc1c149afbf4c8996fb924''), ft_dumps = (\<lambda>_. ''{}'')\<rparr>"

lemma capture_live_writes_redacted_witness:
  "\<exists>fs' cw'. capture_live fixture_tools_witness ''f'' (\<lambda>_. ''t'') (table_net (\<lambda>rq. json_response [(''code'', JInt (- 101))])) id [] None
       (Map.empty, (client_witness, [])) = (Inr 0, (fs', cw')) \<and>
     fixture_there fixture_tools_witness ''f'' ENDPOINT_NAV None fs'"
proof -
  let ?E = "table_net (\<lambda>rq. json_response [(''code'', JInt (- 101))])"
  obtain r fs' cw' where run: "capture_live fixture_tools_witness ''f'' (\<lambda>_. ''t'') ?E id [] None (Map.empty, (client_witness, [])) = (r, (fs', cw'))"
    by (metis surj_pair)
  moreover have "r = Inr 0"
    using run by (auto simp: capture_live_def bind_io_def with_files_def get_user_info_def http_get_apply json_response_def
        parse_body_def body_code_def jget_default_def capture_step_def save_fixture_def fixture_filename_def
        canonical_params_def Let_def split: prod.splits sum.splits if_splits)
  ultimately show ?thesis using capture_live_writes_redacted [OF run] by auto
qed

text \<open>
  C39. The scan. Unless reading or parsing raises, the exit code is 1 exactly when a readable file has
  a line whose first matching label is not on its allow list. A file without an allow list that has
  \<open>SESSDATA=\<close> in any case before ten hexadecimal digits on one of its lines always gives 1.
\<close>

theorem check_fixtures_verdict:
  assumes "check_fixtures parse (Some files) = Inr code"
  shows "code = (if \<exists>path content. (path, Inr content) \<in> set files \<and> flagged parse content then 1 else 0) \<and>
    (\<forall>path content a k h b. (path, Inr content) \<in> set files \<and> allow_patterns parse content = Inr [] \<and>
       a @ k @ ''='' @ h @ b \<in> set (splitlines content) \<and>
       lower k = ''sessdata'' \<and> ascii_text k \<and> hex_run 10 h \<and> (b = [] \<or> byte (hd b) < 128) \<longrightarrow> code = 1)"
proof -
  obtain hits where hits: "scan_dir parse files = Inr hits" and code: "code = (if hits = [] then 0 else 1)"
    using assms by (auto simp: check_fixtures_def bind_res_Inr_iff)
  have found: "hits \<noteq> [] \<longleftrightarrow> (\<exists>path c. (path, Inr c) \<in> set files \<and> flagged parse c)" using hits by (rule scan_dir_hits)
  have f: "flagged parse content"
    if line: "allow_patterns parse content = Inr []" "a @ k @ ''='' @ h @ b \<in> set (splitlines content)" "lower k = ''sessdata''"
      "ascii_text k" "hex_run 10 h" "b = [] \<or> byte (hd b) < 128" for content a k h b
  proof -
    obtain label where "line_label (a @ k @ ''='' @ h @ b) = Some label"
      using secret_line_labelled [OF line(3-6), of a] by blast
    with line(1,2) show ?thesis unfolding flagged_def by (metis empty_iff empty_set)
  qed
  show ?thesis
  proof (intro conjI allI impI, goal_cases)
    case 1
    show ?case unfolding code found [symmetric] by simp
  next
    case (2 path content a k h b)
    then have "flagged parse content" by (elim conjE) (rule f)
    with 2 found code show ?case by auto
  qed
qed

lemma check_fixtures_verdict_witness:
  "check_fixtures (\<lambda>_. DecodeError) (Some [(''a.json'', Inr ''x SESSDATA=0123456789''), (''b.json'', Inl OSError)]) = Inr 1"
proof -
  obtain code where c: "check_fixtures (\<lambda>_. DecodeError) (Some [(''a.json'', Inr ''x SESSDATA=0123456789''), (''b.json'', Inl OSError)]) = Inr code"
    by (simp add: check_fixtures_def scan_file_def scan_text_def allow_patterns_def)
  have "''x '' @ ''SESSDATA'' @ ''='' @ ''0123456789'' @ [] \<in> set (splitlines ''x SESSDATA=0123456789'')"
    and "lower ''SESSDATA'' = ''sessdata''" and "ascii_text ''SESSDATA''" and "hex_run 10 ''0123456789''"
    by code_simp+
  moreover have "allow_patterns (\<lambda>_. DecodeError) ''x SESSDATA=0123456789'' = Inr []" by (simp add: allow_patterns_def)
  ultimately have "code = 1"
    using check_fixtures_verdict [OF c, THEN conjunct2, rule_format, of "''a.json''" "''x SESSDATA=0123456789''"
        "''x ''" "''SESSDATA''" "''0123456789''" "[]"] by (simp del: append.simps)
  with c show ?thesis by simp
qed

end
