(* ===== verification/Launcher.thy ===== *)
theory Launcher
  imports Wbi
begin

section \<open>The launchers (\<open>scripts/start.py\<close>, \<open>scripts/release.py\<close>)\<close>

text \<open>
  The script that starts the two development servers and the entry point of the packaged release. A run
  is its exit code and the list of what it did, in order; the machine (tools, files, ports, processes)
  is a record of what each question to it answers. None as exit code is a run that still goes on.
\<close>

subsection \<open>Ports\<close>

text \<open>The loop of \<open>_find_available_port\<close> and \<open>find_available_port\<close>; None is the \<open>OSError\<close> at its end.\<close>

fun find_port :: "(int \<Rightarrow> bool) \<Rightarrow> int \<Rightarrow> nat \<Rightarrow> int option" where
  "find_port available start 0 = None"
| "find_port available start (Suc attempts) =
     (if available start then Some start else find_port available (start + 1) attempts)"

lemma find_port_Some:
  "find_port available start attempts = Some p \<longleftrightarrow>
     start \<le> p \<and> p < start + int attempts \<and> available p \<and> (\<forall>q. start \<le> q \<and> q < p \<longrightarrow> \<not> available q)"
proof (induction attempts arbitrary: start)
  case (Suc n)
  show ?case
  proof (cases "available start")
    case True
    then show ?thesis by (auto simp: order.strict_iff_order)
  next
    case False
    then have "(\<forall>q. start \<le> q \<and> q < p \<longrightarrow> \<not> available q) \<longleftrightarrow> (\<forall>q. start + 1 \<le> q \<and> q < p \<longrightarrow> \<not> available q)"
      by (metis add1_zle_eq order.order_iff_strict)
    moreover have "start \<le> p \<and> available p \<longleftrightarrow> start + 1 \<le> p \<and> available p" using False by (cases "start = p") auto
    ultimately show ?thesis using False Suc.IH [of "start + 1"] by auto
  qed
qed simp

lemma find_port_None:
  "find_port available start attempts = None \<longleftrightarrow> (\<forall>q. start \<le> q \<and> q < start + int attempts \<longrightarrow> \<not> available q)"
proof (induction attempts arbitrary: start)
  case (Suc n)
  have "start \<le> q \<and> q < start + int (Suc n) \<longleftrightarrow> q = start \<or> start + 1 \<le> q \<and> q < start + 1 + int n" for q
    by auto
  then have "(\<forall>q. start \<le> q \<and> q < start + int (Suc n) \<longrightarrow> \<not> available q) \<longleftrightarrow>
      \<not> available start \<and> (\<forall>q. start + 1 \<le> q \<and> q < start + 1 + int n \<longrightarrow> \<not> available q)"
    by metis
  then show ?case using Suc.IH [of "start + 1"] by auto
qed auto

subsection \<open>Choosing the package manager\<close>

record frontend_tool =
  fe_name :: string
  fe_executable :: string
  fe_install_args :: "string list"
  fe_run_args :: "string list"

definition install_command :: "frontend_tool \<Rightarrow> string list" where
  "install_command t = fe_executable t # fe_install_args t"

definition run_command :: "frontend_tool \<Rightarrow> string list" where
  "run_command t = fe_executable t # fe_run_args t"

text \<open>Paths are written with slashes.\<close>

record machine =
  mc_which :: "string \<Rightarrow> string option"
  mc_is_file :: "string \<Rightarrow> bool"
  mc_exists :: "string \<Rightarrow> bool"
  mc_nt :: bool
  mc_home :: string
  mc_frontend_dir :: string

definition find_executable :: "machine \<Rightarrow> string \<Rightarrow> string option" where
  "find_executable M name =
     (case mc_which M name of
        Some found \<Rightarrow> Some found
      | None \<Rightarrow>
          (let executable = (if mc_nt M then name @ ''.exe'' else name) in
           find (mc_is_file M)
             [mc_home M @ ''/.local/bin/'' @ executable, mc_home M @ ''/.cargo/bin/'' @ executable,
              mc_home M @ ''/.bun/bin/'' @ executable, ''/opt/homebrew/bin/'' @ executable, ''/usr/local/bin/'' @ executable]))"

definition tool_configs :: "(string \<times> string list \<times> string list) list" where
  "tool_configs =
     [(''bun'', [''install'', ''--frozen-lockfile''], [''run'', ''dev'']),
      (''npm'', [''install'', ''--no-package-lock''], [''run'', ''dev'']),
      (''pnpm'', [''install'', ''--lockfile=false''], [''run'', ''dev'']),
      (''yarn'', [''install'', ''--no-lockfile''], [''run'', ''dev''])]"

definition lockfile_order :: "(string \<times> string list) list" where
  "lockfile_order =
     [(''bun'', [''bun.lock'', ''bun.lockb'']), (''npm'', [''package-lock.json'']), (''pnpm'', [''pnpm-lock.yaml'']),
      (''yarn'', [''yarn.lock''])]"

definition preferred_tools :: "machine \<Rightarrow> string list" where
  "preferred_tools M =
     (let locked = map fst (filter (\<lambda>(name, lockfiles). list_ex (\<lambda>f. mc_exists M (mc_frontend_dir M @ ''/'' @ f)) lockfiles) lockfile_order)
      in locked @ filter (\<lambda>name. name \<notin> set locked) (map fst tool_configs))"

fun first_tool :: "machine \<Rightarrow> string list \<Rightarrow> frontend_tool option" where
  "first_tool M [] = None"
| "first_tool M (name # names) =
     (case find_executable M name of
        Some executable \<Rightarrow>
          (case map_of tool_configs name of
             Some (install_args, run_args) \<Rightarrow>
               Some \<lparr>fe_name = name, fe_executable = executable, fe_install_args = install_args, fe_run_args = run_args\<rparr>
           | None \<Rightarrow> None)
      | None \<Rightarrow> first_tool M names)"

definition select_tool :: "machine \<Rightarrow> frontend_tool option" where
  "select_tool M = first_tool M (preferred_tools M)"

definition dependencies_exist :: "machine \<Rightarrow> bool" where
  "dependencies_exist M \<longleftrightarrow>
     mc_exists M (mc_frontend_dir M @ ''/node_modules/.bin/vite'') \<or> mc_exists M (mc_frontend_dir M @ ''/node_modules/.bin/vite.cmd'')"

subsection \<open>Processes\<close>

datatype server = Backend | Frontend

text \<open>
  What a process does when it is to be stopped: it has exited (\<open>poll()\<close> is not None), it is gone before a
  signal, it exits within five seconds after SIGTERM, or it needs SIGKILL.
\<close>

datatype process_end = Exited | Gone | Obeys | Stubborn

datatype stop_action = Taskkill | SigTerm | SigKill

definition terminate_process_tree :: "bool \<Rightarrow> process_end \<Rightarrow> stop_action list" where
  "terminate_process_tree nt p =
     (if p = Exited then []
      else if nt then [Taskkill]
      else (case p of Stubborn \<Rightarrow> [SigTerm, SigKill] | _ \<Rightarrow> [SigTerm]))"

text \<open>What a run does: an installation, a server that starts, and one that is stopped by these actions.\<close>

datatype launch_event = Install "string list" | Start server "string list" | OpenBrowser int | Stop server "stop_action list"

text \<open>
  What the waiting loop sees in one round: the \<open>poll()\<close> of both servers, or Ctrl+C.
\<close>

datatype watch_round = Round "int option" "int option" | CtrlC

datatype watch_end = ServerExited server int | Interrupted

fun watch :: "watch_round list \<Rightarrow> watch_end option" where
  "watch [] = None"
| "watch (CtrlC # rounds) = Some Interrupted"
| "watch (Round backend frontend # rounds) =
     (case backend of
        Some code \<Rightarrow> Some (ServerExited Backend code)
      | None \<Rightarrow> (case frontend of Some code \<Rightarrow> Some (ServerExited Frontend code) | None \<Rightarrow> watch rounds))"

text \<open>
  \<open>_open_browser_when_ready\<close>, on its own thread: what it sees each time it wakes up, and whether it opens
  the page before its deadline.
\<close>

record wake =
  wk_time :: rat
  wk_stopped :: bool
  wk_exited :: bool \<comment> \<open>one of the servers\<close>
  wk_ports_open :: bool

fun opens_browser :: "rat \<Rightarrow> wake list \<Rightarrow> bool" where
  "opens_browser deadline [] = False"
| "opens_browser deadline (k # ks) =
     (if \<not> wk_time k < deadline \<or> wk_stopped k then False
      else if wk_exited k then False
      else if wk_ports_open k then True
      else opens_browser deadline ks)"

subsection \<open>\<open>start.py\<close>\<close>

definition BACKEND_PORT :: int where "BACKEND_PORT = 8000"

definition FRONTEND_PORT_START :: int where "FRONTEND_PORT_START = 5173"

definition FRONTEND_PORT_ATTEMPTS :: nat where "FRONTEND_PORT_ATTEMPTS = 100"

record launch_env =
  le_machine :: machine
  le_uvicorn :: bool \<comment> \<open>the package is installed\<close>
  le_python :: string
  le_install_code :: int
  le_port_available :: "int \<Rightarrow> bool"
  le_spawns :: "server \<Rightarrow> bool" \<comment> \<open>False is an \<open>OSError\<close> of \<open>Popen\<close>\<close>
  le_ends :: "server \<Rightarrow> process_end"
  le_started_at :: rat
  le_wakes :: "wake list"

definition backend_command :: "launch_env \<Rightarrow> string list" where
  "backend_command L =
     [le_python L, ''-m'', ''uvicorn'', ''app.main:app'', ''--reload'', ''--host'', ''127.0.0.1'', ''--port'', str_int BACKEND_PORT]"

definition frontend_command :: "frontend_tool \<Rightarrow> int \<Rightarrow> string list" where
  "frontend_command t port = run_command t @ [''--'', ''--port'', str_int port, ''--strictPort'']"

text \<open>The \<open>finally\<close> clause, over the processes in the order they were started.\<close>

definition stop_all :: "launch_env \<Rightarrow> server list \<Rightarrow> launch_event list" where
  "stop_all L started = map (\<lambda>s. Stop s (terminate_process_tree (mc_nt (le_machine L)) (le_ends L s))) (rev started)"

definition exit_code :: "watch_end \<Rightarrow> int" where
  "exit_code e = (case e of Interrupted \<Rightarrow> 0 | ServerExited s code \<Rightarrow> if code = 0 then 1 else code)"

definition run_servers ::
    "launch_env \<Rightarrow> bool \<Rightarrow> frontend_tool \<Rightarrow> int \<Rightarrow> watch_round list \<Rightarrow> int option \<times> launch_event list" where
  "run_servers L no_browser t port rounds =
     (if \<not> le_spawns L Backend then (Some 1, stop_all L [])
      else if \<not> le_spawns L Frontend then (Some 1, [Start Backend (backend_command L)] @ stop_all L [Backend])
      else
        (let started = [Start Backend (backend_command L), Start Frontend (frontend_command t port)];
             page = (if \<not> no_browser \<and> opens_browser (le_started_at L + 45) (le_wakes L) then [OpenBrowser port] else [])
         in case watch rounds of
              None \<Rightarrow> (None, started @ page)
            | Some e \<Rightarrow> (Some (exit_code e), started @ page @ stop_all L [Backend, Frontend])))"

definition start_main ::
    "launch_env \<Rightarrow> bool \<Rightarrow> bool \<Rightarrow> watch_round list \<Rightarrow> int option \<times> launch_event list" where
  "start_main L no_browser check rounds =
     (case select_tool (le_machine L) of
        None \<Rightarrow> (Some 2, [])
      | Some t \<Rightarrow>
          if \<not> le_uvicorn L then (Some 2, [])
          else if check then (Some 0, [])
          else
            (let ready = dependencies_exist (le_machine L);
                 installed = (if ready then [] else [Install (install_command t)])
             in if \<not> ready \<and> le_install_code L \<noteq> 0 then (Some (le_install_code L), installed)
                else (case find_port (le_port_available L) FRONTEND_PORT_START FRONTEND_PORT_ATTEMPTS of
                        None \<Rightarrow> (Some 1, installed)
                      | Some port \<Rightarrow>
                          (case run_servers L no_browser t port rounds of (code, events) \<Rightarrow> (code, installed @ events)))))"

subsection \<open>\<open>release.py\<close>\<close>

definition RELEASE_DEFAULT_PORT :: int where "RELEASE_DEFAULT_PORT = 8000"

definition RELEASE_PORT_ATTEMPTS :: nat where "RELEASE_PORT_ATTEMPTS = 100"

text \<open>Directories; resolving links and \<open>~\<close> is left to the machine.\<close>

definition bundle_root :: "string option \<Rightarrow> string \<Rightarrow> string" where
  "bundle_root meipass repo_root = (case meipass of Some r \<Rightarrow> if r \<noteq> [] then r else repo_root | None \<Rightarrow> repo_root)"

definition default_data_dir :: "string option \<Rightarrow> string \<Rightarrow> string" where
  "default_data_dir local_app_data home =
     (case local_app_data of
        Some d \<Rightarrow> if d \<noteq> [] then d @ ''/ccShield'' else home @ ''/AppData/Local/ccShield''
      | None \<Rightarrow> home @ ''/AppData/Local/ccShield'')"

definition configure_runtime :: "string \<Rightarrow> string \<Rightarrow> int \<Rightarrow> (string \<times> string) list \<Rightarrow> (string \<times> string) list" where
  "configure_runtime data_dir static_dir port environ =
     dict_update environ
       [(''CCSHIELD_RELEASE'', ''1''), (''CCSHIELD_DATA_DIR'', data_dir), (''CCSHIELD_STATIC_DIR'', static_dir),
        (''HOST'', ''127.0.0.1''), (''PORT'', str_int port), (''DEBUG'', ''false'')]"

text \<open>
  One request of \<open>wait_for_url\<close>: the time at the top of the loop and the status or the exception of
  \<open>urlopen\<close>. An \<open>OSError\<close>, which a \<open>URLError\<close> and a time-out are too, goes on with the next request;
  anything else, such as an \<open>http.client.HTTPException\<close>, leaves the function.
\<close>

fun wait_for_url :: "rat \<Rightarrow> (rat \<times> (py_exn + int)) list \<Rightarrow> (py_exn + bool) option" where
  "wait_for_url deadline [] = None"
| "wait_for_url deadline ((t, answer) # probes) =
     (if \<not> t < deadline then Some (Inr False)
      else (case answer of
              Inr status \<Rightarrow> if 200 \<le> status \<and> status < 300 then Some (Inr True) else wait_for_url deadline probes
            | Inl e \<Rightarrow> if e = OSError \<or> e = TimeoutError then wait_for_url deadline probes else Some (Inl e)))"

definition fetch_bootstrap_token :: "py_exn + json \<Rightarrow> py_exn + string" where
  "fetch_bootstrap_token response =
     bind_res response (\<lambda>payload.
     case payload of
       JDict d \<Rightarrow> (case jget d ''token'' of JStr token \<Rightarrow> if token = [] then Inl ValueError else Inr token | _ \<Rightarrow> Inl ValueError)
     | _ \<Rightarrow> Inl ValueError)"

text \<open>\<open>app_url.split("://", maxsplit=1)[-1]\<close> and \<open>urllib.parse.quote(token, safe="")\<close>.\<close>

fun url_host :: "string \<Rightarrow> string option" where
  "url_host [] = None"
| "url_host (c # cs) = (if starts_with ''://'' (c # cs) then Some (drop 3 (c # cs)) else url_host cs)"

definition quote_strict :: "string \<Rightarrow> string" where
  "quote_strict s = concat (map (\<lambda>c. if c = CHR '' '' then ''%20'' else quote_char c) s)"

definition websocket_url :: "string \<Rightarrow> string \<Rightarrow> string" where
  "websocket_url app_url token =
     (if starts_with ''https://'' app_url then ''wss'' else ''ws'') @ ''://'' @
     (case url_host app_url of Some host \<Rightarrow> host | None \<Rightarrow> app_url) @ ''/api/ws/rooms/0?token='' @ quote_strict token"

definition verify_local_websocket :: "(string \<Rightarrow> py_exn + json) \<Rightarrow> string \<Rightarrow> string \<Rightarrow> py_exn + bool" where
  "verify_local_websocket first_message app_url token =
     bind_res (first_message (websocket_url app_url token)) (\<lambda>payload.
     Inr (case payload of JDict d \<Rightarrow> jget d ''type'' = JStr ''error'' | _ \<Rightarrow> False))"

record release_env =
  re_meipass :: "string option"
  re_repo_root :: string
  re_local_app_data :: "string option"
  re_home :: string
  re_is_file :: "string \<Rightarrow> bool"
  re_port_available :: "int \<Rightarrow> bool"
  re_health :: "(rat \<times> (py_exn + int)) list"
  re_page :: "(rat \<times> (py_exn + int)) list"
  re_now :: rat
  re_page_now :: rat
  re_bootstrap :: "py_exn + json"
  re_first_message :: "string \<Rightarrow> py_exn + json"
  re_console :: "(bool \<times> string option) list" \<comment> \<open>the server thread is alive; a line, or None for its end or Ctrl+C\<close>
  re_explorer :: "py_exn + unit"

record release_args =
  ra_no_browser :: bool
  ra_check :: bool
  ra_smoke_test :: bool
  ra_data_dir :: "string option"
  ra_port :: "int option"

datatype release_event = Configured "(string \<times> string) list" | ServerStarted int | PageOpened string | DataOpened | ServerStopped

datatype release_end = ReturnCode int | Raised py_exn

definition app_url_of :: "int \<Rightarrow> string" where
  "app_url_of port = ''http://127.0.0.1:'' @ str_int port"

text \<open>The body of the \<open>try\<close> in \<open>run_smoke_test\<close>.\<close>

definition smoke_checks :: "release_env \<Rightarrow> string \<Rightarrow> release_end option" where
  "smoke_checks R app_url =
     (case wait_for_url (re_now R + 30) (re_health R) of
        None \<Rightarrow> None
      | Some (Inl e) \<Rightarrow> Some (Raised e)
      | Some (Inr False) \<Rightarrow> Some (ReturnCode 1)
      | Some (Inr True) \<Rightarrow>
          (case wait_for_url (re_page_now R + 30) (re_page R) of
             None \<Rightarrow> None
           | Some (Inl e) \<Rightarrow> Some (Raised e)
           | Some (Inr False) \<Rightarrow> Some (ReturnCode 1)
           | Some (Inr True) \<Rightarrow>
               (case bind_res (fetch_bootstrap_token (re_bootstrap R)) (verify_local_websocket (re_first_message R) app_url) of
                  Inl e \<Rightarrow> if e \<in> {OSError, ValueError, TimeoutError} then Some (ReturnCode 1) else Some (Raised e)
                | Inr ok \<Rightarrow> Some (ReturnCode (if ok then 0 else 1)))))"

text \<open>The console menu.\<close>

fun menu :: "release_env \<Rightarrow> string \<Rightarrow> (bool \<times> string option) list \<Rightarrow> release_end option \<times> release_event list" where
  "menu R app_url [] = (None, [])"
| "menu R app_url ((alive, line) # rest) =
     (if \<not> alive then (Some (ReturnCode 1), [])
      else
        (let command = (case line of None \<Rightarrow> ''q'' | Some l \<Rightarrow> lower (py_strip l)) in
         if command \<in> {''q'', ''quit'', ''exit''} then (Some (ReturnCode 0), [])
         else if command \<in> {''o'', ''open''} then map_prod id ((#) (PageOpened app_url)) (menu R app_url rest)
         else if command \<in> {''d'', ''data''} then
           (case re_explorer R of
              Inl e \<Rightarrow> (Some (Raised e), [])
            | Inr _ \<Rightarrow> map_prod id ((#) DataOpened) (menu R app_url rest))
         else menu R app_url rest))"

definition interactive :: "release_env \<Rightarrow> string \<Rightarrow> bool \<Rightarrow> release_end option \<times> release_event list" where
  "interactive R app_url no_browser =
     (case wait_for_url (re_now R + 30) (re_health R) of
        None \<Rightarrow> (None, [])
      | Some (Inl e) \<Rightarrow> (Some (Raised e), [])
      | Some (Inr False) \<Rightarrow> (Some (ReturnCode 1), [])
      | Some (Inr True) \<Rightarrow>
          map_prod id ((@) (if no_browser then [] else [PageOpened app_url])) (menu R app_url (re_console R)))"

text \<open>The thread of the server around one of the two bodies, with its \<open>finally\<close>.\<close>

definition with_server :: "int \<Rightarrow> release_end option \<times> release_event list \<Rightarrow> release_end option \<times> release_event list" where
  "with_server port body =
     (case body of (e, events) \<Rightarrow> (e, ServerStarted port # events @ (if e = None then [] else [ServerStopped])))"

definition choose_port :: "release_env \<Rightarrow> int option \<Rightarrow> int + int" where
  "choose_port R requested =
     (case requested of
        Some port \<Rightarrow>
          if \<not> (1 \<le> port \<and> port \<le> 65535) then Inl 2
          else if \<not> re_port_available R port then Inl 1
          else Inr port
      | None \<Rightarrow>
          (case find_port (re_port_available R) RELEASE_DEFAULT_PORT RELEASE_PORT_ATTEMPTS of
             None \<Rightarrow> Inl 1
           | Some port \<Rightarrow> Inr port))"

definition static_dir_of :: "release_env \<Rightarrow> string" where
  "static_dir_of R = bundle_root (re_meipass R) (re_repo_root R) @ ''/frontend/dist''"

definition release_main ::
    "release_env \<Rightarrow> release_args \<Rightarrow> (string \<times> string) list \<Rightarrow> release_end option \<times> release_event list" where
  "release_main R args environ =
     (let static_dir = static_dir_of R;
          data_dir = (case ra_data_dir args of Some d \<Rightarrow> d | None \<Rightarrow> default_data_dir (re_local_app_data R) (re_home R))
      in case choose_port R (ra_port args) of
           Inl code \<Rightarrow> (Some (ReturnCode code), [])
         | Inr port \<Rightarrow>
             (let configured = Configured (configure_runtime data_dir static_dir port environ) in
              if \<not> re_is_file R (static_dir @ ''/index.html'') then (Some (ReturnCode 1), [configured])
              else if ra_check args then (Some (ReturnCode 0), [configured])
              else map_prod id ((#) configured)
                (with_server port
                   (if ra_smoke_test args then (smoke_checks R (app_url_of port), [])
                    else interactive R (app_url_of port) (ra_no_browser args)))))"

subsection \<open>Properties\<close>

text \<open>
  Whether a process is still there after these actions: \<open>taskkill\<close> and SIGKILL end every process, and
  SIGTERM the one that obeys.
\<close>

definition survives :: "process_end \<Rightarrow> stop_action list \<Rightarrow> bool" where
  "survives p actions \<longleftrightarrow>
     (case p of
        Exited \<Rightarrow> False
      | Gone \<Rightarrow> False
      | Obeys \<Rightarrow> actions = []
      | Stubborn \<Rightarrow> Taskkill \<notin> set actions \<and> SigKill \<notin> set actions)"

definition starts :: "launch_event list \<Rightarrow> server list" where
  "starts events = List.map_filter (\<lambda>e. case e of Start s _ \<Rightarrow> Some s | _ \<Rightarrow> None) events"

definition stops :: "launch_event list \<Rightarrow> server list" where
  "stops events = List.map_filter (\<lambda>e. case e of Stop s _ \<Rightarrow> Some s | _ \<Rightarrow> None) events"

lemma starts_simps [simp]:
  "starts [] = []" "starts (Start s c # es) = s # starts es" "starts (Install c # es) = starts es"
  "starts (OpenBrowser p # es) = starts es" "starts (Stop s a # es) = starts es" "starts (es @ es') = starts es @ starts es'"
  by (simp_all add: starts_def List.map_filter_def)

lemma stops_simps [simp]:
  "stops [] = []" "stops (Start s c # es) = stops es" "stops (Install c # es) = stops es"
  "stops (OpenBrowser p # es) = stops es" "stops (Stop s a # es) = s # stops es" "stops (es @ es') = stops es @ stops es'"
  by (simp_all add: stops_def List.map_filter_def)

lemma stop_all_simps [simp]: "starts (stop_all L ss) = []" "stops (stop_all L ss) = rev ss"
  by (induction ss) (simp_all add: stop_all_def)

lemma stop_all_no_start [simp]: "Start s c \<notin> set (stop_all L ss)"
  by (auto simp: stop_all_def)

lemma watch_code: "exit_code e = 0 \<longleftrightarrow> e = Interrupted"
  by (simp add: exit_code_def split: watch_end.split)

lemma run_servers_shape:
  assumes "run_servers L no_browser t p rounds = (code, run)"
  shows "\<exists>pre. stops pre = [] \<and> (\<forall>s actions. Stop s actions \<notin> set pre) \<and> (code = None \<longrightarrow> run = pre \<and> watch rounds = None) \<and>
    (code \<noteq> None \<longrightarrow> run = pre @ stop_all L (starts pre)) \<and>
    (code = Some 0 \<longrightarrow> starts pre = [Backend, Frontend] \<and> watch rounds = Some Interrupted) \<and>
    (\<forall>c. Start Frontend c \<in> set pre \<longrightarrow> c = frontend_command t p) \<and>
    (\<forall>c. Start Backend c \<in> set pre \<longrightarrow> c = backend_command L)"
proof (cases "le_spawns L Backend \<and> le_spawns L Frontend")
  case False
  then show ?thesis
    using assms by (intro exI [of _ "if le_spawns L Backend then [Start Backend (backend_command L)] else []"])
      (auto simp: run_servers_def split: if_splits)
next
  case True
  define page where "page = (if \<not> no_browser \<and> opens_browser (le_started_at L + 45) (le_wakes L) then [OpenBrowser p] else [])"
  let ?pre = "[Start Backend (backend_command L), Start Frontend (frontend_command t p)] @ page"
  have page: "starts page = []" "stops page = []" "Start s c \<notin> set page" "Stop s a \<notin> set page" for s c a by (simp_all add: page_def)
  have "(code, run) = (case watch rounds of None \<Rightarrow> (None, ?pre) | Some e \<Rightarrow> (Some (exit_code e), ?pre @ stop_all L [Backend, Frontend]))"
    using assms True by (cases "watch rounds") (auto simp: run_servers_def Let_def page_def)
  then show ?thesis using page watch_code
    by (intro exI [of _ ?pre]) (simp split: option.splits)
qed

lemma stop_all_ends:
  assumes "Stop s actions \<in> set (stop_all L started)"
  shows "\<not> survives (le_ends L s) actions \<and> (le_ends L s = Exited \<longrightarrow> actions = []) \<and>
    (if mc_nt (le_machine L) then set actions \<subseteq> {Taskkill} else Taskkill \<notin> set actions \<and> (SigKill \<in> set actions \<longrightarrow> actions = [SigTerm, SigKill])) \<and>
    (SigKill \<in> set actions \<longrightarrow> le_ends L s = Stubborn)"
  using assms by (cases "le_ends L s") (auto simp: stop_all_def terminate_process_tree_def survives_def)

text \<open>
  C27. A run of the development launcher. While it goes on, no server was stopped. When it returns,
  every server it started is dealt with, in the opposite order and after everything else, whatever
  ended the run, and none of them is left: a server that has exited is not signalled, another one is
  ended with \<open>taskkill\<close> on Windows and elsewhere with SIGTERM, followed by SIGKILL only when it does not
  obey. It returns 0 only for \<open>--check\<close> or when Ctrl+C ended the wait for both servers. The backend is
  started on port 8000 and the frontend with the port that is the first free one from 5173 to 5272.
\<close>

theorem start_main_stops_what_it_started:
  assumes "start_main L no_browser check rounds = (code, events)"
  shows "(code = None \<longrightarrow> stops events = [] \<and> watch rounds = None) \<and>
    (code \<noteq> None \<longrightarrow> (\<exists>pre post. events = pre @ post \<and> stops pre = [] \<and> starts post = [] \<and> stops post = rev (starts pre))) \<and>
    (\<forall>s actions. Stop s actions \<in> set events \<longrightarrow>
       \<not> survives (le_ends L s) actions \<and> (le_ends L s = Exited \<longrightarrow> actions = []) \<and>
       (if mc_nt (le_machine L) then set actions \<subseteq> {Taskkill}
        else Taskkill \<notin> set actions \<and> (SigKill \<in> set actions \<longrightarrow> actions = [SigTerm, SigKill])) \<and>
       (SigKill \<in> set actions \<longrightarrow> le_ends L s = Stubborn)) \<and>
    (code = Some 0 \<longrightarrow> check \<and> events = [] \<or> starts events = [Backend, Frontend] \<and> watch rounds = Some Interrupted) \<and>
    (\<forall>command. Start Frontend command \<in> set events \<longrightarrow>
       (\<exists>t p. select_tool (le_machine L) = Some t \<and>
          command = fe_executable t # fe_run_args t @ [''--'', ''--port'', str_int p, ''--strictPort''] \<and>
          5173 \<le> p \<and> p < 5273 \<and> le_port_available L p \<and> (\<forall>q. 5173 \<le> q \<and> q < p \<longrightarrow> \<not> le_port_available L q))) \<and>
    (\<forall>command. Start Backend command \<in> set events \<longrightarrow>
       command = [le_python L, ''-m'', ''uvicorn'', ''app.main:app'', ''--reload'', ''--host'', ''127.0.0.1'', ''--port'', str_int 8000])"
proof (cases "\<exists>t p. select_tool (le_machine L) = Some t \<and> le_uvicorn L \<and> \<not> check \<and>
    (dependencies_exist (le_machine L) \<or> le_install_code L = 0) \<and>
    find_port (le_port_available L) FRONTEND_PORT_START FRONTEND_PORT_ATTEMPTS = Some p")
  case False
  have "stops events = [] \<and> starts events = [] \<and> code \<noteq> None \<and> (code = Some 0 \<longrightarrow> check \<and> events = []) \<and>
      (\<forall>s command. Start s command \<notin> set events) \<and> (\<forall>s actions. Stop s actions \<notin> set events)"
    using assms False
    by (auto simp: start_main_def Let_def split: option.splits if_splits prod.splits)
  then show ?thesis by (auto intro: exI [of _ events])
next
  case True
  then obtain t p where t: "select_tool (le_machine L) = Some t" "le_uvicorn L" "\<not> check"
      "dependencies_exist (le_machine L) \<or> le_install_code L = 0"
    and p: "find_port (le_port_available L) FRONTEND_PORT_START FRONTEND_PORT_ATTEMPTS = Some p" by blast
  obtain installed run where events: "events = installed @ run" and run: "run_servers L no_browser t p rounds = (code, run)"
    and installed: "stops installed = []" "starts installed = []" "\<forall>s c. Start s c \<notin> set installed" "\<forall>s a. Stop s a \<notin> set installed"
    using assms t p by (auto simp: start_main_def Let_def split: if_splits prod.splits)
  obtain pre where pre: "stops pre = []" "\<forall>s a. Stop s a \<notin> set pre" "code = None \<longrightarrow> run = pre \<and> watch rounds = None"
    "code \<noteq> None \<longrightarrow> run = pre @ stop_all L (starts pre)"
    "code = Some 0 \<longrightarrow> starts pre = [Backend, Frontend] \<and> watch rounds = Some Interrupted"
    "\<forall>c. Start Frontend c \<in> set pre \<longrightarrow> c = frontend_command t p" "\<forall>c. Start Backend c \<in> set pre \<longrightarrow> c = backend_command L"
    using run_servers_shape [OF run] by blast
  have port: "5173 \<le> p \<and> p < 5273 \<and> le_port_available L p \<and> (\<forall>q. 5173 \<le> q \<and> q < p \<longrightarrow> \<not> le_port_available L q)"
    using p by (simp add: find_port_Some FRONTEND_PORT_START_def FRONTEND_PORT_ATTEMPTS_def)
  have commands: "\<exists>t p. select_tool (le_machine L) = Some t \<and>
        command = fe_executable t # fe_run_args t @ [''--'', ''--port'', str_int p, ''--strictPort''] \<and>
        5173 \<le> p \<and> p < 5273 \<and> le_port_available L p \<and> (\<forall>q. 5173 \<le> q \<and> q < p \<longrightarrow> \<not> le_port_available L q)"
    if "command = frontend_command t p" for command
    using that t(1) port by (auto simp: frontend_command_def run_command_def)
  note backend = backend_command_def [unfolded BACKEND_PORT_def]
  show ?thesis
  proof (cases code)
    case None
    then show ?thesis using pre(1-3,6,7) events installed commands by (auto simp: backend)
  next
    case (Some c)
    then have run: "run = pre @ stop_all L (starts pre)" using pre(4) by simp
    have parts: "\<exists>before after. events = before @ after \<and> stops before = [] \<and> starts after = [] \<and> stops after = rev (starts before)"
      using pre(1) installed events run
      by (intro exI [of _ "installed @ pre"] exI [of _ "stop_all L (starts pre)"]) simp
    have stopped: "Stop s actions \<in> set events \<Longrightarrow> Stop s actions \<in> set (stop_all L (starts pre))" for s actions
      using pre(2) installed(4) events run by auto
    have started: "Start s c \<in> set events \<Longrightarrow> Start s c \<in> set pre" for s c
      using installed(3) events run by auto
    have "starts events = starts pre" using events run installed(2) by simp
    then have zero: "code = Some 0 \<longrightarrow> starts events = [Backend, Frontend] \<and> watch rounds = Some Interrupted" using pre(5) by simp
    have first: "Start Frontend command \<in> set events \<Longrightarrow> command = frontend_command t p" for command using started pre(6) by blast
    have second: "Start Backend command \<in> set events \<Longrightarrow> command = backend_command L" for command using started pre(7) by blast
    show ?thesis
    proof (intro conjI, goal_cases)
      case 1
      show ?case using Some by simp
    next
      case 2
      show ?case using parts by (rule impI)
    next
      case 3
      show ?case by (intro allI impI) (rule stop_all_ends [OF stopped])
    next
      case 4
      show ?case using zero by blast
    next
      case 5
      show ?case by (intro allI impI) (rule commands [OF first])
    next
      case 6
      show ?case using second by (simp add: backend)
    qed
  qed
qed


definition launch_witness :: launch_env where
  "launch_witness =
     \<lparr>le_machine = \<lparr>mc_which = (\<lambda>n. if n = ''npm'' then Some ''/bin/npm'' else None), mc_is_file = (\<lambda>_. False), mc_exists = (\<lambda>_. True),
                    mc_nt = False, mc_home = ''/h'', mc_frontend_dir = ''/f''\<rparr>,
      le_uvicorn = True, le_python = ''py'', le_install_code = 0, le_port_available = (\<lambda>p. p \<noteq> 5173),
      le_spawns = (\<lambda>_. True), le_ends = (\<lambda>_. Obeys), le_started_at = 0, le_wakes = []\<rparr>"

lemma start_main_stops_what_it_started_witness:
  "\<exists>events. start_main launch_witness False False [Round None None, CtrlC] = (Some 0, events) \<and> starts events = [Backend, Frontend]"
proof -
  obtain code events where run: "start_main launch_witness False False [Round None None, CtrlC] = (code, events)" by (metis surj_pair)
  moreover have "find_port (\<lambda>p. p \<noteq> 5173) 5173 100 = Some 5174" by (simp add: find_port_Some)
  ultimately have "code = Some 0"
    by (simp add: start_main_def launch_witness_def select_tool_def preferred_tools_def find_executable_def tool_configs_def
        lockfile_order_def dependencies_exist_def run_servers_def FRONTEND_PORT_START_def FRONTEND_PORT_ATTEMPTS_def exit_code_def)
  with start_main_stops_what_it_started [OF run] run show ?thesis by auto
qed

lemma menu_events: "ServerStarted p \<notin> set (snd (menu R app_url console))"
  by (induction R app_url console rule: menu.induct) (auto simp: Let_def split: sum.split)

lemma interactive_events: "ServerStarted p \<notin> set (snd (interactive R app_url no_browser))"
  using menu_events by (simp add: interactive_def split: option.split sum.split bool.split)

lemma menu_quits:
  "fst (menu R app_url console) = Some (ReturnCode 0) \<Longrightarrow>
     \<exists>line. (True, line) \<in> set console \<and> (line = None \<or> (\<exists>l. line = Some l \<and> lower (py_strip l) \<in> {''q'', ''quit'', ''exit''}))"
proof (induction R app_url console rule: menu.induct)
  case (2 R app_url alive line rest)
  show ?case
  proof (cases "alive \<and> (case line of None \<Rightarrow> True | Some l \<Rightarrow> lower (py_strip l) \<in> {''q'', ''quit'', ''exit''})")
    case True
    then show ?thesis by (intro exI [of _ line]) (auto split: option.splits)
  next
    case False
    then have "fst (menu R app_url rest) = Some (ReturnCode 0)"
      using "2.prems" by (auto simp: Let_def split: option.splits if_splits sum.splits)
    with "2.IH" False "2.prems" show ?thesis
      by (auto simp: Let_def split: option.splits if_splits sum.splits)
  qed
qed simp

lemma interactive_quits:
  "fst (interactive R app_url no_browser) = Some (ReturnCode 0) \<Longrightarrow>
     wait_for_url (re_now R + 30) (re_health R) = Some (Inr True) \<and> fst (menu R app_url (re_console R)) = Some (ReturnCode 0)"
  by (simp add: interactive_def fst_map_prod split: option.splits sum.splits bool.splits)

lemma choose_port_Inr:
  assumes "choose_port R requested = Inr port"
  shows "1 \<le> port \<and> port \<le> 65535 \<and> re_port_available R port \<and>
    (case requested of Some p \<Rightarrow> port = p | None \<Rightarrow> \<forall>q. 8000 \<le> q \<and> q < port \<longrightarrow> \<not> re_port_available R q)"
  using assms
  by (auto simp: choose_port_def find_port_Some RELEASE_DEFAULT_PORT_def RELEASE_PORT_ATTEMPTS_def split: option.splits if_splits)

lemma configured_port: "map_of (configure_runtime data_dir static_dir port environ) ''PORT'' = Some (str_int port)"
  by (simp add: configure_runtime_def map_of_dict_update)

lemma smoke_checks_pass:
  "smoke_checks R app_url = Some (ReturnCode 0) \<Longrightarrow>
     wait_for_url (re_now R + 30) (re_health R) = Some (Inr True) \<and> wait_for_url (re_page_now R + 30) (re_page R) = Some (Inr True) \<and>
     (\<exists>token. fetch_bootstrap_token (re_bootstrap R) = Inr token \<and> verify_local_websocket (re_first_message R) app_url token = Inr True)"
  by (auto simp: smoke_checks_def bind_res_Inr_iff split: option.splits bool.splits sum.splits if_splits)

text \<open>
  C40. A run of the packaged release. The port it uses is one between 1 and 65535 that was free: the
  requested one, or the first free one from 8000 on. A server is started at most once, on that port and
  with that port in the environment, and it is told to stop as the last action of a run that ends,
  also when a call raises. The run returns 0 only if \<open>--check\<close> found the bundled page, or both pages
  answered and the local socket greeted the smoke test, or the user quit.
\<close>

theorem release_main_correct:
  assumes "release_main R args environ = (result, events)"
  shows "(\<forall>port. ServerStarted port \<in> set events \<longrightarrow>
      1 \<le> port \<and> port \<le> 65535 \<and> re_port_available R port \<and>
      (case ra_port args of Some p \<Rightarrow> port = p | None \<Rightarrow> \<forall>q. 8000 \<le> q \<and> q < port \<longrightarrow> \<not> re_port_available R q) \<and>
      (\<exists>env rest. events = Configured env # ServerStarted port # rest \<and> map_of env ''PORT'' = Some (str_int port) \<and>
         (\<forall>p. ServerStarted p \<notin> set rest) \<and> (result \<noteq> None \<longrightarrow> rest \<noteq> [] \<and> last rest = ServerStopped))) \<and>
    (result = Some (ReturnCode 0) \<longrightarrow>
      (if ra_check args then re_is_file R (static_dir_of R @ ''/index.html'')
       else wait_for_url (re_now R + 30) (re_health R) = Some (Inr True) \<and>
         (if ra_smoke_test args then
            wait_for_url (re_page_now R + 30) (re_page R) = Some (Inr True) \<and>
            (\<exists>port token. fetch_bootstrap_token (re_bootstrap R) = Inr token \<and>
               verify_local_websocket (re_first_message R) (app_url_of port) token = Inr True)
          else \<exists>line. (True, line) \<in> set (re_console R) \<and>
            (line = None \<or> (\<exists>l. line = Some l \<and> lower (py_strip l) \<in> {''q'', ''quit'', ''exit''})))))"
proof -
  let ?body = "\<lambda>port. if ra_smoke_test args then (smoke_checks R (app_url_of port), []) else interactive R (app_url_of port) (ra_no_browser args)"
  show ?thesis
  proof (cases "choose_port R (ra_port args)")
    case (Inl code)
    then have "code \<noteq> 0" by (auto simp: choose_port_def split: option.splits if_splits)
    with Inl assms show ?thesis by (auto simp: release_main_def Let_def)
  next
    case (Inr port)
    define env where "env = configure_runtime (case ra_data_dir args of Some d \<Rightarrow> d | None \<Rightarrow> default_data_dir (re_local_app_data R) (re_home R))
      (static_dir_of R) port environ"
    have env: "map_of env ''PORT'' = Some (str_int port)" unfolding env_def by (rule configured_port)
    have run: "release_main R args environ =
        (if \<not> re_is_file R (static_dir_of R @ ''/index.html'') then (Some (ReturnCode 1), [Configured env])
         else if ra_check args then (Some (ReturnCode 0), [Configured env])
         else map_prod id ((#) (Configured env)) (with_server port (?body port)))"
      by (simp add: release_main_def Let_def env_def Inr)
    show ?thesis
    proof (cases "re_is_file R (static_dir_of R @ ''/index.html'') \<and> \<not> ra_check args")
      case False
      then show ?thesis using run assms by (auto split: if_splits)
    next
      case True
      obtain res body where body: "?body port = (res, body)" by (metis surj_pair)
      have quiet: "ServerStarted p \<notin> set body" for p
        using body interactive_events [of p R "app_url_of port"] by (metis snd_conv empty_iff empty_set)
      have res: "res = result" and events: "events = Configured env # ServerStarted port # body @ (if result = None then [] else [ServerStopped])"
        using run assms True body by (auto simp: with_server_def)
      have "\<forall>p. ServerStarted p \<in> set events \<longrightarrow> p = port" using quiet by (auto simp: events)
      moreover have "\<exists>env rest. events = Configured env # ServerStarted port # rest \<and> map_of env ''PORT'' = Some (str_int port) \<and>
          (\<forall>p. ServerStarted p \<notin> set rest) \<and> (result \<noteq> None \<longrightarrow> rest \<noteq> [] \<and> last rest = ServerStopped)"
        using env quiet unfolding events
        by (intro exI [of _ env] exI [of _ "body @ (if result = None then [] else [ServerStopped])"]) auto
      moreover have "wait_for_url (re_now R + 30) (re_health R) = Some (Inr True) \<and>
         (if ra_smoke_test args then
            wait_for_url (re_page_now R + 30) (re_page R) = Some (Inr True) \<and>
            (\<exists>port token. fetch_bootstrap_token (re_bootstrap R) = Inr token \<and>
               verify_local_websocket (re_first_message R) (app_url_of port) token = Inr True)
          else \<exists>line. (True, line) \<in> set (re_console R) \<and>
            (line = None \<or> (\<exists>l. line = Some l \<and> lower (py_strip l) \<in> {''q'', ''quit'', ''exit''})))"
        if zero: "result = Some (ReturnCode 0)"
      proof (cases "ra_smoke_test args")
        case True
        then show ?thesis using smoke_checks_pass body res zero by fastforce
      next
        case False
        then show ?thesis
          using body res zero interactive_quits [of R "app_url_of port" "ra_no_browser args"] menu_quits [of R "app_url_of port" "re_console R"]
          by simp
      qed
      ultimately show ?thesis using choose_port_Inr [OF Inr] True by auto
    qed
  qed
qed


definition release_witness :: release_env where
  "release_witness =
     \<lparr>re_meipass = Some ''/b'', re_repo_root = ''/r'', re_local_app_data = None, re_home = ''/h'', re_is_file = (\<lambda>_. True), re_port_available = (\<lambda>p. p \<noteq> 8000),
      re_health = [(0, Inl OSError), (1, Inr 200)], re_page = [], re_now = 0, re_page_now = 0, re_bootstrap = Inl OSError,
      re_first_message = (\<lambda>_. Inl OSError), re_console = [(True, Some ''d''), (True, Some '' Q '')], re_explorer = Inr ()\<rparr>"

definition release_args_witness :: release_args where
  "release_args_witness =
     \<lparr>ra_no_browser = True, ra_check = False, ra_smoke_test = False, ra_data_dir = None, ra_port = None\<rparr>"

lemma release_main_correct_witness:
  "\<exists>env rest. release_main release_witness release_args_witness [] =
     (Some (ReturnCode 0), Configured env # ServerStarted 8001 # rest) \<and> last rest = ServerStopped"
proof -
  obtain result events where run: "release_main release_witness release_args_witness [] = (result, events)" by (metis surj_pair)
  have port: "choose_port release_witness None = Inr 8001"
    using find_port_Some [of "\<lambda>p. p \<noteq> 8000" 8000 100 8001]
    by (simp add: choose_port_def release_witness_def RELEASE_DEFAULT_PORT_def RELEASE_PORT_ATTEMPTS_def)
  have "lower (py_strip ''d'') = ''d''" and "lower (py_strip '' Q '') = ''q''" by code_simp+
  then have "result = Some (ReturnCode 0)" and "ServerStarted 8001 \<in> set events"
    using run port by (auto simp: release_main_def release_args_witness_def with_server_def interactive_def release_witness_def Let_def)
  then show ?thesis using release_main_correct [OF run] run by auto
qed

end
