(* ===== verification/Release_Tools.thy ===== *)
theory Release_Tools
  imports Room_Routes Py_Json
begin

section \<open>The scripts of the build (\<open>scripts/check_version.py\<close>, \<open>scripts/report_pytest_failures.py\<close>)\<close>

text \<open>
  The check that six files name the same version, and the report of failed tests as workflow commands.
  The parsers of TOML and XML are parameters; an XML document is the tree of its elements.
\<close>

subsection \<open>The version check\<close>

text \<open>\<open>v[k]\<close> with a string \<open>k\<close>.\<close>

definition item_of :: "json \<Rightarrow> string \<Rightarrow> py_exn + json" where
  "item_of v k =
     (case v of
        JDict d \<Rightarrow> (case map_of d k of None \<Rightarrow> Inl (OtherError ''KeyError'') | Some x \<Rightarrow> Inr x)
      | _ \<Rightarrow> Inl TypeError)"

text \<open>The group of \<open>^name = "([^"]+)"$\<close> at a place of the text, and at its first line that has one.\<close>

definition constant_at :: "string \<Rightarrow> string \<Rightarrow> string option" where
  "constant_at name s =
     (let start = name @ '' = '' @ [CHR 0x22]; rest = drop (length start) s;
          value = takeWhile (\<lambda>c. c \<noteq> CHR 0x22) rest; after = drop (length value) rest
      in if starts_with start s \<and> value \<noteq> [] \<and> after \<noteq> [] \<and> (tl after = [] \<or> hd (tl after) = CHR 0x0A)
         then Some value else None)"

fun find_constant :: "string \<Rightarrow> bool \<Rightarrow> string \<Rightarrow> string option" where
  "find_constant name line_start s =
     (case (if line_start then constant_at name s else None) of
        Some v \<Rightarrow> Some v
      | None \<Rightarrow> (case s of [] \<Rightarrow> None | c # cs \<Rightarrow> find_constant name (c = CHR 0x0A) cs))"

text \<open>The values over which \<open>for package in lockfile["package"]\<close> goes, and the first with the name.\<close>

fun iterated :: "json \<Rightarrow> py_exn + json list" where
  "iterated (JList xs) = Inr xs"
| "iterated (JDict d) = Inr (map (\<lambda>(k, v). JStr k) d)"
| "iterated (JStr s) = Inr (map JStr (characters s))"
| "iterated _ = Inl TypeError"

fun first_named :: "string \<Rightarrow> json list \<Rightarrow> py_exn + json" where
  "first_named name [] = Inl (OtherError ''StopIteration'')"
| "first_named name (p # ps) =
     bind_res (attr_get p ''name'') (\<lambda>n. if n = JStr name then Inr p else first_named name ps)"

text \<open>What the script uses: \<open>read_text\<close> of a path, the two parsers, and \<open>str\<close> of a container.\<close>

record version_tools =
  vt_read :: "string \<Rightarrow> py_exn + string"
  vt_toml :: "string \<Rightarrow> py_exn + json"
  vt_depth :: nat
  vt_render :: "json \<Rightarrow> string"

definition read_json :: "version_tools \<Rightarrow> string \<Rightarrow> py_exn + json" where
  "read_json T path =
     bind_res (vt_read T path) (\<lambda>s.
     case json_loads (vt_depth T) s of Loaded v \<Rightarrow> Inr v | DecodeError \<Rightarrow> Inl ValueError | LoadsRaises e \<Rightarrow> Inl e)"

definition versions :: "version_tools \<Rightarrow> py_exn + (string \<times> string) list" where
  "versions T =
     bind_res (bind_res (vt_read T ''backend/pyproject.toml'') (vt_toml T)) (\<lambda>pyproject.
     bind_res (bind_res (vt_read T ''backend/uv.lock'') (vt_toml T)) (\<lambda>lockfile.
     bind_res (read_json T ''frontend/package.json'') (\<lambda>package.
     bind_res (read_json T ''frontend/openapi.json'') (\<lambda>openapi.
     bind_res (vt_read T ''backend/app/__init__.py'') (\<lambda>app_source.
     bind_res (vt_read T ''scripts/release.py'') (\<lambda>launcher_source.
     case (find_constant ''__version__'' True app_source, find_constant ''RELEASE_VERSION'' True launcher_source) of
       (Some app_match, Some launcher_match) \<Rightarrow>
         bind_res (bind_res (bind_res (item_of lockfile ''package'') iterated) (first_named ''ccshield-backend'')) (\<lambda>locked_backend.
         bind_res (bind_res (item_of pyproject ''project'') (\<lambda>p. item_of p ''version'')) (\<lambda>v1.
         bind_res (item_of locked_backend ''version'') (\<lambda>v2.
         bind_res (item_of package ''version'') (\<lambda>v4.
         bind_res (bind_res (item_of openapi ''info'') (\<lambda>i. item_of i ''version'')) (\<lambda>v5.
         Inr [(''backend/pyproject.toml'', str_of_json (vt_render T) v1), (''backend/uv.lock'', str_of_json (vt_render T) v2),
              (''backend/app/__init__.py'', app_match), (''frontend/package.json'', str_of_json (vt_render T) v4),
              (''frontend/openapi.json'', str_of_json (vt_render T) v5), (''scripts/release.py'', launcher_match)])))))
     | _ \<Rightarrow> Inl (RuntimeError ''could not parse Python version constants'')))))))"

text \<open>The files that do not have the version of the tag, and the exit code.\<close>

definition check_version :: "version_tools \<Rightarrow> string \<Rightarrow> py_exn + (string \<times> string) list \<times> int" where
  "check_version T tag =
     (let expected = (if starts_with ''v'' tag then tl tag else tag) in
      bind_res (versions T) (\<lambda>found.
      let mismatches = filter (\<lambda>(path, value). value \<noteq> expected) found
      in Inr (mismatches, if mismatches \<noteq> [] then 1 else 0)))"

text \<open>A constant is found only as a complete line (or complete lines, when its value contains line feeds).\<close>

lemma constant_at_Some:
  assumes "constant_at name s = Some v"
  shows "\<exists>rest. s = name @ '' = '' @ [CHR 0x22] @ v @ [CHR 0x22] @ rest \<and> (rest = [] \<or> hd rest = CHR 0x0A) \<and>
    v \<noteq> [] \<and> CHR 0x22 \<notin> set v"
proof -
  let ?start = "name @ '' = '' @ [CHR 0x22]"
  define rest where "rest = drop (length ?start) s"
  define after where "after = drop (length (takeWhile (\<lambda>c. c \<noteq> CHR 0x22) rest)) rest"
  have v: "v = takeWhile (\<lambda>c. c \<noteq> CHR 0x22) rest" "v \<noteq> []" "after \<noteq> []" "tl after = [] \<or> hd (tl after) = CHR 0x0A"
    and "starts_with ?start s"
    using assms unfolding constant_at_def Let_def rest_def after_def by (auto split: if_splits)
  then have s: "s = ?start @ rest" unfolding rest_def starts_with_def by (metis append_take_drop_id)
  have after: "after = dropWhile (\<lambda>c. c \<noteq> CHR 0x22) rest"
    unfolding after_def by (simp add: dropWhile_eq_drop)
  then have "hd after = CHR 0x22" using v(3) hd_dropWhile [of "\<lambda>c. c \<noteq> CHR 0x22" rest] by simp
  then have "rest = v @ CHR 0x22 # tl after"
    using v(1,3) after takeWhile_dropWhile_id [of "\<lambda>c. c \<noteq> CHR 0x22" rest] by (metis list.collapse)
  moreover have "CHR 0x22 \<notin> set v" using v(1) set_takeWhileD by fastforce
  ultimately show ?thesis using s v(2,4) by auto
qed

lemma find_constant_Some:
  "find_constant name start s = Some v \<Longrightarrow>
   \<exists>before rest. s = before @ name @ '' = '' @ [CHR 0x22] @ v @ [CHR 0x22] @ rest \<and>
     (if before = [] then start else last before = CHR 0x0A) \<and> (rest = [] \<or> hd rest = CHR 0x0A) \<and> v \<noteq> [] \<and> CHR 0x22 \<notin> set v"
proof (induction name start s rule: find_constant.induct)
  case (1 name start s)
  show ?case
  proof (cases "(if start then constant_at name s else None)")
    case (Some w)
    then have "start" "w = v" using 1(2) by (auto split: if_splits)
    with Some obtain rest where "s = name @ '' = '' @ [CHR 0x22] @ v @ [CHR 0x22] @ rest" "rest = [] \<or> hd rest = CHR 0x0A"
      "v \<noteq> []" "CHR 0x22 \<notin> set v"
      using constant_at_Some [of name s v] by auto
    then show ?thesis using \<open>start\<close> by (intro exI [of _ "[]"] exI [of _ rest]) simp
  next
    case None
    then obtain c cs where s: "s = c # cs" and "find_constant name (c = CHR 0x0A) cs = Some v"
      using 1(2) by (auto split: list.splits)
    from 1(1) [OF None s this(2)] obtain before rest where
      "cs = before @ name @ '' = '' @ [CHR 0x22] @ v @ [CHR 0x22] @ rest"
      "(if before = [] then c = CHR 0x0A else last before = CHR 0x0A)" "rest = [] \<or> hd rest = CHR 0x0A" "v \<noteq> []" "CHR 0x22 \<notin> set v"
      by blast
    then show ?thesis unfolding s by (intro exI [of _ "c # before"] exI [of _ rest]) (auto split: if_splits)
  qed
qed

theorem check_version_passes:
  assumes "check_version T (''v'' @ version) = Inr (mismatches, code)"
  shows "\<exists>found. versions T = Inr found \<and> length found = 6 \<and>
    (code = 0 \<longleftrightarrow> (\<forall>(path, value) \<in> set found. value = version)) \<and> set mismatches = {(p, v) \<in> set found. v \<noteq> version}"
proof -
  obtain found where found: "versions T = Inr found"
    and m: "mismatches = filter (\<lambda>(path, value). value \<noteq> version) found" "code = (if mismatches \<noteq> [] then 1 else 0)"
    using assms by (auto simp: check_version_def starts_with_def bind_res_def Let_def split: sum.splits)
  have "length found = 6"
    using found by (auto simp: versions_def bind_res_def split: sum.splits option.splits)
  with found m show ?thesis by (auto simp: filter_empty_conv)
qed

subsection \<open>The report of failed tests\<close>

definition replace_char :: "char \<Rightarrow> string \<Rightarrow> string \<Rightarrow> string" where
  "replace_char c r s = concat (map (\<lambda>x. if x = c then r else [x]) s)"

definition escape_command :: "string \<Rightarrow> string" where
  "escape_command v =
     replace_char (CHR 0x0A) ''%0A'' (replace_char (CHR 0x0D) ''%0D'' (replace_char (CHR ''%'') ''%25'' v))"

datatype element = Element (tag_of: string) (attributes: "(string \<times> string) list") (text_of: "string option") (children: "element list")

text \<open>\<open>root.iter(tag)\<close>, \<open>element.find(tag)\<close>, \<open>element.get(k, default)\<close>.\<close>

fun descendants :: "element \<Rightarrow> element list" where
  "descendants (Element t a x cs) = Element t a x cs # concat (map descendants cs)"

definition iter_elements :: "string \<Rightarrow> element \<Rightarrow> element list" where
  "iter_elements t doc = filter (\<lambda>e. tag_of e = t) (descendants doc)"

definition find_child :: "string \<Rightarrow> element \<Rightarrow> element option" where
  "find_child t e = find (\<lambda>c. tag_of c = t) (children e)"

definition attribute :: "element \<Rightarrow> string \<Rightarrow> string \<Rightarrow> string" where
  "attribute e k v0 = (case map_of (attributes e) k of None \<Rightarrow> v0 | Some v \<Rightarrow> v)"

definition failure_of :: "element \<Rightarrow> element option" where
  "failure_of tc =
     (case find_child ''failure'' tc of None \<Rightarrow> find_child ''error'' tc | Some f \<Rightarrow> Some f)"

text \<open>\<open>s[-n:]\<close> counts code points.\<close>

definition last_points :: "nat \<Rightarrow> string \<Rightarrow> string" where
  "last_points n s = (let ns = text_points s in concat (map utf8_char (drop (length ns - n) ns)))"

definition annotation :: "element \<Rightarrow> element \<Rightarrow> string" where
  "annotation tc failure =
     (let title = escape_command (''pytest: '' @ attribute tc ''classname'' ''pytest'' @ ''::'' @ attribute tc ''name'' ''unknown test'');
          detail = join_with [CHR 0x0A] (filter (\<lambda>p. p \<noteq> []) [attribute failure ''message'' [], case text_of failure of None \<Rightarrow> [] | Some x \<Rightarrow> x])
      in ''::error title='' @ title @ ''::'' @ escape_command (last_points 6000 detail))"

definition annotations :: "element \<Rightarrow> string list" where
  "annotations doc =
     List.map_filter (\<lambda>c. map_option (annotation c) (failure_of c)) (iter_elements ''testcase'' doc)"

text \<open>
  \<open>main\<close>: the printed lines and the exit code. \<open>parse\<close> is the XML parser on a file, None a path that is
  no file.
\<close>

definition report_failures :: "(string \<Rightarrow> (py_exn + element) option) \<Rightarrow> string list \<Rightarrow> py_exn + string list \<times> int" where
  "report_failures parse args =
     (case args of
        [path] \<Rightarrow>
          (case parse path of
             None \<Rightarrow> Inr ([''::error title=pytest report::JUnit report was not created: '' @ escape_command path], 1)
           | Some (Inl e) \<Rightarrow> Inl e
           | Some (Inr doc) \<Rightarrow>
               (let found = annotations doc in
                if found = [] then Inr ([''::error title=pytest report::pytest failed without a JUnit failure entry''], 1)
                else Inr (found, 0)))
      | _ \<Rightarrow> Inr ([''::error title=pytest report::usage: report_pytest_failures.py JUNIT_XML''], 2))"

text \<open>What the runner makes of the escapes.\<close>

fun unescape_command :: "string \<Rightarrow> string" where
  "unescape_command [] = []"
| "unescape_command (c # s) =
     (if c = CHR ''%'' \<and> take 2 s = ''25'' then CHR ''%'' # unescape_command (drop 2 s)
      else if c = CHR ''%'' \<and> take 2 s = ''0D'' then CHR 0x0D # unescape_command (drop 2 s)
      else if c = CHR ''%'' \<and> take 2 s = ''0A'' then CHR 0x0A # unescape_command (drop 2 s)
      else c # unescape_command s)"

lemma replace_char_simps [simp]:
  "replace_char c r [] = []" "replace_char c r (x # s) = (if x = c then r else [x]) @ replace_char c r s"
  "replace_char c r (s @ t) = replace_char c r s @ replace_char c r t"
  by (simp_all add: replace_char_def)

lemma escape_command_simps [simp]:
  "escape_command [] = []"
  "escape_command (c # s) =
     (if c = CHR ''%'' then ''%25'' else if c = CHR 0x0D then ''%0D'' else if c = CHR 0x0A then ''%0A'' else [c]) @ escape_command s"
  "escape_command (s @ t) = escape_command s @ escape_command t"
  by (simp_all add: escape_command_def)

theorem escape_command_round_trip: "unescape_command (escape_command v) = v"
  by (induction v) simp_all

lemma escape_command_one_line: "CHR 0x0A \<notin> set (escape_command v) \<and> CHR 0x0D \<notin> set (escape_command v)"
  by (induction v) auto

lemma annotation_one_line: "CHR 0x0A \<notin> set (annotation c f) \<and> CHR 0x0D \<notin> set (annotation c f)"
  by (simp add: annotation_def Let_def escape_command_one_line)

lemma annotations_iff:
  "annotations doc \<noteq> [] \<longleftrightarrow> (\<exists>c \<in> set (iter_elements ''testcase'' doc). failure_of c \<noteq> None)"
  "length (annotations doc) = length (filter (\<lambda>c. failure_of c \<noteq> None) (iter_elements ''testcase'' doc))"
proof -
  have "List.map_filter (\<lambda>c. map_option (annotation c) (failure_of c)) cs =
      map (\<lambda>c. annotation c (the (failure_of c))) (filter (\<lambda>c. failure_of c \<noteq> None) cs)" for cs
    by (induction cs) (auto simp: List.map_filter_def)
  then show "annotations doc \<noteq> [] \<longleftrightarrow> (\<exists>c \<in> set (iter_elements ''testcase'' doc). failure_of c \<noteq> None)"
    and "length (annotations doc) = length (filter (\<lambda>c. failure_of c \<noteq> None) (iter_elements ''testcase'' doc))"
    by (auto simp: annotations_def filter_empty_conv)
qed

lemma annotations_one_line: "\<forall>line \<in> set (annotations doc). CHR 0x0A \<notin> set line \<and> CHR 0x0D \<notin> set line"
  by (auto simp: annotations_def List.map_filter_def annotation_one_line)

text \<open>Every printed line is one command, and the report succeeds exactly when it names a failed test.\<close>

theorem report_failures_correct:
  assumes "report_failures parse args = Inr (printed, code)"
  shows "(\<forall>line \<in> set printed. CHR 0x0A \<notin> set line \<and> CHR 0x0D \<notin> set line) \<and>
    (code = 0 \<longleftrightarrow> (\<exists>path doc. args = [path] \<and> parse path = Some (Inr doc) \<and>
       (\<exists>c \<in> set (iter_elements ''testcase'' doc). failure_of c \<noteq> None) \<and>
       length printed = length (filter (\<lambda>c. failure_of c \<noteq> None) (iter_elements ''testcase'' doc))))"
proof -
  consider "length args \<noteq> 1" | path where "args = [path]" by (cases args rule: remdups_adj.cases) auto
  then show ?thesis
  proof cases
    case 1
    then show ?thesis using assms by (auto simp: report_failures_def split: list.splits)
  next
    case (2 path)
    show ?thesis
    proof (cases "\<exists>doc. parse path = Some (Inr doc)")
      case True
      then obtain doc where doc: "parse path = Some (Inr doc)" ..
      show ?thesis
      proof (cases "annotations doc = []")
        case True
        then show ?thesis using assms 2 doc annotations_iff(1) [of doc] by (auto simp: report_failures_def)
      next
        case False
        then have "printed = annotations doc" "code = 0" using assms 2 doc by (auto simp: report_failures_def Let_def)
        then show ?thesis
          using 2 doc False annotations_iff [of doc] annotations_one_line [of doc] by simp
      qed
    next
      case False
      then show ?thesis
        using assms 2 by (auto simp: report_failures_def escape_command_one_line split: option.splits sum.splits)
    qed
  qed
qed

end
