(* ===== verification/Spec2Isabelle.thy ===== *)
theory Spec2Isabelle
  imports Http_Surface Room_Switch Wire_Text Fixtures Launcher Release_Tools
begin

text \<open>
  \<^bold>\<open>ccShield: a moderation tool for Bilibili live rooms\<close>

  The program is a local web service in Python (\<open>src/backend/app\<close>, FastAPI on asyncio) with a browser
  front end, two launchers (\<open>src/scripts\<close>) and two scripts for recorded test data
  (\<open>src/backend/scripts\<close>). A browser starts a room; the service opens the live socket of that room,
  decodes its binary frames, normalises the messages to typed events and streams them to every
  connected browser, with a replay of recent history for the ones that join late. A moderator bans and
  unbans through the service, which keeps a list of the bans of the room, reconciles it with the
  upstream once a minute and streams its changes. A login (QR code or cookies) opens the gate of the
  protected routes; when the upstream reports that it expired, everything that depends on it stops.

  \<^bold>\<open>How the parts call each other\<close>

  \<^verbatim>\<open>
    upstream socket -> Danmaku_Ws -> Message_Buffer -> Room_Session -> Room_Bridge -> browsers
                        (Protocol)                      (Room_Events)
    upstream HTTP  <-> Bili_Client (Wbi, Bili_Exceptions) <- Ban_List, Room_Session, Auth_Session
    browser HTTP   ->  Local_Token -> Ban_Routes | Room_Routes | Auth_Routes | Quick_Rooms
                        all over the singletons of App_State; Web_App runs them in any order,
                        Http_Surface puts the guard and the table of routes in front of them
    passport HTTP  <-> Cookie_Login -> the .env file -> Auth_Session
  \<close>

  \<^bold>\<open>Theories and the code they model\<close> (paths under \<open>src/backend/app\<close> unless they start with \<open>scripts\<close>)

  \<^item> \<open>Py_Prelude\<close>, \<open>Py_Float\<close>, \<open>Py_Urls\<close>: Python's values and what the code uses of its library
    (dictionaries, JSON values, \<open>int\<close>, \<open>float\<close>, \<open>str\<close> methods, \<open>urllib.parse\<close>), coroutines as functions
    on a world, and the contract \<open>isolating_fanout\<close> of the three loops that call every listener and
    survive what they raise.
  \<^item> \<open>Py_Json\<close>: \<open>json.loads\<close> as the scanner of the standard library on UTF-8 text, \<open>json.dumps\<close> with its
    options, and the proof that what is printed is read back.
  \<^item> \<open>Bounded_Buffer\<close>: the contract of a bounded buffer that sheds load instead of blocking, with the
    accounting lemmas; interpreted on the message buffer and on a client queue of the bridge.
  \<^item> \<open>Message_Buffer\<close> (\<open>bilibili/message_buffer.py\<close>): the three priority lanes, eviction, and the
    refinement of a specification on one list.
  \<^item> \<open>Protocol\<close> (\<open>bilibili/protocol.py\<close>): packing and unpacking of frames, nested and compressed.
  \<^item> \<open>Bili_Exceptions\<close>, \<open>Wbi\<close>, \<open>Bili_Client\<close> (\<open>bilibili/exceptions.py\<close>, \<open>wbi.py\<close>, \<open>client.py\<close>): the
    upstream errors, the request signature and its key cache, every endpoint method.
  \<^item> \<open>Danmaku_Ws\<close> (\<open>bilibili/danmaku_ws.py\<close>): receiving, dispatching, start and stop, the handshake, and
    the connect loop as a step relation whose steps are what happens between two awaits.
  \<^item> \<open>Wire_Text\<close>: the codec with the JSON of Python; the bytes of the AUTH packet and of the heartbeats, and
    how a batch of the upstream is read.
  \<^item> \<open>Room_Events\<close>, \<open>Room_Session\<close> (\<open>room/events.py\<close>, \<open>room/session.py\<close>): the typed events, their
    normalisation, the ring of seen ids, connecting and disconnecting.
  \<^item> \<open>Room_Bridge\<close> (\<open>room/bridge.py\<close>): history, active paid messages, replay, one bounded queue and one
    sender task for each browser, slow clients, closing.
  \<^item> \<open>Ban_List\<close> (\<open>room/banlist.py\<close>): normalisation of ban rows and the manager of the list.
  \<^item> \<open>Local_Token\<close> (\<open>api/middleware.py\<close>, \<open>config.py\<close>): the host and token guard.
  \<^item> \<open>Auth_Session\<close> (\<open>auth/session.py\<close>): the state machine of the login.
  \<^item> \<open>Cookie_Login\<close> (\<open>bilibili/auth.py\<close>): the QR flow, the manual login, the writer of \<open>.env\<close>.
  \<^item> \<open>App_State\<close>, \<open>Ban_Routes\<close>, \<open>Room_Routes\<close>, \<open>Auth_Routes\<close>, \<open>Quick_Rooms\<close> (\<open>api/*_routes.py\<close>,
    \<open>main.py\<close>, \<open>quick_rooms.py\<close>): the singletons of the process as one record, and every handler as a
    function from that record to a reply and the record it leaves; the store of quick rooms.
  \<^item> \<open>Room_Switch\<close> (\<open>api/room_routes.py\<close>): the start, stop and expiry handlers cut at each await, any
    number of them interleaved, with every way each await can end, also a connection that breaks after
    its client has started; their invariant, what serial requests guarantee, what overlapping ones
    leak, and that the atomic routes are undisturbed handlers.
  \<^item> \<open>Live_Stream\<close>: the listener and the consumer of the socket client and the senders of the bridge as
    steps on the active room, and the invariant from received frames to what a browser is sent.
  \<^item> \<open>Process_Invariant\<close>: the contract \<open>process_invariant\<close> of a property of the process that survives an
    upstream call, a call of the ban manager and the teardown of the room, and that therefore every
    handler keeps; \<open>Web_App\<close> interprets it on the invariant of the service and on \<open>same_room\<close>.
  \<^item> \<open>Web_App\<close>: handlers, tasks and received frames as the steps of one process.
  \<^item> \<open>Http_Surface\<close> (\<open>main.py\<close>, \<open>api/router.py\<close>): the table of routes behind the guard, requests and
    handshakes as events of the process; the contract \<open>unaffected\<close> of the events that can be left out of
    a run, interpreted on the requests without the token.
  \<^item> \<open>Fixtures\<close> (\<open>src/backend/scripts\<close>): recording upstream responses without their credentials, and the
    scan of the recorded files.
  \<^item> \<open>Launcher\<close> (\<open>scripts/start.py\<close>, \<open>scripts/release.py\<close>): the two launchers as functions from what the
    machine answers to an exit code and a list of actions.
  \<^item> \<open>Release_Tools\<close> (\<open>scripts/check_version.py\<close>, \<open>scripts/report_pytest_failures.py\<close>): the comparison of the
    six versions, and the report of failed tests as workflow commands.

  \<^bold>\<open>How the model reads the code\<close>

  A class is a record and a method a function that returns the record it leaves; a module-level
  singleton is a field of the record \<open>app\<close>. An exception is the left summand of a result, with the
  state at the point where it was raised; an early return is a branch. A coroutine is a function over
  a world type that is left open: the network and the clock are functions on it, so every statement
  holds for all behaviours of the upstream. Handlers and single operations run without interference of
  other tasks; where the code suspends in the middle and other tasks matter (the connect loop, the
  senders of the bridge, the room handlers in \<open>Room_Switch\<close>), the model is cut there and the pieces run
  in any order. Integers are
  unbounded as in Python, the header fields of a frame are read and written byte by byte. The fields
  \<open>ap_retired\<close> and \<open>ap_abandoned\<close> of the application and the lists of sent frames in a client queue are
  histories for the statements; no operation reads them. A session in \<open>ap_abandoned\<close> is one whose client
  a failed start has left running; it has no listener, so what it receives reaches nobody, and its
  steps are not modelled.

  Parameters stand for code that is not in the repository or whose result the code does not determine:
  the network, the clock, zlib and brotli, MD5 and SHA-256, the parsers of TOML and XML,
  \<open>datetime.fromisoformat\<close>, the order in which a Python set is traversed, \<open>WebSocket.send_json\<close>, the
  Unicode check of \<open>urlsplit\<close>, pydantic's conversions, the text of a float or container under \<open>str\<close>.
  Where nothing depends on the form of a JSON text, JSON is a parameter too (\<open>codec\<close> in \<open>Protocol\<close>,
  \<open>json_text\<close> in \<open>Quick_Rooms\<close>, the hashed text in \<open>Fixtures\<close>); \<open>python_codec\<close> and \<open>python_json_text\<close>
  are its instances.
  What a statement needs of a parameter is a hypothesis of that statement.

  \<^bold>\<open>What the lemmas show\<close>

  \<^item> Invariants: \<open>buffer_inv\<close>, \<open>bridge_ok\<close>, \<open>manager_ok\<close>, \<open>connection_inv\<close> and, over all of them,
    \<open>app_ok\<close>, each kept by every operation of its component; the last by every step of the process.
  \<^item> Interleaving: the published room is live or being taken down in every interleaving of the room
    handlers; with one request at a time at most one room runs besides the clients that broken starts
    have left behind; with two at once a room can be left running for ever
    (\<open>overlapping_requests_leak\<close>).
  \<^item> Refinement: the atomic room routes are what an undisturbed handler does, the message buffer
    implements one sorted list, a reconcile round implements the difference of two maps, the replay of
    a bridge is determined by the last events of its history.
  \<^item> Functional correctness of the codec, the signature, the paginated reads, the role lookup, the
    handlers (each branch of the reply with the state it leaves), the store and the scan.
  \<^item> Noninterference: requests without the token, on any route and in any number, leave the state of the
    process as it is (\<open>strangers_do_not_interfere\<close>); handshakes of sockets are not guarded.
  \<^item> Safety: what the guard forwards, what redaction leaves, what a retry repeats, which login state
    opens the gate, what an expired login stops, which processes a launcher leaves behind.
  \<^item> Accounting and ordering: every message that was decoded is processed, dropped or still queued;
    every browser that keeps up gets the replay and then every event exactly once and in order.
    \<open>wire_to_browser\<close> composes the two: from the bytes of the socket to the queue of a browser,
    whatever else the process does, each priority in the order of arrival.
  \<^item> Round trips: packed frames are unpacked, the JSON texts that the program writes are read back, on
    disk and on the live socket.
  \<^item> Termination: every room handler replies after at most seven resumptions, whatever the others do
    (\<open>handlers_reply\<close>), the unpacking loop makes progress on every frame, the connect loop gives up after
    its attempts, the pagination stops at its page limit.

  \<^bold>\<open>Bounds\<close>

  The only fuel is the interpreter stack: of \<open>unpack_data\<close> an explicit number of nested activations, of
  \<open>json_loads\<close> the number of nested arrays and objects, at whose end Python raises \<open>RecursionError\<close>. The
  statements hold for every amount that covers the value they are about. Every other recursion is
  structural or has a measure: the unpacking loop the bytes that are left, the pagination the pages up to
  \<open>BAN_LIST_MAX_PAGES\<close>, the line splitter, the case folding and the JSON scanner the length of the text,
  redaction and the JSON printer the size of the value. A waiting loop of a launcher runs over the list
  of what it sees; the result None is a run that goes on.

  \<^bold>\<open>Not modelled\<close>

  Log records and printed texts; HTTP headers; the serialisation, the parsing of parameters and CORS
  of FastAPI; the loading of the settings by pydantic; the waits for cancelled tasks; digits and
  blanks outside of ASCII; the mounting of the built front end; the re-exports of the packages; the
  TypeScript front end, the tests and the packaging.
\<close>

end
